(* ===== verification/Prelude.thy ===== *)
theory Prelude
  imports Main "HOL-Library.Word" "HOL-Library.AList" "HOL-Library.Multiset" "HOL-Library.Sublist"
begin

text \<open>
  The vocabulary every theory of the development shares.

  \<^item> Go strings and byte slices are both lists of bytes; a \<open>char\<close> of HOL is exactly one
    byte, so both are \<open>bytes\<close>. A slice that the code compares with \<open>nil\<close> is a
    \<open>bytes option\<close> at that place.
  \<^item> A Go map is an association list (\<open>gomap\<close>), read with \<open>map_of\<close>, written
    with \<open>AList.update\<close> and \<open>AList.delete\<close>; reading an absent key of a map of
    integers gives the zero value (\<open>go_get0\<close>).
  \<^item> An error value is a \<open>goerr\<close>: the sentinel errors the code compares with, a
    message, or a message wrapped around another error (\<open>%w\<close>), which is what
    \<open>errors.Is\<close> looks through. A pair \<open>(value, error)\<close> of Go is \<open>goerr + 'a\<close>.
  \<^item> A panic is an \<open>Inl\<close> of \<open>may_panic\<close>.
\<close>

section \<open>Types\<close>

type_synonym bytes = string
type_synonym peer_id = string
type_synonym ('k, 'v) gomap = "('k \<times> 'v) list"
type_synonym 'a may_panic = "string + 'a"

named_theorems gomap_simps "reading a Go map after a write"

section \<open>Errors\<close>

datatype goerr =
    ErrNotFound                     \<comment> \<open>\<open>ds.ErrNotFound\<close>\<close>
  | ErrRoutingNotFound              \<comment> \<open>\<open>routing.ErrNotFound\<close>\<close>
  | ErrNotSupported                 \<comment> \<open>\<open>routing.ErrNotSupported\<close>\<close>
  | ErrSkipRemaining                \<comment> \<open>\<open>coordt.ErrSkipRemaining\<close>\<close>
  | ErrEOF                          \<comment> \<open>\<open>io.EOF\<close>\<close>
  | Errorf string                   \<comment> \<open>\<open>fmt.Errorf\<close> without a wrapped error\<close>
  | Wrapf string goerr              \<comment> \<open>\<open>fmt.Errorf\<close> with \<open>%w\<close>\<close>
  | ConfigurationError string goerr \<comment> \<open>component and cause\<close>

text \<open>\<open>errors.Is\<close>: the error itself or anything it wraps.\<close>

fun errors_Is :: "goerr \<Rightarrow> goerr \<Rightarrow> bool" where
  "errors_Is (Wrapf s e) t = (Wrapf s e = t \<or> errors_Is e t)"
| "errors_Is (ConfigurationError c e) t = (ConfigurationError c e = t \<or> errors_Is e t)"
| "errors_Is e t = (e = t)"

lemma errors_Is_refl [simp]: "errors_Is e e"
  by (cases e) auto

text \<open>Sequencing of fallible calls.\<close>

definition bind_err :: "goerr + 'a \<Rightarrow> ('a \<Rightarrow> goerr + 'b) \<Rightarrow> goerr + 'b" where
  "bind_err r f = (case r of Inl e \<Rightarrow> Inl e | Inr a \<Rightarrow> f a)"

lemma bind_err_simps [simp]:
  "bind_err (Inl e) f = Inl e"
  "bind_err (Inr a) f = f a"
  by (simp_all add: bind_err_def)

lemma bind_err_eq_Inr: "bind_err r f = Inr b \<longleftrightarrow> (\<exists>a. r = Inr a \<and> f a = Inr b)"
  by (cases r) auto

section \<open>Go maps\<close>

definition go_get0 :: "('k, int) gomap \<Rightarrow> 'k \<Rightarrow> int" where
  "go_get0 m k = (case map_of m k of None \<Rightarrow> 0 | Some v \<Rightarrow> v)"

lemma map_of_update [gomap_simps, simp]:
  "map_of (AList.update k v m) = (map_of m)(k \<mapsto> v)"
  by (rule AList.update_conv')

lemma map_of_delete_upd [gomap_simps, simp]:
  "map_of (AList.delete k m) = (map_of m)(k := None)"
  by (rule AList.delete_conv')

lemma go_get0_update [gomap_simps, simp]:
  "go_get0 (AList.update k v m) j = (if j = k then v else go_get0 m j)"
  by (simp add: go_get0_def)

lemma map_of_eq_Nil: "(\<forall>k. map_of m k = None) \<longleftrightarrow> m = []"
  by (cases m) (auto simp: map_of_eq_None_iff)

end
