(* ===== verification/Varint.thy ===== *)
theory Varint
  imports Prelude
begin

unbundle bit_operations_syntax

text \<open>
  The varint codec of Go's \<open>encoding/binary\<close>, as \<open>backend_provider.go\<close> uses it to
  store the expiry of a provider record, and the length computation \<open>sovDht\<close> of
  \<open>pb/msg.aux.go\<close>. Values are 64-bit words, the encoding is a list of 8-bit words; at the
  datastore it becomes a list of characters. The laws a client needs of a codec are the locale
  \<open>codec\<close>.
\<close>

section \<open>Bytes and characters\<close>

definition byte_char :: "8 word \<Rightarrow> char" where
  "byte_char w = char_of (unat w)"

definition char_byte :: "char \<Rightarrow> 8 word" where
  "char_byte c = of_nat (of_char c)"

lemma char_byte_char [simp]: "char_byte (byte_char w) = w"
proof -
  have "unat w < 256" using unsigned_less [of w, where ?'a = nat] by simp
  then show ?thesis by (simp add: char_byte_def byte_char_def)
qed

lemma char_byte_comp [simp]: "char_byte \<circ> byte_char = id"
  by (simp add: fun_eq_iff)

section \<open>The loops of encoding/binary\<close>

function PutUvarint :: "64 word \<Rightarrow> 8 word list" where
  "PutUvarint x =
     (if 0x80 \<le> x then (ucast x OR 0x80) # PutUvarint (drop_bit 7 x) else [ucast x])"
  by pat_completeness auto

lemma unat_drop7: "unat (drop_bit 7 (x :: 64 word)) = unat x div 128"
proof -
  have "take_bit 64 (unat x) = unat x"
    using unsigned_less [of x, where ?'a = nat] by (simp add: take_bit_eq_mod)
  then show ?thesis unfolding unsigned_drop_bit_eq by (simp add: drop_bit_eq_div)
qed

lemma le_0x80: "(0x80 :: 64 word) \<le> x \<longleftrightarrow> 128 \<le> unat x"
  by (simp add: word_le_nat_alt)

termination PutUvarint
  by (relation "measure unat") (simp_all add: unat_drop7 le_0x80)

declare PutUvarint.simps [simp del]

text \<open>\<open>PutVarint\<close>: zigzag, then \<open>PutUvarint\<close>. The argument is an \<open>int64\<close>.\<close>

definition PutVarint :: "64 word \<Rightarrow> 8 word list" where
  "PutVarint x = (let ux = push_bit 1 x in PutUvarint (if x <s 0 then NOT ux else ux))"

text \<open>
  \<open>Uvarint\<close>: the value and the number of bytes read, \<open>0\<close> bytes where the buffer is too
  small, a negative number where the value overflows 64 bits.
\<close>

fun Uvarint_loop :: "nat \<Rightarrow> 64 word \<Rightarrow> nat \<Rightarrow> 8 word list \<Rightarrow> 64 word \<times> int" where
  "Uvarint_loop i x s [] = (0, 0)"
| "Uvarint_loop i x s (b # bs) =
     (if i = 10 then (0, - (int i + 1))
      else if b < 0x80 then
        (if i = 10 - 1 \<and> b > 1 then (0, - (int i + 1))
         else (x OR push_bit s (ucast b), int i + 1))
      else Uvarint_loop (i + 1) (x OR push_bit s (ucast (b AND 0x7f))) (s + 7) bs)"

definition Uvarint :: "8 word list \<Rightarrow> 64 word \<times> int" where
  "Uvarint buf = Uvarint_loop 0 0 0 buf"

definition Varint :: "8 word list \<Rightarrow> 64 word \<times> int" where
  "Varint buf =
     (let (ux, n) = Uvarint buf; x = drop_bit 1 ux
      in (if ux AND 1 \<noteq> 0 then NOT x else x, n))"

section \<open>Length of an encoding: sovDht\<close>

fun bit_length :: "nat \<Rightarrow> nat" where
  "bit_length n = (if n = 0 then 0 else Suc (bit_length (n div 2)))"

declare bit_length.simps [simp del]

definition Len64 :: "64 word \<Rightarrow> nat" where
  "Len64 x = bit_length (unat x)"

definition sovDht :: "64 word \<Rightarrow> nat" where
  "sovDht x = (Len64 (x OR 1) + 6) div 7"

lemma bit_length_0 [simp]: "bit_length 0 = 0"
  by (simp add: bit_length.simps)

lemma bit_length_pos: "0 < n \<Longrightarrow> bit_length n = Suc (bit_length (n div 2))"
  by (simp add: bit_length.simps)

lemma bit_length_le: "n < 2 ^ k \<Longrightarrow> bit_length n \<le> k"
proof (induction k arbitrary: n)
  case 0
  then show ?case by simp
next
  case (Suc k)
  then have "bit_length (n div 2) \<le> k" by simp
  then show ?case by (cases "n = 0") (simp_all add: bit_length_pos)
qed

lemma bit_length_shift: "2 ^ k \<le> n \<Longrightarrow> bit_length n = k + bit_length (n div 2 ^ k)"
proof (induction k arbitrary: n)
  case 0
  then show ?case by simp
next
  case (Suc k)
  then have "bit_length (n div 2) = k + bit_length (n div 2 div 2 ^ k)" by simp
  moreover have "0 < n"
    using Suc.prems by (metis gr0I le_zero_eq power_not_zero zero_neq_numeral)
  ultimately show ?case by (simp add: bit_length_pos div_mult2_eq)
qed

lemma sovDht_nat: "sovDht x = (Suc (bit_length (unat x div 2)) + 6) div 7"
proof -
  have "unat (x OR 1) = unat x + of_bool (even (unat x))"
    unfolding unsigned_or_eq by (simp add: or_Suc_0_eq)
  then have "bit_length (unat (x OR 1)) = Suc (bit_length (unat x div 2))"
    by (cases "even (unat x)") (simp_all add: bit_length_pos odd_pos)
  then show ?thesis by (simp add: sovDht_def Len64_def)
qed

lemma sovDht_small:
  assumes "unat x < 128"
  shows "sovDht x = 1"
proof -
  have "bit_length (unat x div 2) \<le> 6"
    using assms by (intro bit_length_le) simp
  then show ?thesis unfolding sovDht_nat by arith
qed

lemma sovDht_step:
  assumes "128 \<le> unat x"
  shows "sovDht x = Suc (sovDht (drop_bit 7 x))"
proof -
  have "bit_length (unat x div 2) = 6 + bit_length (unat x div 2 div 2 ^ 6)"
    by (rule bit_length_shift) (use assms in simp)
  moreover have "unat x div 2 div 2 ^ 6 = unat x div 128"
    by (simp add: div_mult2_eq [symmetric])
  moreover have "0 < unat x div 128" using assms by simp
  ultimately have "bit_length (unat x div 2) = 7 + bit_length (unat x div 128 div 2)"
    by (simp only: bit_length_pos [of "unat x div 128"])
  then show ?thesis unfolding sovDht_nat unat_drop7 by arith
qed

lemma length_PutUvarint: "length (PutUvarint x) = sovDht x"
proof (induction x rule: PutUvarint.induct)
  case (1 x)
  show ?case
  proof (cases "0x80 \<le> x")
    case True
    then show ?thesis
      using "1.IH" sovDht_step by (simp add: PutUvarint.simps [of x] le_0x80)
  next
    case False
    then show ?thesis
      using sovDht_small by (simp add: PutUvarint.simps [of x] le_0x80 not_le)
  qed
qed

lemma sovDht_bounds: "1 \<le> sovDht x \<and> sovDht x \<le> 10"
proof -
  have "unat x < 2 ^ 64" using unsigned_less [of x, where ?'a = nat] by simp
  then have "bit_length (unat x div 2) \<le> 63" by (intro bit_length_le) simp
  then show ?thesis unfolding sovDht_nat by arith
qed

section \<open>Decoding what was encoded\<close>

lemma mask_0x7f: "(0x7f :: 8 word) = mask 7"
  by (simp add: mask_eq_exp_minus_1)

lemma and_0x7f_bits:
  "bit (ucast (ucast (y :: 64 word) AND (0x7f :: 8 word)) :: 64 word) n \<longleftrightarrow> n < 7 \<and> bit y n"
  unfolding mask_0x7f by (auto simp: bit_simps)

lemma byte_small_iff: "w < (0x80 :: 8 word) \<longleftrightarrow> \<not> bit w 7"
proof -
  have "unat w < 256" using unsigned_less [of w, where ?'a = nat] by simp
  then have "odd (unat w div 128) \<longleftrightarrow> 128 \<le> unat w"
    by (cases "128 \<le> unat w") (auto simp: div_eq_0_iff le_div_geq)
  moreover have "bit w 7 \<longleftrightarrow> bit (unat w) 7"
    by (simp add: bit_unsigned_iff)
  then have "bit w 7 \<longleftrightarrow> odd (unat w div 128)"
    unfolding bit_iff_odd [of "unat w"] by simp
  ultimately show ?thesis by (simp add: word_less_nat_alt not_le)
qed

lemma last_byte_bits:
  assumes "unat y < 128"
  shows "(ucast (ucast (y :: 64 word) :: 8 word) :: 64 word) = y"
    and "ucast y < (0x80 :: 8 word)"
    and "unat (ucast y :: 8 word) = unat y"
proof -
  show "unat (ucast y :: 8 word) = unat y"
    using assms by (simp only: unsigned_ucast_eq) (simp add: take_bit_eq_mod)
  have "unat (ucast (ucast y :: 8 word) :: 64 word) = unat y"
    using assms by (simp only: unsigned_ucast_eq) (simp add: take_bit_eq_mod unat_mod)
  then show "(ucast (ucast (y :: 64 word) :: 8 word) :: 64 word) = y"
    by (simp only: word_unat_eq_iff)
  show "ucast y < (0x80 :: 8 word)"
    using assms by (simp only: word_less_nat_alt unsigned_ucast_eq) (simp add: take_bit_eq_mod)
qed

lemma chunk_join:
  "(acc OR push_bit s (ucast (ucast y AND (0x7f :: 8 word)))) OR push_bit (s + 7) (drop_bit 7 y)
     = acc OR push_bit s (y :: 64 word)"
proof (rule bit_word_eqI)
  fix n
  show "bit ((acc OR push_bit s (ucast (ucast y AND (0x7f :: 8 word))))
        OR push_bit (s + 7) (drop_bit 7 y)) n = bit (acc OR push_bit s y) n"
  proof (cases "s + 7 \<le> n")
    case True
    then have "7 + (n - (s + 7)) = n - s" by simp
    with True show ?thesis
      by (auto simp only: bit_or_iff bit_push_bit_iff bit_drop_bit_eq and_0x7f_bits o_def)
  next
    case False
    then show ?thesis
      by (auto simp only: bit_or_iff bit_push_bit_iff bit_drop_bit_eq and_0x7f_bits o_def)
  qed
qed

lemma continuation_byte:
  "((ucast (y :: 64 word) :: 8 word) OR 0x80) AND 0x7f = ucast y AND 0x7f"
  "\<not> (ucast y :: 8 word) OR 0x80 < 0x80"
proof -
  have "(0x80 :: 8 word) = push_bit 7 1" by simp
  then have "bit (0x80 :: 8 word) n \<longleftrightarrow> n = 7" for n
    by (simp only: bit_push_bit_iff bit_1_iff) auto
  then show "((ucast y :: 8 word) OR 0x80) AND 0x7f = ucast y AND 0x7f"
    unfolding mask_0x7f by (intro bit_word_eqI) (auto simp only: bit_and_iff bit_or_iff bit_mask_iff)
  show "\<not> (ucast y :: 8 word) OR 0x80 < 0x80"
    using \<open>\<And>n. bit (0x80 :: 8 word) n \<longleftrightarrow> n = 7\<close> by (simp only: byte_small_iff bit_or_iff) simp
qed

lemma Uvarint_loop_PutUvarint:
  assumes "i \<le> 9" and "unat y < 2 ^ (64 - 7 * i)"
  shows "Uvarint_loop i acc (7 * i) (PutUvarint y @ rest) =
           (acc OR push_bit (7 * i) y, int i + int (length (PutUvarint y)))"
  using assms
proof (induction y arbitrary: i acc rule: PutUvarint.induct)
  case (1 y)
  show ?case
  proof (cases "0x80 \<le> y")
    case True
    then have y: "128 \<le> unat y" by (simp add: le_0x80)
    have "i \<noteq> 9" using y "1.prems" by auto
    with "1.prems" have i: "Suc i \<le> 9" by simp
    then have "64 - 7 * i = 7 + (64 - 7 * Suc i)" by simp
    then have "(2::nat) ^ (64 - 7 * i) = 128 * 2 ^ (64 - 7 * Suc i)" by (simp only: power_add) simp
    then have "unat y < 128 * 2 ^ (64 - 7 * Suc i)" using "1.prems"(2) by (simp only:)
    then have "unat (drop_bit 7 y) < 2 ^ (64 - 7 * Suc i)"
      unfolding unat_drop7 by (metis less_mult_imp_div_less mult.commute)
    from "1.IH" [OF True i this] show ?thesis
      using i by (simp add: PutUvarint.simps [of y] True continuation_byte add.commute [of "7 * i"]
          chunk_join [of acc "7 * i" y, simplified add.commute [of "7 * i"]])
  next
    case False
    then have y: "unat y < 128" by (simp add: le_0x80 not_le)
    show ?thesis
      using "1.prems" False last_byte_bits [OF y]
      by (auto simp: PutUvarint.simps [of y] word_less_nat_alt)
  qed
qed

lemma Uvarint_PutUvarint:
  "Uvarint (PutUvarint x @ rest) = (x, int (length (PutUvarint x)))"
  using Uvarint_loop_PutUvarint [of 0 x 0 rest] unsigned_less [of x, where ?'a = nat]
  by (simp add: Uvarint_def)

text \<open>Zigzag: the sign goes to the lowest bit and comes back.\<close>

lemma and_1_bit: "(w :: 64 word) AND 1 \<noteq> 0 \<longleftrightarrow> bit w 0"
  by (simp add: and_one_eq bit_0 mod_2_eq_odd)

lemma zigzag_even: "push_bit 1 (x :: 64 word) AND 1 = 0"
  using and_1_bit [of "push_bit 1 x"] by (simp only: bit_push_bit_iff) simp

lemma zigzag_odd: "NOT (push_bit 1 (x :: 64 word)) AND 1 \<noteq> 0"
  unfolding and_1_bit by (simp only: bit_not_iff bit_push_bit_iff) simp

lemma zigzag_pos:
  assumes "\<not> bit (x :: 64 word) 63"
  shows "drop_bit 1 (push_bit 1 x) = x"
proof (rule bit_word_eqI)
  fix n :: nat
  assume "n < LENGTH(64)"
  then show "bit (drop_bit 1 (push_bit 1 x)) n = bit x n"
    using assms by (cases "n = 63") (auto simp only: bit_drop_bit_eq o_def bit_push_bit_iff, simp_all)
qed

lemma zigzag_neg:
  assumes "bit (x :: 64 word) 63"
  shows "NOT (drop_bit 1 (NOT (push_bit 1 x))) = x"
proof (rule bit_word_eqI)
  fix n :: nat
  assume n: "n < LENGTH(64)"
  then show "bit (NOT (drop_bit 1 (NOT (push_bit 1 x)))) n = bit x n"
    using assms
    by (cases "n = 63")
       (auto simp only: bit_not_iff bit_drop_bit_eq o_def bit_push_bit_iff, simp_all)
qed

lemma sless_0_bit: "(x :: 64 word) <s 0 \<longleftrightarrow> bit x 63"
  using bit_last_iff [of x] by (simp add: word_sless_alt)

lemma Varint_PutVarint:
  "Varint (PutVarint x @ rest) = (x, int (length (PutVarint x)))"
  by (simp only: Varint_def PutVarint_def Uvarint_PutUvarint Let_def sless_0_bit split: prod.split if_split)
     (use zigzag_even [of x] zigzag_odd [of x] zigzag_pos [of x] zigzag_neg [of x] in
       \<open>simp only: prod.inject; blast\<close>)

lemma length_PutVarint: "length (PutVarint x) \<le> 10"
  using sovDht_bounds by (simp add: PutVarint_def Let_def length_PutUvarint)

lemma PutVarint_nonempty [simp]: "PutVarint x \<noteq> []"
proof -
  have "1 \<le> length (PutVarint x)"
    using sovDht_bounds unfolding PutVarint_def Let_def length_PutUvarint by blast
  then show ?thesis by auto
qed

text \<open>When reading fails: no final byte within the first ten.\<close>

lemma Uvarint_loop_fail:
  assumes "i \<le> 10"
  shows "snd (Uvarint_loop i x s buf) = 0 \<longleftrightarrow>
           length buf + i \<le> 10 \<and> (\<forall>b \<in> set buf. 0x80 \<le> b)"
  using assms
proof (induction buf arbitrary: i x s)
  case Nil
  then show ?case by simp
next
  case (Cons b bs)
  show ?case
  proof (cases "i = 10 \<or> b < 0x80")
    case True
    then show ?thesis using Cons.prems by auto
  next
    case False
    then show ?thesis using Cons.prems Cons.IH [of "Suc i"] by (auto simp: not_less)
  qed
qed

lemma Varint_fail:
  "snd (Varint buf) = 0 \<longleftrightarrow> length buf \<le> 10 \<and> (\<forall>b \<in> set buf. 0x80 \<le> b)"
  using Uvarint_loop_fail [of 0 0 0 buf]
  by (cases "Uvarint_loop 0 0 0 buf") (simp add: Varint_def Uvarint_def Let_def)

text \<open>A value that overflows 64 bits reads as zero, with a negative count.\<close>

lemma Uvarint_loop_overflow:
  assumes "i \<le> 10" and "10 < length buf + i" and "\<forall>b \<in> set buf. 0x80 \<le> b"
  shows "Uvarint_loop i x s buf = (0, - 11)"
  using assms
proof (induction buf arbitrary: i x s)
  case Nil
  then show ?case by simp
next
  case (Cons b bs)
  then show ?case by (cases "i = 10") (auto simp: not_less)
qed

lemma Varint_overflow:
  assumes "10 < length buf" and "\<forall>b \<in> set buf. 0x80 \<le> b"
  shows "Varint buf = (0, - 11)"
  using Uvarint_loop_overflow [of 0 buf 0 0] assms by (simp add: Varint_def Uvarint_def)

section \<open>The interface of a codec\<close>

locale codec =
  fixes enc :: "'a \<Rightarrow> 'b"
    and dec :: "'b \<Rightarrow> goerr + 'a"
    and encodable :: "'a \<Rightarrow> bool"
  assumes dec_enc: "encodable a \<Longrightarrow> dec (enc a) = Inr a"
begin

lemma enc_eqD: "enc a = enc b \<Longrightarrow> encodable a \<Longrightarrow> encodable b \<Longrightarrow> a = b"
  by (metis dec_enc sum.inject(2))

lemma inj_on_enc: "inj_on enc {a. encodable a}"
  by (rule inj_onI) (auto intro: enc_eqD)

end

end
