(* ===== verification/ExpiryRecord.thy ===== *)
theory ExpiryRecord
  imports Varint
begin

text \<open>
  Times and the \<open>expiryRecord\<close> of \<open>backend_provider.go\<close>: what is written to the datastore
  for a provider record. A \<open>time.Time\<close> is the number of nanoseconds since the Unix epoch, an
  unbounded \<open>int\<close>; a \<open>time.Duration\<close> is an \<open>int\<close> within the range of
  \<open>int64\<close>, and \<open>Time.Sub\<close> saturates there, as the standard library's does.
\<close>

section \<open>Times\<close>

definition maxDuration :: int where "maxDuration = 2 ^ 63 - 1"
definition minDuration :: int where "minDuration = - (2 ^ 63)"

definition time_Sub :: "int \<Rightarrow> int \<Rightarrow> int" where
  "time_Sub t u = max minDuration (min maxDuration (t - u))"

definition Hour :: int where "Hour = 3600 * 1000000000"
definition Minute :: int where "Minute = 60 * 1000000000"

definition unix_nano_ok :: "int \<Rightarrow> bool" where
  "unix_nano_ok t \<longleftrightarrow> - (2 ^ 63) \<le> t \<and> t < 2 ^ 63"

text \<open>A comparison with a validity that is itself a duration is not affected by saturation.\<close>

lemma time_Sub_le:
  assumes "minDuration \<le> v" and "v < maxDuration"
  shows "time_Sub t u \<le> v \<longleftrightarrow> t - u \<le> v"
  using assms by (auto simp: time_Sub_def)

section \<open>Marshalling\<close>

record expiryRecord =
  expiry :: int

text \<open>\<open>UnixNano\<close> keeps the low 64 bits; \<open>time.Unix(0, nsec)\<close> reads them as \<open>int64\<close>.\<close>

definition MarshalBinary :: "expiryRecord \<Rightarrow> bytes" where
  "MarshalBinary e = map byte_char (PutVarint (word_of_int (expiry e)))"

definition UnmarshalBinary :: "bytes \<Rightarrow> goerr + expiryRecord" where
  "UnmarshalBinary data =
     (let (nsec, n) = Varint (map char_byte data)
      in if n = 0 then Inl (Errorf ''failed to parse time'')
         else Inr \<lparr>expiry = sint nsec\<rparr>)"

lemma sint_of_unix_nano: "unix_nano_ok t \<Longrightarrow> sint (word_of_int t :: 64 word) = t"
  by (simp add: unix_nano_ok_def signed_of_int signed_take_bit_int_eq_self)

lemma Unmarshal_Marshal:
  assumes "unix_nano_ok (expiry e)"
  shows "UnmarshalBinary (MarshalBinary e) = Inr e"
  using Varint_PutVarint [of "word_of_int (expiry e)" "[]"] sint_of_unix_nano [OF assms]
  by (simp add: UnmarshalBinary_def MarshalBinary_def)

interpretation expiry_codec: codec MarshalBinary UnmarshalBinary "\<lambda>e. unix_nano_ok (expiry e)"
  by unfold_locales (rule Unmarshal_Marshal)

section \<open>Properties\<close>

text \<open>
  An expiry written to the datastore reads back as the same instant, for every instant that
  \<open>UnixNano\<close> can represent, and the encoding always fits the 16 byte buffer of
  \<open>MarshalBinary\<close>, which would panic otherwise. So equal encodings are equal instants.
\<close>
lemma expiry_roundtrip:
  assumes "unix_nano_ok (expiry e)"
  shows "UnmarshalBinary (MarshalBinary e) = Inr e \<and> length (MarshalBinary e) \<le> 16 \<and>
         (\<forall>e'. unix_nano_ok (expiry e') \<longrightarrow> MarshalBinary e' = MarshalBinary e \<longrightarrow> e' = e)"
  using expiry_codec.dec_enc [OF assms] expiry_codec.enc_eqD assms
    length_PutVarint [of "word_of_int (expiry e)"]
  by (auto simp: MarshalBinary_def)

lemma expiry_roundtrip_witness:
  "UnmarshalBinary (MarshalBinary \<lparr>expiry = 1700000000000000000\<rparr>) = Inr \<lparr>expiry = 1700000000000000000\<rparr>"
  using expiry_roundtrip [of "\<lparr>expiry = 1700000000000000000\<rparr>"] by (simp add: unix_nano_ok_def)

text \<open>
  Exactly which stored bytes \<open>UnmarshalBinary\<close> rejects: at most ten bytes, all with the
  continuation bit. A longer run of continuation bytes, which \<open>binary.Varint\<close> reports as an
  overflow by a negative count, is accepted and read as the epoch.
\<close>
lemma unmarshal_errors_exactly:
  "((\<exists>err. UnmarshalBinary data = Inl err) \<longleftrightarrow>
      length data \<le> 10 \<and> (\<forall>c \<in> set data. 0x80 \<le> char_byte c)) \<and>
   (10 < length data \<and> (\<forall>c \<in> set data. 0x80 \<le> char_byte c) \<longrightarrow>
      UnmarshalBinary data = Inr \<lparr>expiry = 0\<rparr>)"
proof -
  have "(\<exists>err. UnmarshalBinary data = Inl err) \<longleftrightarrow> snd (Varint (map char_byte data)) = 0"
    by (simp add: UnmarshalBinary_def Let_def split: prod.split)
  then show ?thesis
    using Varint_fail [of "map char_byte data"] Varint_overflow [of "map char_byte data"]
    by (auto simp: UnmarshalBinary_def)
qed

lemma unmarshal_errors_exactly_witness:
  "UnmarshalBinary (replicate 11 (CHR 0xff)) = Inr \<lparr>expiry = 0\<rparr>"
  using unmarshal_errors_exactly [of "replicate 11 (CHR 0xff)"] by (simp add: char_byte_def)

end
