(* ===== verification/Backend.thy ===== *)
theory Backend
  imports ExpiryRecord
begin

text \<open>
  The types that pass between the request handlers, the lookups and the storage backends, and
  the \<open>Backend\<close> interface of \<open>backend.go\<close> with its tracing wrapper
  (\<open>backend_trace.go\<close>).

  A backend acts on a world of type \<open>'w\<close> that it shares with the rest of the node (the
  backends of one node use one datastore and the host's peerstore), so the interface is a record
  of functions over \<open>'w\<close>. The \<open>any\<close> values of the interface are the datatype
  \<open>any\<close>; a type assertion is a match on its constructor, and a \<open>*providerSet\<close> and a
  \<open>providerSet\<close> are different constructors. Multiaddresses (\<open>'m\<close>) are opaque.

  What every backend promises its callers is the locale \<open>backend_contract\<close>.
\<close>

section \<open>Values\<close>

text \<open>\<open>peer.AddrInfo\<close>, and the fields of \<open>recpb.Record\<close> that the code uses.\<close>

record 'm addr_info =
  ai_ID :: peer_id
  ai_Addrs :: "'m list"

record rec =
  rec_Key :: bytes
  rec_Value :: bytes
  rec_TimeReceived :: string

text \<open>
  \<open>providerSet\<close>: the slice of providers is part of the value, the map \<open>set\<close> is a
  reference into a heap of maps, because copies of the struct share it.
\<close>

record 'm providerSet =
  providers :: "'m addr_info list"
  ps_set :: nat

type_synonym heap = "(peer_id, int) gomap list"

datatype 'm any =
    AnyNil
  | AnyRecord rec                  \<comment> \<open>\<open>*recpb.Record\<close>\<close>
  | AnyAddrInfo "'m addr_info"     \<comment> \<open>\<open>peer.AddrInfo\<close>\<close>
  | AnyProviderSetPtr "'m providerSet" \<comment> \<open>\<open>*providerSet\<close>\<close>
  | AnyProviderSet "'m providerSet"    \<comment> \<open>\<open>providerSet\<close>\<close>
  | AnyBytes bytes                 \<comment> \<open>\<open>[]byte\<close>\<close>
  | AnyOther

fun is_addr_info :: "'m any \<Rightarrow> bool" where
  "is_addr_info (AnyAddrInfo a) = True"
| "is_addr_info v = False"

fun is_record :: "'m any \<Rightarrow> bool" where
  "is_record (AnyRecord r) = True"
| "is_record v = False"

fun is_bytes :: "'m any \<Rightarrow> bool" where
  "is_bytes (AnyBytes b) = True"
| "is_bytes v = False"

section \<open>The interface\<close>

definition namespaceIPNS :: bytes where "namespaceIPNS = ''ipns''"
definition namespacePublicKey :: bytes where "namespacePublicKey = ''pk''"
definition namespaceProviders :: bytes where "namespaceProviders = ''providers''"

lemmas namespace_defs = namespaceIPNS_def namespacePublicKey_def namespaceProviders_def

text \<open>
  \<open>Validate\<close> returns an index and an error; the index is \<open>-1\<close> exactly with an error
  in every implementation, so the pair is \<open>goerr + int\<close> and \<open>idx_of\<close> reads the index.
\<close>

record ('w, 'm) Backend =
  Store :: "'w \<Rightarrow> bytes \<Rightarrow> 'm any \<Rightarrow> (goerr + 'm any) \<times> 'w"
  Fetch :: "'w \<Rightarrow> bytes \<Rightarrow> (goerr + 'm any) \<times> 'w"
  Validate :: "bytes \<Rightarrow> 'm any list \<Rightarrow> goerr + int"

fun idx_of :: "goerr + int \<Rightarrow> int" where
  "idx_of (Inl e) = -1"
| "idx_of (Inr i) = i"

text \<open>
  The promises that the documentation of \<open>Backend\<close> makes and its callers use: a value of a
  type the backend does not store is an error and changes nothing that can be seen (\<open>view\<close>
  is the part of the world that matters to the backend); a single value is judged with index 0; an
  index that \<open>Validate\<close> returns is within the list and names an acceptable value.
\<close>

locale backend_contract =
  fixes store :: "'w \<Rightarrow> bytes \<Rightarrow> 'm any \<Rightarrow> (goerr + 'm any) \<times> 'w"
    and validate :: "bytes \<Rightarrow> 'm any list \<Rightarrow> goerr + int"
    and storable :: "'m any \<Rightarrow> bool"
    and acceptable :: "bytes \<Rightarrow> 'm any \<Rightarrow> bool"
    and view :: "'w \<Rightarrow> 'v"
  assumes store_wrong_type:
      "\<not> storable v \<Longrightarrow> \<exists>e w'. store w k v = (Inl e, w') \<and> view w' = view w"
    and validate_single: "validate k [v] = Inr i \<Longrightarrow> i = 0 \<and> acceptable k v"
    and validate_single_ok: "acceptable k v \<Longrightarrow> validate k [v] = Inr 0"
    and validate_many:
      "length vs \<noteq> 1 \<Longrightarrow> validate k vs = Inr i \<Longrightarrow>
         0 \<le> i \<and> nat i < length vs \<and> acceptable k (vs ! nat i)"
    and validate_none: "\<forall>v \<in> set vs. \<not> acceptable k v \<Longrightarrow> \<exists>e. validate k vs = Inl e"
begin

lemma validate_index:
  assumes "validate k vs = Inr i"
  shows "0 \<le> i \<and> nat i < length vs \<and> acceptable k (vs ! nat i)"
proof (cases "length vs = 1")
  case True
  then obtain v where "vs = [v]" by (auto simp: length_Suc_conv)
  then show ?thesis using assms validate_single [of k v i] by auto
next
  case False
  then show ?thesis using assms by (rule validate_many)
qed

lemma idx_nonneg: "0 \<le> idx_of (validate k vs) \<Longrightarrow> nat (idx_of (validate k vs)) < length vs"
  using validate_index [of k vs] by (cases "validate k vs") auto

text \<open>The comparison of the best value with a new one, as the value search makes it.\<close>

lemma idx_two_cases: "idx_of (validate k [a, b]) \<in> {-1, 0, 1}"
  using validate_index [of k "[a, b]"] by (cases "validate k [a, b]") (auto simp: less_2_cases_iff)

lemma idx_one_acceptable: "idx_of (validate k [a, b]) = 1 \<Longrightarrow> acceptable k b"
  using validate_index [of k "[a, b]"] by (cases "validate k [a, b]") auto

lemma idx_zero_acceptable: "idx_of (validate k [a, b]) = 0 \<Longrightarrow> acceptable k a"
  using validate_index [of k "[a, b]"] by (cases "validate k [a, b]") auto

end

section \<open>Tracing\<close>

text \<open>
  A traced backend forwards each call and records what it saw on a span. The spans are a log in
  the world next to the world of the wrapped backend.
\<close>

datatype span_event =
    SpanStart string bytes bytes    \<comment> \<open>name, namespace and key\<close>
  | SpanError goerr                 \<comment> \<open>\<open>RecordError\<close> and \<open>SetStatus\<close>\<close>
  | SpanIdx int                     \<comment> \<open>attribute \<open>idx\<close>\<close>
  | SpanEnd

type_synonym 'w traced = "'w \<times> span_event list"

definition trace_err :: "goerr + 'a \<Rightarrow> span_event list" where
  "trace_err r = (case r of Inl e \<Rightarrow> [SpanError e] | Inr _ \<Rightarrow> [])"

definition tracedStore ::
  "bytes \<Rightarrow> ('w, 'm) Backend \<Rightarrow> 'w traced \<Rightarrow> bytes \<Rightarrow> 'm any \<Rightarrow> (goerr + 'm any) \<times> 'w traced" where
  "tracedStore ns b w key value =
     (let (result, w') = Store b (fst w) key value
      in (result, w', snd w @ [SpanStart ''Store'' ns key] @ trace_err result @ [SpanEnd]))"

definition tracedFetch ::
  "bytes \<Rightarrow> ('w, 'm) Backend \<Rightarrow> 'w traced \<Rightarrow> bytes \<Rightarrow> (goerr + 'm any) \<times> 'w traced" where
  "tracedFetch ns b w key =
     (let (result, w') = Fetch b (fst w) key
      in (result, w', snd w @ [SpanStart ''Fetch'' ns key] @ trace_err result @ [SpanEnd]))"

text \<open>\<open>Validate\<close> has no world to return, so its span is written apart.\<close>

definition tracedValidate ::
  "bytes \<Rightarrow> ('w, 'm) Backend \<Rightarrow> span_event list \<Rightarrow> bytes \<Rightarrow> 'm any list
     \<Rightarrow> (goerr + int) \<times> span_event list" where
  "tracedValidate ns b spans key vs =
     (let result = Validate b key vs
      in (result,
          spans @ [SpanStart ''Validate'' ns key] @
            (case result of Inl e \<Rightarrow> [SpanError e] | Inr idx \<Rightarrow> [SpanIdx idx]) @ [SpanEnd]))"

definition traceWrapBackend :: "bytes \<Rightarrow> ('w, 'm) Backend \<Rightarrow> ('w traced, 'm) Backend" where
  "traceWrapBackend ns b =
     \<lparr>Store = tracedStore ns b, Fetch = tracedFetch ns b,
      Validate = (\<lambda>key vs. fst (tracedValidate ns b [] key vs))\<rparr>"

lemma tracedValidate_result [simp]: "fst (tracedValidate ns b spans key vs) = Validate b key vs"
  by (simp add: tracedValidate_def Let_def)

lemma trace_err_simps [simp]:
  "trace_err (Inl e) = [SpanError e]"
  "trace_err (Inr a) = []"
  by (simp_all add: trace_err_def)

text \<open>The wrapper keeps the contract of what it wraps.\<close>

lemma traced_contract:
  assumes "backend_contract (Store b) (Validate b) st ac view"
  shows "backend_contract (Store (traceWrapBackend ns b)) (Validate (traceWrapBackend ns b))
           st ac (view \<circ> fst)"
proof -
  show ?thesis
  proof (unfold_locales, goal_cases)
    case (1 v w k)
    then show ?case
      using backend_contract.store_wrong_type [OF assms 1, of "fst w" k]
      by (auto simp: traceWrapBackend_def tracedStore_def)
  next
    case 2
    then show ?case
      using backend_contract.validate_single [OF assms] by (auto simp: traceWrapBackend_def)
  next
    case 3
    then show ?case
      using backend_contract.validate_single_ok [OF assms] by (auto simp: traceWrapBackend_def)
  next
    case 4
    then show ?case
      using backend_contract.validate_many [OF assms] by (auto simp: traceWrapBackend_def)
  next
    case 5
    then show ?case
      using backend_contract.validate_none [OF assms] by (auto simp: traceWrapBackend_def)
  qed
qed

section \<open>Sessions of calls\<close>

datatype 'm backend_call = CallStore bytes "'m any" | CallFetch bytes | CallValidate bytes "'m any list"

datatype 'm backend_answer = AnsValue "goerr + 'm any" | AnsIndex "goerr + int"

fun plain_call :: "('w, 'm) Backend \<Rightarrow> 'm backend_call \<Rightarrow> 'w \<Rightarrow> 'm backend_answer \<times> 'w" where
  "plain_call b (CallStore k v) w = apfst AnsValue (Store b w k v)"
| "plain_call b (CallFetch k) w = apfst AnsValue (Fetch b w k)"
| "plain_call b (CallValidate k vs) w = (AnsIndex (Validate b k vs), w)"

fun traced_call ::
  "bytes \<Rightarrow> ('w, 'm) Backend \<Rightarrow> 'm backend_call \<Rightarrow> 'w traced \<Rightarrow> 'm backend_answer \<times> 'w traced" where
  "traced_call ns b (CallStore k v) w = apfst AnsValue (tracedStore ns b w k v)"
| "traced_call ns b (CallFetch k) w = apfst AnsValue (tracedFetch ns b w k)"
| "traced_call ns b (CallValidate k vs) w =
     map_prod AnsIndex (Pair (fst w)) (tracedValidate ns b (snd w) k vs)"

fun session :: "('c \<Rightarrow> 's \<Rightarrow> 'a \<times> 's) \<Rightarrow> 'c list \<Rightarrow> 's \<Rightarrow> 'a list \<times> 's" where
  "session f [] s = ([], s)"
| "session f (c # cs) s = (case f c s of (a, s1) \<Rightarrow> apfst (Cons a) (session f cs s1))"

text \<open>The span of a call with its answer: what a reader of the trace sees.\<close>

fun span_start :: "bytes \<Rightarrow> 'm backend_call \<Rightarrow> span_event" where
  "span_start ns (CallStore k v) = SpanStart ''Store'' ns k"
| "span_start ns (CallFetch k) = SpanStart ''Fetch'' ns k"
| "span_start ns (CallValidate k vs) = SpanStart ''Validate'' ns k"

fun span_outcome :: "'m backend_answer \<Rightarrow> span_event list" where
  "span_outcome (AnsValue (Inl e)) = [SpanError e]"
| "span_outcome (AnsValue (Inr v)) = []"
| "span_outcome (AnsIndex (Inl e)) = [SpanError e]"
| "span_outcome (AnsIndex (Inr i)) = [SpanIdx i]"

definition span_of :: "bytes \<Rightarrow> 'm backend_call \<times> 'm backend_answer \<Rightarrow> span_event list" where
  "span_of ns ca = [span_start ns (fst ca)] @ span_outcome (snd ca) @ [SpanEnd]"

lemma trace_err_outcome: "trace_err r = span_outcome (AnsValue r)"
  by (cases r) simp_all

lemma traced_call_step:
  "plain_call b c w = (a, w') \<Longrightarrow> traced_call ns b c (w, l) = (a, (w', l @ span_of ns (c, a)))"
  by (cases c)
     (auto simp: tracedStore_def tracedFetch_def tracedValidate_def span_of_def trace_err_outcome Let_def
       split: prod.splits sum.splits)

section \<open>Properties\<close>

text \<open>
  C30: Over any session of calls a traced backend gives the answers and reaches the state of the
  backend it wraps, and the trace has, call by call, one span that is started, carries the
  outcome of the call (its error, or the index for \<open>Validate\<close>) and is ended.
\<close>
theorem tracing_transparent:
  "session (traced_call ns b) cs (w, l) =
     (case session (plain_call b) cs w of (answers, w') \<Rightarrow>
        (answers, (w', l @ concat (map (span_of ns) (zip cs answers)))))"
proof (induction cs arbitrary: w l)
  case Nil
  then show ?case by simp
next
  case (Cons c cs)
  obtain a w1 where a: "plain_call b c w = (a, w1)" by (cases "plain_call b c w")
  show ?case by (simp add: a traced_call_step [OF a] Cons.IH split: prod.split)
qed

end
