(* ===== verification/Keys.thy ===== *)
theory Keys
  imports Backend
begin

text \<open>
  The Kademlia types of \<open>kadt/kadt.go\<close>. A key is the SHA-256 hash of a preimage together
  with the preimage, because the preimage is what travels in messages. The hash
  (\<open>crypto/sha256\<close>) and the 256-bit keys of \<open>go-libdht\<close> are the record \<open>hash_lib\<close>;
  a peer identity is its bytes.
\<close>

section \<open>The libraries\<close>

record 'b hash_lib =
  sha256_Sum256 :: "bytes \<Rightarrow> bytes"
  bit256_NewKey :: "bytes \<Rightarrow> 'b"
  bit256_BitLen :: "'b \<Rightarrow> nat"
  bit256_Bit :: "'b \<Rightarrow> nat \<Rightarrow> bool"
  bit256_Xor :: "'b \<Rightarrow> 'b \<Rightarrow> 'b"
  bit256_CommonPrefixLength :: "'b \<Rightarrow> 'b \<Rightarrow> nat"
  bit256_Compare :: "'b \<Rightarrow> 'b \<Rightarrow> int"
  bit256_HexString :: "'b \<Rightarrow> string"

section \<open>Key\<close>

record 'b Key =
  key_key :: 'b
  key_preimage :: bytes

definition NewKey :: "('b, 'z) hash_lib_scheme \<Rightarrow> bytes \<Rightarrow> 'b Key" where
  "NewKey L preimage =
     \<lparr>key_key = bit256_NewKey L (sha256_Sum256 L preimage), key_preimage = preimage\<rparr>"

definition MsgKey :: "'b Key \<Rightarrow> bytes" where
  "MsgKey k = key_preimage k"

definition BitLen :: "('b, 'z) hash_lib_scheme \<Rightarrow> 'b Key \<Rightarrow> nat" where
  "BitLen L k = bit256_BitLen L (key_key k)"

definition Bit :: "('b, 'z) hash_lib_scheme \<Rightarrow> 'b Key \<Rightarrow> nat \<Rightarrow> bool" where
  "Bit L k i = bit256_Bit L (key_key k) i"

text \<open>The result of \<open>Xor\<close> has no preimage.\<close>

definition Xor :: "('b, 'z) hash_lib_scheme \<Rightarrow> 'b Key \<Rightarrow> 'b Key \<Rightarrow> 'b Key" where
  "Xor L k other = \<lparr>key_key = bit256_Xor L (key_key k) (key_key other), key_preimage = []\<rparr>"

definition CommonPrefixLength :: "('b, 'z) hash_lib_scheme \<Rightarrow> 'b Key \<Rightarrow> 'b Key \<Rightarrow> nat" where
  "CommonPrefixLength L k other = bit256_CommonPrefixLength L (key_key k) (key_key other)"

definition Compare :: "('b, 'z) hash_lib_scheme \<Rightarrow> 'b Key \<Rightarrow> 'b Key \<Rightarrow> int" where
  "Compare L k other = bit256_Compare L (key_key k) (key_key other)"

definition HexString :: "('b, 'z) hash_lib_scheme \<Rightarrow> 'b Key \<Rightarrow> string" where
  "HexString L k = bit256_HexString L (key_key k)"

section \<open>PeerID and AddrInfo\<close>

definition PeerID_Key :: "('b, 'z) hash_lib_scheme \<Rightarrow> peer_id \<Rightarrow> 'b Key" where
  "PeerID_Key L p = NewKey L p"

definition PeerID_Equal :: "peer_id \<Rightarrow> peer_id \<Rightarrow> bool" where
  "PeerID_Equal p o' = (p = o')"

definition AddrInfo_PeerID :: "'m addr_info \<Rightarrow> peer_id" where
  "AddrInfo_PeerID ai = ai_ID ai"

text \<open>\<open>make\<close> and \<open>copy\<close>: a fresh slice with the same elements.\<close>

definition AddrInfo_Addresses :: "'m addr_info \<Rightarrow> 'm list" where
  "AddrInfo_Addresses ai = take (length (ai_Addrs ai)) (ai_Addrs ai)"

lemma MsgKey_NewKey [simp]: "MsgKey (NewKey L p) = p"
  by (simp add: MsgKey_def NewKey_def)

lemma AddrInfo_Addresses_eq [simp]: "AddrInfo_Addresses ai = ai_Addrs ai"
  by (simp add: AddrInfo_Addresses_def)

lemma NewKey_eq: "NewKey L (MsgKey (NewKey L p)) = NewKey L p"
  by simp

lemma NewKey_inject: "NewKey L p = NewKey L q \<longleftrightarrow> p = q"
  by (auto simp: NewKey_def)

end
