(* ===== verification/DiversityFilter.thy ===== *)
theory DiversityFilter
  imports Keys
begin

text \<open>
  The peer diversity filter of the routing table, \<open>diversity_filter.go\<close>: the counters of
  IP groups, for the whole table and for each common prefix length, and the three
  operations that the \<open>peerdiversity.Filter\<close> of \<open>go-libp2p-kbucket\<close> calls on them; and the wrapper that
  hands that filter to the routing table. The third-party filter itself is the parameter \<open>peerdiversity_lib\<close>.
  What is assumed of it is how it calls the counters, the relation \<open>filter_history\<close> below: it asks \<open>Allow\<close> for
  all groups of a peer before it increments any of them, and it decrements what it incremented for a peer.
  The contract of the counters is the locale \<open>ip_group_counter\<close>: they are a multiset of pairs (common prefix
  length, group). IP groups are opaque (\<open>'g\<close>), as are multiaddresses (\<open>'m\<close>).
\<close>

section \<open>State and operations\<close>

text \<open>The fields of \<open>peerdiversity.PeerGroupInfo\<close> that the filter reads.\<close>

record 'g group_info =
  Cpl :: int
  IPGroupKey :: 'g

record ('g, 'm) rtPeerIPGroupFilter =
  maxPerCpl :: int
  maxForTable :: int
  multiaddrsFn :: "peer_id \<Rightarrow> 'm list"
  cplIpGroupCount :: "(int, ('g, int) gomap) gomap"
  tableIpGroupCount :: "('g, int) gomap"

definition newRtPeerIPGroupFilter ::
  "int \<Rightarrow> int \<Rightarrow> (peer_id \<Rightarrow> 'm list) \<Rightarrow> ('g, 'm) rtPeerIPGroupFilter" where
  "newRtPeerIPGroupFilter mpc mft fn =
     \<lparr>maxPerCpl = mpc, maxForTable = mft, multiaddrsFn = fn,
      cplIpGroupCount = [], tableIpGroupCount = []\<rparr>"

text \<open>
  \<open>NewRTPeerDiversityFilter\<close>: the addresses of a peer are the remote addresses of the
  host's connections to it. The connections and their remote addresses are libp2p's.
\<close>

definition connMultiaddrs :: "(peer_id \<Rightarrow> 'c list) \<Rightarrow> ('c \<Rightarrow> 'm) \<Rightarrow> peer_id \<Rightarrow> 'm list" where
  "connMultiaddrs connsToPeer remoteMultiaddr p = map remoteMultiaddr (connsToPeer p)"

record ('f, 'F) peerdiversity_lib =
  pd_NewFilter :: "'f \<Rightarrow> string \<Rightarrow> (peer_id \<Rightarrow> nat) \<Rightarrow> goerr + 'F"
  pd_TryAdd :: "'F \<Rightarrow> peer_id \<Rightarrow> bool \<times> 'F"
  pd_Remove :: "'F \<Rightarrow> peer_id \<Rightarrow> 'F"

definition NewRTPeerDiversityFilter ::
  "(('g, 'm) rtPeerIPGroupFilter, 'F) peerdiversity_lib \<Rightarrow> ('b, 'z) hash_lib_scheme \<Rightarrow> peer_id
     \<Rightarrow> (peer_id \<Rightarrow> 'c list) \<Rightarrow> ('c \<Rightarrow> 'm) \<Rightarrow> int \<Rightarrow> int \<Rightarrow> goerr + 'F" where
  "NewRTPeerDiversityFilter L H host_ID connsToPeer remoteMultiaddr mpc mft =
     (case pd_NewFilter L (newRtPeerIPGroupFilter mpc mft (connMultiaddrs connsToPeer remoteMultiaddr))
             ''triert/diversity''
             (\<lambda>p. CommonPrefixLength H (PeerID_Key H host_ID) (PeerID_Key H p)) of
        Inl err \<Rightarrow> Inl err
      | Inr fl \<Rightarrow> Inr fl)"

text \<open>\<open>TrieRTPeerDiversityFilter.TryAdd\<close> and \<open>Remove\<close>, which the routing table calls.\<close>

definition filter_TryAdd :: "('f, 'F) peerdiversity_lib \<Rightarrow> 'F \<Rightarrow> peer_id \<Rightarrow> bool \<times> 'F" where
  "filter_TryAdd L f n = pd_TryAdd L f n"

definition filter_Remove :: "('f, 'F) peerdiversity_lib \<Rightarrow> 'F \<Rightarrow> peer_id \<Rightarrow> 'F" where
  "filter_Remove L f n = pd_Remove L f n"

definition PeerAddresses :: "('g, 'm) rtPeerIPGroupFilter \<Rightarrow> peer_id \<Rightarrow> 'm list" where
  "PeerAddresses r p = multiaddrsFn r p"

definition Allow :: "('g, 'm) rtPeerIPGroupFilter \<Rightarrow> 'g group_info \<Rightarrow> bool" where
  "Allow r g =
     (let key = IPGroupKey g; cpl = Cpl g
      in if go_get0 (tableIpGroupCount r) key \<ge> maxForTable r then False
         else case map_of (cplIpGroupCount r) cpl of
                None \<Rightarrow> True
              | Some c \<Rightarrow> go_get0 c key < maxPerCpl r)"

definition Increment ::
  "('g, 'm) rtPeerIPGroupFilter \<Rightarrow> 'g group_info \<Rightarrow> ('g, 'm) rtPeerIPGroupFilter" where
  "Increment r g =
     (let key = IPGroupKey g; cpl = Cpl g;
          table = AList.update key (go_get0 (tableIpGroupCount r) key + 1) (tableIpGroupCount r);
          cpls = (if map_of (cplIpGroupCount r) cpl = None
                  then AList.update cpl [] (cplIpGroupCount r) else cplIpGroupCount r);
          c = (case map_of cpls cpl of None \<Rightarrow> [] | Some c \<Rightarrow> c)
      in r\<lparr>tableIpGroupCount := table,
           cplIpGroupCount := AList.update cpl (AList.update key (go_get0 c key + 1) c) cpls\<rparr>)"

text \<open>
  Reading an absent inner map gives a nil map, and writing to it panics, so
  \<open>Decrement\<close> panics where no group is counted at the prefix length.
\<close>

definition Decrement ::
  "('g, 'm) rtPeerIPGroupFilter \<Rightarrow> 'g group_info
     \<Rightarrow> ('g, 'm) rtPeerIPGroupFilter may_panic" where
  "Decrement r g =
     (let key = IPGroupKey g; cpl = Cpl g;
          t1 = AList.update key (go_get0 (tableIpGroupCount r) key - 1) (tableIpGroupCount r);
          t2 = (if go_get0 t1 key = 0 then AList.delete key t1 else t1)
      in case map_of (cplIpGroupCount r) cpl of
           None \<Rightarrow> Inl ''assignment to entry in nil map''
         | Some c \<Rightarrow>
             (let c1 = AList.update key (go_get0 c key - 1) c;
                  c2 = (if go_get0 c1 key = 0 then AList.delete key c1 else c1);
                  cpls1 = AList.update cpl c2 (cplIpGroupCount r);
                  cpls2 = (if length c2 = 0 then AList.delete cpl cpls1 else cpls1)
              in Inr (r\<lparr>tableIpGroupCount := t2, cplIpGroupCount := cpls2\<rparr>)))"

text \<open>
  The loops of the third-party filter over the groups of a peer, one per address of it: \<open>Increment\<close> for each
  when the peer is added, \<open>Decrement\<close> for each when it is removed.
\<close>

fun increment_all :: "('f \<Rightarrow> 'g group_info \<Rightarrow> 'f) \<Rightarrow> 'f \<Rightarrow> 'g group_info list \<Rightarrow> 'f" where
  "increment_all inc r [] = r"
| "increment_all inc r (g # gs) = increment_all inc (inc r g) gs"

fun decrement_all ::
  "('f \<Rightarrow> 'g group_info \<Rightarrow> 'f may_panic) \<Rightarrow> 'f \<Rightarrow> 'g group_info list \<Rightarrow> 'f may_panic" where
  "decrement_all dec r [] = Inr r"
| "decrement_all dec r (g # gs) = (case dec r g of Inl p \<Rightarrow> Inl p | Inr r' \<Rightarrow> decrement_all dec r' gs)"

text \<open>A filter and the accepted peers, each by its groups, after a history of additions and removals.\<close>

inductive filter_history ::
  "('g, 'm) rtPeerIPGroupFilter \<Rightarrow> ('g, 'm) rtPeerIPGroupFilter \<Rightarrow> 'g group_info list multiset \<Rightarrow> bool"
  for r0 :: "('g, 'm) rtPeerIPGroupFilter" where
  created: "filter_history r0 r0 {#}"
| added: "filter_history r0 r P \<Longrightarrow> \<forall>g \<in> set gs. Allow r g \<Longrightarrow>
      filter_history r0 (increment_all Increment r gs) (add_mset gs P)"
| removed: "filter_history r0 r (add_mset gs P) \<Longrightarrow> decrement_all Decrement r gs = Inr r' \<Longrightarrow>
      filter_history r0 r' P"

section \<open>Specification: a multiset of counted groups\<close>

type_synonym 'g peers = "(int \<times> 'g) multiset"

definition peer_of :: "'g group_info \<Rightarrow> int \<times> 'g" where
  "peer_of g = (Cpl g, IPGroupKey g)"

text \<open>How often a group is counted, and where one may be added.\<close>

definition in_table :: "'g peers \<Rightarrow> 'g \<Rightarrow> nat" where
  "in_table M k = count (image_mset snd M) k"

definition may_add :: "int \<Rightarrow> int \<Rightarrow> 'g peers \<Rightarrow> 'g group_info \<Rightarrow> bool" where
  "may_add mpc mft M g \<longleftrightarrow>
     int (in_table M (IPGroupKey g)) < mft \<and>
     ((\<forall>p \<in># M. fst p \<noteq> Cpl g) \<or> int (count M (peer_of g)) < mpc)"

text \<open>The groups of the accepted peers, and how many of the peers are in a group, and in one at a prefix length.\<close>

definition peer_groups :: "'g group_info list multiset \<Rightarrow> 'g peers" where
  "peer_groups P = (\<Sum>gs \<in># P. mset (map peer_of gs))"

definition peers_in_group :: "'g group_info list multiset \<Rightarrow> 'g \<Rightarrow> nat" where
  "peers_in_group P k = size {#gs \<in># P. \<exists>g \<in> set gs. IPGroupKey g = k#}"

definition peers_at_cpl :: "'g group_info list multiset \<Rightarrow> int \<Rightarrow> 'g \<Rightarrow> nat" where
  "peers_at_cpl P c k = size {#gs \<in># P. \<exists>g \<in> set gs. peer_of g = (c, k)#}"

text \<open>Counter maps hold exactly the nonzero counts.\<close>

definition counts :: "('k, int) gomap \<Rightarrow> ('k \<Rightarrow> nat) \<Rightarrow> bool" where
  "counts m f \<longleftrightarrow> (\<forall>k. map_of m k = (if f k = 0 then None else Some (int (f k))))"

definition inner_abs :: "('k, int) gomap option \<Rightarrow> ('k \<Rightarrow> nat) \<Rightarrow> bool" where
  "inner_abs mo f \<longleftrightarrow>
     (case mo of None \<Rightarrow> (\<forall>k. f k = 0) | Some m \<Rightarrow> m \<noteq> [] \<and> counts m f)"

definition at_cpl :: "'g peers \<Rightarrow> int \<Rightarrow> 'g \<Rightarrow> nat" where
  "at_cpl M c k = count M (c, k)"

definition filter_abs :: "('g, 'm) rtPeerIPGroupFilter \<Rightarrow> 'g peers \<Rightarrow> bool" where
  "filter_abs r M \<longleftrightarrow>
     counts (tableIpGroupCount r) (in_table M) \<and>
     (\<forall>c. inner_abs (map_of (cplIpGroupCount r) c) (at_cpl M c))"

section \<open>Counter maps\<close>

lemma counts_get0: "counts m f \<Longrightarrow> go_get0 m k = int (f k)"
  by (simp add: counts_def go_get0_def)

lemma counts_Nil_iff: "counts m f \<Longrightarrow> m = [] \<longleftrightarrow> (\<forall>k. f k = 0)"
  by (auto simp: counts_def simp flip: map_of_eq_Nil split: if_splits)

lemma counts_incr:
  assumes "counts m f"
  shows "counts (AList.update k (go_get0 m k + 1) m) (f(k := Suc (f k)))"
  using assms by (simp add: counts_get0 [OF assms]) (simp add: counts_def)

lemma counts_decr:
  assumes "counts m f" and "0 < f k"
  defines "m1 \<equiv> AList.update k (go_get0 m k - 1) m"
  shows "counts (if go_get0 m1 k = 0 then AList.delete k m1 else m1) (f(k := f k - 1))"
proof -
  have "go_get0 m k = int (f k)" using assms(1) by (rule counts_get0)
  with assms(1,2) show ?thesis by (auto simp: m1_def counts_def)
qed

lemma inner_incr:
  assumes "inner_abs mo f"
  shows "inner_abs (Some (AList.update k (go_get0 (case mo of None \<Rightarrow> [] | Some m \<Rightarrow> m) k + 1)
           (case mo of None \<Rightarrow> [] | Some m \<Rightarrow> m))) (f(k := Suc (f k)))"
proof -
  have "counts (case mo of None \<Rightarrow> [] | Some m \<Rightarrow> m) f"
    using assms by (auto simp: inner_abs_def counts_def split: option.splits)
  then show ?thesis by (simp add: inner_abs_def counts_incr)
qed

lemma inner_decr:
  assumes "counts m f" and "0 < f k"
  defines "m1 \<equiv> AList.update k (go_get0 m k - 1) m"
  defines "m2 \<equiv> if go_get0 m1 k = 0 then AList.delete k m1 else m1"
  shows "inner_abs (if m2 = [] then None else Some m2) (f(k := f k - 1))"
proof -
  have "counts m2 (f(k := f k - 1))"
    using counts_decr [of m f k, OF assms(1,2)] unfolding m1_def m2_def .
  then show ?thesis
    using counts_Nil_iff [of m2] by (auto simp: inner_abs_def)
qed

lemma in_table_add: "in_table (add_mset (c, k) M) = (in_table M)(k := Suc (in_table M k))"
  by (auto simp: in_table_def)

lemma in_table_remove:
  assumes "(c, k) \<in># M"
  shows "in_table (M - {#(c, k)#}) = (in_table M)(k := in_table M k - 1)"
    and "0 < in_table M k"
proof -
  obtain N where N: "M = add_mset (c, k) N"
    using assms by (auto dest: multi_member_split)
  show "in_table (M - {#(c, k)#}) = (in_table M)(k := in_table M k - 1)" and "0 < in_table M k"
    by (simp_all add: N in_table_add)
qed

lemma at_cpl_add:
  "at_cpl (add_mset (c, k) M) d =
     (if d = c then (at_cpl M c)(k := Suc (at_cpl M c k)) else at_cpl M d)"
  by (auto simp: at_cpl_def)

lemma at_cpl_remove:
  "at_cpl (M - {#(c, k)#}) d =
     (if d = c then (at_cpl M c)(k := at_cpl M c k - 1) else at_cpl M d)"
  by (auto simp: at_cpl_def)

lemma at_cpl_empty: "(\<forall>k. at_cpl M c k = 0) \<longleftrightarrow> (\<forall>p \<in># M. fst p \<noteq> c)"
proof
  assume "\<forall>k. at_cpl M c k = 0"
  then show "\<forall>p \<in># M. fst p \<noteq> c"
    by (metis at_cpl_def count_eq_zero_iff prod.collapse)
next
  assume "\<forall>p \<in># M. fst p \<noteq> c"
  then show "\<forall>k. at_cpl M c k = 0"
    by (force simp: at_cpl_def count_eq_zero_iff)
qed

section \<open>Each operation implements the specification\<close>

lemma filter_abs_new: "filter_abs (newRtPeerIPGroupFilter mpc mft fn) {#}"
  by (simp add: filter_abs_def newRtPeerIPGroupFilter_def in_table_def counts_def inner_abs_def
      at_cpl_def)

lemma filter_abs_inner:
  "filter_abs r M \<Longrightarrow> inner_abs (map_of (cplIpGroupCount r) c) (at_cpl M c)"
  by (simp add: filter_abs_def)

lemma filter_abs_table:
  "filter_abs r M \<Longrightarrow> counts (tableIpGroupCount r) (in_table M)"
  by (simp add: filter_abs_def)

lemma filter_abs_None:
  assumes "filter_abs r M"
  shows "map_of (cplIpGroupCount r) c = None \<longleftrightarrow> (\<forall>p \<in># M. fst p \<noteq> c)"
proof (cases "map_of (cplIpGroupCount r) c")
  case None
  then show ?thesis
    using filter_abs_inner [OF assms, of c] by (simp add: inner_abs_def at_cpl_empty)
next
  case (Some m)
  then have "m \<noteq> []" "counts m (at_cpl M c)"
    using filter_abs_inner [OF assms, of c] by (simp_all add: inner_abs_def)
  then show ?thesis
    using Some counts_Nil_iff [of m "at_cpl M c"] by (auto simp flip: at_cpl_empty)
qed

lemma Allow_spec:
  assumes "filter_abs r M"
  shows "Allow r g = may_add (maxPerCpl r) (maxForTable r) M g"
proof -
  have table: "go_get0 (tableIpGroupCount r) (IPGroupKey g) = int (in_table M (IPGroupKey g))"
    using filter_abs_table [OF assms] by (rule counts_get0)
  note none = filter_abs_None [OF assms, of "Cpl g"]
  show ?thesis
  proof (cases "map_of (cplIpGroupCount r) (Cpl g)")
    case None
    then have "\<forall>p \<in># M. fst p \<noteq> Cpl g" using none by simp
    then show ?thesis using None by (simp add: Allow_def may_add_def table Let_def not_le)
  next
    case (Some c)
    then have "counts c (at_cpl M (Cpl g))"
      using filter_abs_inner [OF assms, of "Cpl g"] by (simp add: inner_abs_def)
    then have "go_get0 c (IPGroupKey g) = int (count M (peer_of g))"
      by (simp add: counts_get0 at_cpl_def peer_of_def)
    moreover have "\<exists>p \<in># M. fst p = Cpl g" using none Some by simp
    ultimately show ?thesis
      using Some by (auto simp: Allow_def may_add_def table Let_def not_le)
  qed
qed

lemma Increment_limits [simp]:
  "maxPerCpl (Increment r g) = maxPerCpl r"
  "maxForTable (Increment r g) = maxForTable r"
  by (simp_all add: Increment_def Let_def)

text \<open>The inner map \<open>Increment\<close> writes: the present one, or a new empty one.\<close>

lemma Increment_inner:
  "map_of (cplIpGroupCount (Increment r g)) d =
     (if d = Cpl g
      then (let m = (case map_of (cplIpGroupCount r) d of None \<Rightarrow> [] | Some m \<Rightarrow> m)
            in Some (AList.update (IPGroupKey g) (go_get0 m (IPGroupKey g) + 1) m))
      else map_of (cplIpGroupCount r) d)"
  by (cases "map_of (cplIpGroupCount r) (Cpl g)") (simp_all add: Increment_def Let_def)

lemma Increment_spec:
  assumes "filter_abs r M"
  shows "filter_abs (Increment r g) (add_mset (peer_of g) M)"
proof -
  have "counts (tableIpGroupCount (Increment r g)) (in_table (add_mset (peer_of g) M))"
    using counts_incr [OF filter_abs_table [OF assms], of "IPGroupKey g"]
    by (simp add: Increment_def Let_def in_table_add peer_of_def)
  moreover have "inner_abs (map_of (cplIpGroupCount (Increment r g)) d)
      (at_cpl (add_mset (peer_of g) M) d)" for d
    using inner_incr [OF filter_abs_inner [OF assms, of d], of "IPGroupKey g"]
      filter_abs_inner [OF assms, of d]
    by (cases "d = Cpl g") (simp_all add: Increment_inner peer_of_def at_cpl_add Let_def)
  ultimately show ?thesis by (simp add: filter_abs_def)
qed

lemma Decrement_absent:
  assumes "map_of (cplIpGroupCount r) (Cpl g) = None"
  shows "Decrement r g = Inl ''assignment to entry in nil map''"
  using assms by (simp add: Decrement_def Let_def)

lemma Decrement_spec:
  assumes abs: "filter_abs r M" and g: "peer_of g \<in># M"
  shows "\<exists>r'. Decrement r g = Inr r' \<and> filter_abs r' (M - {#peer_of g#}) \<and>
              maxPerCpl r' = maxPerCpl r \<and> maxForTable r' = maxForTable r"
proof -
  define k where "k = IPGroupKey g"
  have p: "peer_of g = (Cpl g, k)" by (simp add: peer_of_def k_def)
  have pos: "0 < at_cpl M (Cpl g) k" using g by (simp add: p at_cpl_def)
  from g have "\<exists>p \<in># M. fst p = Cpl g" by (intro bexI [of _ "peer_of g"]) (simp_all add: p)
  then obtain m where m: "map_of (cplIpGroupCount r) (Cpl g) = Some m"
    using filter_abs_None [OF abs, of "Cpl g"] by auto
  then have cm: "counts m (at_cpl M (Cpl g))"
    using filter_abs_inner [OF abs, of "Cpl g"] by (simp add: inner_abs_def)
  define m1 where "m1 = AList.update k (go_get0 m k - 1) m"
  define m2 where "m2 = (if go_get0 m1 k = 0 then AList.delete k m1 else m1)"
  define t1 where "t1 = AList.update k (go_get0 (tableIpGroupCount r) k - 1) (tableIpGroupCount r)"
  define t2 where "t2 = (if go_get0 t1 k = 0 then AList.delete k t1 else t1)"
  define cs where "cs = AList.update (Cpl g) m2 (cplIpGroupCount r)"
  define r' where "r' = r\<lparr>tableIpGroupCount := t2,
    cplIpGroupCount := (if m2 = [] then AList.delete (Cpl g) cs else cs)\<rparr>"
  have "Decrement r g = Inr r'"
    by (simp add: Decrement_def Let_def m r'_def cs_def m2_def m1_def t2_def t1_def k_def)
  moreover have "counts t2 (in_table (M - {#peer_of g#}))"
    unfolding p in_table_remove(1) [OF g [unfolded p]] t2_def t1_def
    by (rule counts_decr [OF filter_abs_table [OF abs] in_table_remove(2) [OF g [unfolded p]]])
  moreover have "inner_abs (if m2 = [] then None else Some m2)
      ((at_cpl M (Cpl g))(k := at_cpl M (Cpl g) k - 1))"
    unfolding m2_def m1_def by (rule inner_decr [OF cm pos])
  then have "inner_abs (map_of (cplIpGroupCount r') d) (at_cpl (M - {#peer_of g#}) d)" for d
    using filter_abs_inner [OF abs, of d] unfolding p at_cpl_remove
    by (cases "m2 = []") (simp_all add: r'_def cs_def)
  ultimately show ?thesis by (auto simp: filter_abs_def r'_def)
qed

section \<open>The interface and what its client may rely on\<close>

locale ip_group_counter =
  fixes allow :: "'f \<Rightarrow> 'g group_info \<Rightarrow> bool"
    and inc :: "'f \<Rightarrow> 'g group_info \<Rightarrow> 'f"
    and dec :: "'f \<Rightarrow> 'g group_info \<Rightarrow> 'f may_panic"
    and abs :: "'f \<Rightarrow> 'g peers \<Rightarrow> bool"
    and cap_cpl :: "'f \<Rightarrow> int"
    and cap_table :: "'f \<Rightarrow> int"
  assumes allow_law: "abs r M \<Longrightarrow> allow r g = may_add (cap_cpl r) (cap_table r) M g"
    and inc_law: "abs r M \<Longrightarrow> abs (inc r g) (add_mset (peer_of g) M)"
    and inc_caps: "cap_cpl (inc r g) = cap_cpl r" "cap_table (inc r g) = cap_table r"
    and dec_law: "abs r M \<Longrightarrow> peer_of g \<in># M \<Longrightarrow>
      \<exists>r'. dec r g = Inr r' \<and> abs r' (M - {#peer_of g#}) \<and>
           cap_cpl r' = cap_cpl r \<and> cap_table r' = cap_table r"
begin

lemma increment_all_law:
  "abs r M \<Longrightarrow> abs (increment_all inc r gs) (M + mset (map peer_of gs)) \<and>
     cap_cpl (increment_all inc r gs) = cap_cpl r \<and> cap_table (increment_all inc r gs) = cap_table r"
proof (induction gs arbitrary: r M)
  case (Cons g gs)
  from Cons.IH [OF inc_law [OF Cons.prems, of g]] show ?case by (simp add: inc_caps)
qed simp

lemma decrement_all_law:
  assumes "abs r (M + mset (map peer_of gs))"
  shows "\<exists>r'. decrement_all dec r gs = Inr r' \<and> abs r' M \<and> cap_cpl r' = cap_cpl r \<and> cap_table r' = cap_table r"
  using assms
proof (induction gs arbitrary: r)
  case (Cons g gs)
  obtain r1 where "dec r g = Inr r1" "abs r1 (M + mset (map peer_of gs))" "cap_cpl r1 = cap_cpl r" "cap_table r1 = cap_table r"
    using dec_law [OF Cons.prems, of g] by auto
  then show ?case using Cons.IH [of r1] by auto
qed simp

end

interpretation group_filter:
  ip_group_counter Allow Increment Decrement filter_abs maxPerCpl maxForTable
  by unfold_locales (simp_all add: Allow_spec Increment_spec Decrement_spec)

text \<open>A group is counted at least once for each peer in it.\<close>

lemma peer_groups_simps [simp]:
  "peer_groups {#} = {#}" "peer_groups (add_mset gs P) = peer_groups P + mset (map peer_of gs)"
  by (simp_all add: peer_groups_def add.commute)

lemma peers_simps [simp]:
  "peers_in_group {#} k = 0" "peers_at_cpl {#} c k = 0"
  "peers_in_group (add_mset gs P) k = (if \<exists>g \<in> set gs. IPGroupKey g = k then 1 else 0) + peers_in_group P k"
  "peers_at_cpl (add_mset gs P) c k = (if \<exists>g \<in> set gs. peer_of g = (c, k) then 1 else 0) + peers_at_cpl P c k"
  by (simp_all add: peers_in_group_def peers_at_cpl_def)

lemma in_table_plus: "in_table (M + N) k = in_table M k + in_table N k"
  by (simp add: in_table_def)

lemma in_table_groups: "in_table (mset (map peer_of gs)) k = 0 \<longleftrightarrow> (\<forall>g \<in> set gs. IPGroupKey g \<noteq> k)"
  by (induction gs) (auto simp: in_table_def peer_of_def)

lemma peers_in_group_counted: "peers_in_group P k \<le> in_table (peer_groups P) k"
proof (induction P)
  case (add gs P)
  then show ?case using in_table_groups [of gs k] by (auto simp: in_table_plus)
qed simp

lemma peers_at_cpl_counted: "peers_at_cpl P c k \<le> count (peer_groups P) (c, k)"
proof (induction P)
  case (add gs P)
  have "count (mset (map peer_of gs)) (c, k) = 0 \<longleftrightarrow> (\<forall>g \<in> set gs. peer_of g \<noteq> (c, k))"
    by (force simp: count_eq_zero_iff)
  then show ?case using add by auto
qed simp

definition history_ok :: "int \<Rightarrow> int \<Rightarrow> ('g, 'm) rtPeerIPGroupFilter \<Rightarrow> 'g group_info list multiset \<Rightarrow> bool" where
  "history_ok mpc mft r P \<longleftrightarrow>
     filter_abs r (peer_groups P) \<and> maxPerCpl r = mpc \<and> maxForTable r = mft \<and>
     (\<forall>k. int (peers_in_group P k) \<le> mft) \<and> (\<forall>c k. int (peers_at_cpl P c k) \<le> mpc)"

lemma allowed_limits:
  assumes ok: "history_ok mpc mft r P" and "1 \<le> mpc" and allow: "\<forall>g \<in> set gs. Allow r g"
  shows "int (peers_in_group (add_mset gs P) k) \<le> mft" "int (peers_at_cpl (add_mset gs P) c k) \<le> mpc"
proof -
  have may: "may_add mpc mft (peer_groups P) g" if "g \<in> set gs" for g
    using Allow_spec [of r "peer_groups P" g] ok allow that by (simp add: history_ok_def)
  have table: "int (peers_in_group P k) < mft" if "g \<in> set gs" "IPGroupKey g = k" for g
    using may [OF that(1)] that(2) peers_in_group_counted [of P k] by (simp add: may_add_def)
  show "int (peers_in_group (add_mset gs P) k) \<le> mft"
  proof (cases "\<exists>g \<in> set gs. IPGroupKey g = k")
    case True
    then have "int (peers_in_group P k) < mft" using table by blast
    then show ?thesis using True by simp
  qed (use ok in \<open>simp add: history_ok_def\<close>)
  have cpl: "int (peers_at_cpl P c k) < mpc" if "g \<in> set gs" "peer_of g = (c, k)" for g
  proof -
    have "int (count (peer_groups P) (c, k)) < mpc \<or> count (peer_groups P) (c, k) = 0"
      using may [OF that(1)] that(2) by (force simp: may_add_def peer_of_def count_eq_zero_iff)
    then show ?thesis using peers_at_cpl_counted [of P c k] assms(2) by linarith
  qed
  show "int (peers_at_cpl (add_mset gs P) c k) \<le> mpc"
  proof (cases "\<exists>g \<in> set gs. peer_of g = (c, k)")
    case True
    then have "int (peers_at_cpl P c k) < mpc" using cpl by blast
    then show ?thesis using True by simp
  qed (use ok in \<open>simp add: history_ok_def\<close>)
qed

lemma filter_history_ok:
  assumes "1 \<le> mpc" "0 \<le> mft" "filter_history (newRtPeerIPGroupFilter mpc mft fn) r P"
  shows "history_ok mpc mft r P"
  using assms(3)
proof induction
  case created
  show ?case using filter_abs_new [of mpc mft fn] assms(1,2)
    by (simp add: history_ok_def newRtPeerIPGroupFilter_def)
next
  case (added r P gs)
  note limits = allowed_limits [OF added.IH assms(1) added.hyps(2)]
  show ?case
    using group_filter.increment_all_law [of r "peer_groups P" gs] added.IH limits by (simp add: history_ok_def)
next
  case (removed r gs P r')
  have "filter_abs r (peer_groups P + mset (map peer_of gs))" using removed.IH by (simp add: history_ok_def)
  from group_filter.decrement_all_law [OF this] removed.hyps(2)
  have "filter_abs r' (peer_groups P)" "maxPerCpl r' = maxPerCpl r" "maxForTable r' = maxForTable r" by auto
  moreover have "peers_in_group P k \<le> peers_in_group (add_mset gs P) k" "peers_at_cpl P c k \<le> peers_at_cpl (add_mset gs P) c k" for c k
    by simp_all
  ultimately show ?case
    using removed.IH unfolding history_ok_def by (metis of_nat_mono order_trans)
qed

lemma filter_abs_empty:
  assumes "filter_abs r {#}"
  shows "cplIpGroupCount r = []" and "tableIpGroupCount r = []"
proof -
  show "tableIpGroupCount r = []"
    using counts_Nil_iff [OF filter_abs_table [OF assms]] by (simp add: in_table_def)
  show "cplIpGroupCount r = []"
    using filter_abs_None [OF assms] by (simp flip: map_of_eq_Nil)
qed

section \<open>Properties\<close>



text \<open>
  Once every accepted peer has been removed again, both maps of the filter are empty: no
  zero counter and no empty inner map stays behind.
\<close>
lemma diversity_filter_drains:
  assumes "1 \<le> mpc" "0 \<le> mft" "filter_history (newRtPeerIPGroupFilter mpc mft fn) r {#}"
  shows "cplIpGroupCount r = [] \<and> tableIpGroupCount r = []"
  using filter_history_ok [OF assms] filter_abs_empty [of r] by (simp add: history_ok_def)

lemma diversity_filter_drains_witness:
  "\<exists>r. filter_history (newRtPeerIPGroupFilter 1 2 (\<lambda>_. [0::nat])) r ({#} :: string group_info list multiset) \<and>
       cplIpGroupCount r = [] \<and> tableIpGroupCount r = []"
  using diversity_filter_drains [of 1 2] filter_history.created by fastforce

text \<open>
  \<open>Decrement\<close> panics exactly where no accepted peer has the prefix length, and this is
  the only error of the filter: at an accepted peer it removes that peer from the counts.
\<close>
lemma decrement_panics_iff:
  assumes "filter_abs r M"
  shows "((\<exists>msg. Decrement r g = Inl msg) \<longleftrightarrow> (\<forall>p \<in># M. fst p \<noteq> Cpl g)) \<and>
         (peer_of g \<in># M \<longrightarrow>
            (\<exists>r'. Decrement r g = Inr r' \<and> filter_abs r' (M - {#peer_of g#})))"
proof
  show "(\<exists>msg. Decrement r g = Inl msg) \<longleftrightarrow> (\<forall>p \<in># M. fst p \<noteq> Cpl g)"
    unfolding filter_abs_None [OF assms, symmetric]
    by (simp add: Decrement_def Let_def split: option.splits)
  show "peer_of g \<in># M \<longrightarrow> (\<exists>r'. Decrement r g = Inr r' \<and> filter_abs r' (M - {#peer_of g#}))"
    using Decrement_spec [OF assms] by blast
qed

lemma decrement_panics_iff_witness:
  "\<exists>msg. Decrement (newRtPeerIPGroupFilter 1 2 (\<lambda>_. [0::nat])) \<lparr>Cpl = 3, IPGroupKey = ''1.2''\<rparr> = Inl msg"
  using decrement_panics_iff [OF filter_abs_new [of 1 2 "\<lambda>_. [0::nat]"],
      of "\<lparr>Cpl = 3, IPGroupKey = ''1.2''\<rparr>"] by simp

text \<open>
  \<open>Allow\<close> lets a peer in exactly if its group has room in the table and either its group
  has room at the prefix length or no accepted peer has that prefix length yet. So a limit of zero
  for a prefix length still lets one peer in there.
\<close>
lemma allow_exact:
  assumes "filter_abs r M"
  shows "Allow r g \<longleftrightarrow>
           int (in_table M (IPGroupKey g)) < maxForTable r \<and>
           ((\<forall>p \<in># M. fst p \<noteq> Cpl g) \<or> int (count M (Cpl g, IPGroupKey g)) < maxPerCpl r)"
  using Allow_spec [OF assms] by (simp add: may_add_def peer_of_def)

lemma allow_exact_witness:
  "Allow (newRtPeerIPGroupFilter 0 1 (\<lambda>_. [0::nat])) \<lparr>Cpl = 3, IPGroupKey = ''1.2''\<rparr>"
proof -
  have "filter_abs (newRtPeerIPGroupFilter 0 1 (\<lambda>_. [0::nat])) ({#} :: string peers)"
    by (rule filter_abs_new)
  from allow_exact [OF this, of "\<lparr>Cpl = 3, IPGroupKey = ''1.2''\<rparr>"] show ?thesis
    by (simp add: in_table_def newRtPeerIPGroupFilter_def)
qed

end
