(* ===== verification/Messages.thy ===== *)
theory Messages
  imports Keys Varint
begin

unbundle bit_operations_syntax

text \<open>
  The messages of the protocol and their methods, \<open>pb/msg.aux.go\<close>, on the fields that the
  generated types of \<open>pb/msg.pb.go\<close> have. Enumerations are \<open>int32\<close>, so a message can
  carry any 32-bit type; a peer in a message holds its multiaddresses as bytes. Methods whose
  receiver may be nil take an option.

  The multiaddress library is a pair of functions, \<open>Bytes\<close> and \<open>NewMultiaddrBytes\<close>;
  \<open>proto.Size\<close> of a record is a parameter.
\<close>

section \<open>The types\<close>

record msg_peer =
  mp_Id :: bytes
  mp_Addrs :: "bytes list"
  mp_Connection :: "32 word"

record Message =
  msg_Type :: "32 word"
  msg_ClusterLevelRaw :: "32 word"
  msg_Key :: bytes
  msg_Record :: "rec option"
  msg_CloserPeers :: "msg_peer list"
  msg_ProviderPeers :: "msg_peer list"

definition Message_PUT_VALUE :: "32 word" where "Message_PUT_VALUE = 0"
definition Message_GET_VALUE :: "32 word" where "Message_GET_VALUE = 1"
definition Message_ADD_PROVIDER :: "32 word" where "Message_ADD_PROVIDER = 2"
definition Message_GET_PROVIDERS :: "32 word" where "Message_GET_PROVIDERS = 3"
definition Message_FIND_NODE :: "32 word" where "Message_FIND_NODE = 4"
definition Message_PING :: "32 word" where "Message_PING = 5"

lemmas message_types = Message_PUT_VALUE_def Message_GET_VALUE_def Message_ADD_PROVIDER_def
  Message_GET_PROVIDERS_def Message_FIND_NODE_def Message_PING_def

definition Message_NOT_CONNECTED :: "32 word" where "Message_NOT_CONNECTED = 0"

text \<open>The zero value of the struct.\<close>

definition zero_Message :: Message where
  "zero_Message = \<lparr>msg_Type = 0, msg_ClusterLevelRaw = 0, msg_Key = [], msg_Record = None,
     msg_CloserPeers = [], msg_ProviderPeers = []\<rparr>"

record 'm ma_lib =
  ma_Bytes :: "'m \<Rightarrow> bytes"
  ma_NewMultiaddrBytes :: "bytes \<Rightarrow> goerr + 'm"

section \<open>Methods\<close>

definition Target :: "('b, 'z) hash_lib_scheme \<Rightarrow> Message \<Rightarrow> 'b Key" where
  "Target L m = NewKey L (msg_Key m)"

definition ExpectResponse :: "Message \<Rightarrow> bool may_panic" where
  "ExpectResponse m =
     (if msg_Type m = Message_PUT_VALUE then Inr True
      else if msg_Type m = Message_GET_VALUE then Inr True
      else if msg_Type m = Message_ADD_PROVIDER then Inr False
      else if msg_Type m = Message_GET_PROVIDERS then Inr True
      else if msg_Type m = Message_FIND_NODE then Inr True
      else if msg_Type m = Message_PING then Inr True
      else Inl ''unexpected message type'')"

definition FromAddrInfo :: "('m, 'z) ma_lib_scheme \<Rightarrow> 'm addr_info \<Rightarrow> msg_peer" where
  "FromAddrInfo L p =
     \<lparr>mp_Id = ai_ID p, mp_Addrs = map (ma_Bytes L) (ai_Addrs p), mp_Connection = 0\<rparr>"

fun contains_loop :: "msg_peer list \<Rightarrow> peer_id \<Rightarrow> bool" where
  "contains_loop [] pid = False"
| "contains_loop (cp # cps) pid = (if mp_Id cp = pid then True else contains_loop cps pid)"

definition ContainsCloserPeer :: "Message \<Rightarrow> peer_id \<Rightarrow> bool" where
  "ContainsCloserPeer m pid = contains_loop (msg_CloserPeers m) pid"

text \<open>Addresses that cannot be decoded are skipped.\<close>

fun addresses_loop :: "('m, 'z) ma_lib_scheme \<Rightarrow> bytes list \<Rightarrow> 'm list \<Rightarrow> 'm list" where
  "addresses_loop L [] maddrs = maddrs"
| "addresses_loop L (addr # addrs) maddrs =
     (case ma_NewMultiaddrBytes L addr of
        Inl err \<Rightarrow> addresses_loop L addrs maddrs
      | Inr maddr \<Rightarrow> addresses_loop L addrs (maddrs @ [maddr]))"

definition Addresses :: "('m, 'z) ma_lib_scheme \<Rightarrow> msg_peer \<Rightarrow> 'm list" where
  "Addresses L m = addresses_loop L (mp_Addrs m) []"

definition peer_addr_info :: "('m, 'z) ma_lib_scheme \<Rightarrow> msg_peer \<Rightarrow> 'm addr_info" where
  "peer_addr_info L p = \<lparr>ai_ID = mp_Id p, ai_Addrs = Addresses L p\<rparr>"

definition ProviderAddrInfos :: "('m, 'z) ma_lib_scheme \<Rightarrow> Message option \<Rightarrow> 'm addr_info list" where
  "ProviderAddrInfos L m =
     (case m of None \<Rightarrow> [] | Some m \<Rightarrow> map (peer_addr_info L) (msg_ProviderPeers m))"

definition CloserPeersAddrInfos :: "('m, 'z) ma_lib_scheme \<Rightarrow> Message option \<Rightarrow> 'm addr_info list" where
  "CloserPeersAddrInfos L m =
     (case m of None \<Rightarrow> [] | Some m \<Rightarrow> map (peer_addr_info L) (msg_CloserPeers m))"

definition CloserNodes :: "Message option \<Rightarrow> peer_id list" where
  "CloserNodes m = (case m of None \<Rightarrow> [] | Some m \<Rightarrow> map mp_Id (msg_CloserPeers m))"

section \<open>Sizes\<close>

text \<open>
  \<open>uint64(m.Type)\<close> of an \<open>int32\<close> extends the sign. \<open>sov_len\<close> is
  \<open>sovDht(uint64(l))\<close>.
\<close>

definition sov_len :: "nat \<Rightarrow> nat" where
  "sov_len l = sovDht (of_nat l)"

text \<open>What a field with a length adds: \<open>n += 1 + l + sovDht(uint64(l))\<close>.\<close>

definition field_size :: "nat \<Rightarrow> nat" where
  "field_size l = 1 + l + sov_len l"

definition Message_Peer_Size :: "msg_peer \<Rightarrow> nat" where
  "Message_Peer_Size m =
     (let n = field_size (length (mp_Id m));
          n = (if length (mp_Addrs m) > 0
               then foldl (\<lambda>n b. n + field_size (length b)) n (mp_Addrs m) else n);
          n = (if mp_Connection m \<noteq> 0 then n + (1 + sovDht (scast (mp_Connection m))) else n)
      in n)"

definition Message_Size :: "(rec \<Rightarrow> nat) \<Rightarrow> Message option \<Rightarrow> nat" where
  "Message_Size proto_Size m =
     (case m of
        None \<Rightarrow> 0
      | Some m \<Rightarrow>
          (let peers = foldl (\<lambda>n e. n + field_size (Message_Peer_Size e));
               n = (if msg_Type m \<noteq> 0 then 1 + sovDht (scast (msg_Type m)) else 0);
               n = (if length (msg_Key m) > 0
                    then n + field_size (length (msg_Key m)) else n);
               n = (case msg_Record m of
                      None \<Rightarrow> n
                    | Some r \<Rightarrow> n + field_size (proto_Size r));
               n = (if length (msg_CloserPeers m) > 0 then peers n (msg_CloserPeers m) else n);
               n = (if length (msg_ProviderPeers m) > 0 then peers n (msg_ProviderPeers m) else n);
               n = (if msg_ClusterLevelRaw m \<noteq> 0
                    then n + (1 + sovDht (scast (msg_ClusterLevelRaw m))) else n)
           in n))"

section \<open>The wire format\<close>

text \<open>
  The protobuf encoding that the sizes are the lengths of: a field is a tag, a varint of its
  number and its wire type, and then a varint or a length and that many bytes. A scalar or byte
  field at its default is left out (proto3); list elements and submessages are always written.
\<close>

definition wire_tag :: "nat \<Rightarrow> nat \<Rightarrow> 8 word list" where
  "wire_tag field wtype = PutUvarint (of_nat (field * 8 + wtype))"

definition wire_varint :: "nat \<Rightarrow> 32 word \<Rightarrow> 8 word list" where
  "wire_varint field v = (if v = 0 then [] else wire_tag field 0 @ PutUvarint (scast v))"

definition wire_bytes :: "nat \<Rightarrow> 8 word list \<Rightarrow> 8 word list" where
  "wire_bytes field b = wire_tag field 2 @ PutUvarint (of_nat (length b)) @ b"

definition peer_wire :: "msg_peer \<Rightarrow> 8 word list" where
  "peer_wire p =
     (if mp_Id p = [] then [] else wire_bytes 1 (map char_byte (mp_Id p))) @
     concat (map (\<lambda>a. wire_bytes 2 (map char_byte a)) (mp_Addrs p)) @
     wire_varint 3 (mp_Connection p)"

definition message_wire :: "(rec \<Rightarrow> 8 word list) \<Rightarrow> Message \<Rightarrow> 8 word list" where
  "message_wire rec_wire m =
     wire_varint 1 (msg_Type m) @
     (if msg_Key m = [] then [] else wire_bytes 2 (map char_byte (msg_Key m))) @
     (case msg_Record m of None \<Rightarrow> [] | Some r \<Rightarrow> wire_bytes 3 (rec_wire r)) @
     concat (map (\<lambda>p. wire_bytes 8 (peer_wire p)) (msg_CloserPeers m)) @
     concat (map (\<lambda>p. wire_bytes 9 (peer_wire p)) (msg_ProviderPeers m)) @
     wire_varint 10 (msg_ClusterLevelRaw m)"

lemma foldl_add: "foldl (\<lambda>n b. n + f b) n bs = n + sum_list (map f bs)" for n :: nat
  by (induction bs arbitrary: n) simp_all

lemma sum_list_size: "length (concat (map f xs)) = sum_list (map (\<lambda>x. length (f x)) xs)"
  by (induction xs) simp_all

lemma length_tag: "field < 16 \<Longrightarrow> wtype < 8 \<Longrightarrow> length (wire_tag field wtype) = 1"
proof -
  assume f: "field < 16" "wtype < 8"
  have "unat (of_nat n :: 64 word) < 128" if "n < 128" for n
    using that by (simp add: unsigned_of_nat take_bit_nat_eq_self)
  moreover have "field * 8 + wtype < 128" using f by simp
  ultimately have "unat (of_nat (field * 8 + wtype) :: 64 word) < 128" .
  then show ?thesis unfolding wire_tag_def length_PutUvarint by (rule sovDht_small)
qed

lemma length_wire_varint:
  "field < 16 \<Longrightarrow> length (wire_varint field v) = (if v = 0 then 0 else 1 + sovDht (scast v))"
  by (simp add: wire_varint_def length_tag length_PutUvarint)

lemma length_wire_bytes:
  "field < 16 \<Longrightarrow> length (wire_bytes field b) = field_size (length b)"
  by (simp add: field_size_def wire_bytes_def length_tag length_PutUvarint sov_len_def)

lemmas wire_lengths = length_wire_varint length_wire_bytes foldl_add sum_list_size

text \<open>A peer without an identity is counted with two bytes that are not written.\<close>

lemma peer_size_wire:
  "Message_Peer_Size p = length (peer_wire p) + (if mp_Id p = [] then 2 else 0)"
proof -
  have "sov_len 0 = 1" unfolding sov_len_def by (rule sovDht_small) simp
  then show ?thesis
    by (simp add: Message_Peer_Size_def peer_wire_def wire_lengths Let_def field_size_def [of 0])
qed

lemma peers_size_wire:
  "\<forall>p \<in> set ps. mp_Id p \<noteq> [] \<Longrightarrow>
     (\<Sum>p\<leftarrow>ps. field_size (Message_Peer_Size p)) = (\<Sum>p\<leftarrow>ps. field_size (length (peer_wire p)))"
  by (induction ps) (simp_all add: peer_size_wire)

section \<open>Lists of peers\<close>

lemma contains_loop_iff: "contains_loop cps pid \<longleftrightarrow> pid \<in> mp_Id ` set cps"
  by (induction cps) auto

lemma addresses_loop_eq:
  "addresses_loop L addrs maddrs =
     maddrs @ List.map_filter (\<lambda>a. case ma_NewMultiaddrBytes L a of Inl e \<Rightarrow> None | Inr m \<Rightarrow> Some m) addrs"
  by (induction addrs arbitrary: maddrs) (simp_all add: List.map_filter_simps split: sum.split)

text \<open>The documented behaviour of the library: a multiaddress is parsed from its own bytes.\<close>

definition ma_law :: "('m, 'z) ma_lib_scheme \<Rightarrow> bool" where
  "ma_law L \<longleftrightarrow> (\<forall>m. ma_NewMultiaddrBytes L (ma_Bytes L m) = Inr m)"

lemma map_filter_all: "\<forall>x \<in> set xs. f (g x) = Some x \<Longrightarrow> List.map_filter f (map g xs) = xs"
  by (induction xs) (simp_all add: List.map_filter_simps)

lemma Addresses_FromAddrInfo:
  assumes "ma_law L"
  shows "peer_addr_info L (FromAddrInfo L p) = p"
  using assms
  by (simp add: peer_addr_info_def Addresses_def FromAddrInfo_def addresses_loop_eq ma_law_def
      map_filter_all)

section \<open>Properties\<close>

text \<open>
  C32: The size that a message reports is the number of bytes of its protobuf encoding, for
  every message whose peers have identities, for any message type and cluster level (negative
  ones take ten bytes) and for lists and addresses of any length.
\<close>
theorem message_size_exact:
  assumes "\<forall>r. proto_Size r = length (rec_wire r)"
    and "\<forall>p \<in> set (msg_CloserPeers m) \<union> set (msg_ProviderPeers m). mp_Id p \<noteq> []"
  shows "Message_Size proto_Size (Some m) = length (message_wire rec_wire m)"
proof -
  have "\<forall>p \<in> set (msg_CloserPeers m). mp_Id p \<noteq> []" "\<forall>p \<in> set (msg_ProviderPeers m). mp_Id p \<noteq> []"
    using assms(2) by auto
  from this [THEN peers_size_wire] show ?thesis
    using assms(1)
    by (simp add: Message_Size_def message_wire_def wire_lengths Let_def split: option.split)
qed

lemma message_size_exact_witness:
  "Message_Size (\<lambda>r. 0) (Some (zero_Message\<lparr>msg_Type := 4, msg_Key := ''key'',
      msg_CloserPeers := [\<lparr>mp_Id = ''p'', mp_Addrs = [''a''], mp_Connection = 1\<rparr>]\<rparr>))
     = length (message_wire (\<lambda>r. []) (zero_Message\<lparr>msg_Type := 4, msg_Key := ''key'',
      msg_CloserPeers := [\<lparr>mp_Id = ''p'', mp_Addrs = [''a''], mp_Connection = 1\<rparr>]\<rparr>))"
  by (rule message_size_exact) (simp_all add: zero_Message_def)

text \<open>
  Address infos that are put into a message as closer or provider peers are read back from
  it unchanged and in order, their identities are the closer nodes of the message, and exactly
  those are contained in it.
\<close>
lemma peers_roundtrip:
  assumes "ma_law L"
  shows "CloserPeersAddrInfos L (Some (m\<lparr>msg_CloserPeers := map (FromAddrInfo L) ps\<rparr>)) = ps \<and>
         ProviderAddrInfos L (Some (m\<lparr>msg_ProviderPeers := map (FromAddrInfo L) ps\<rparr>)) = ps \<and>
         CloserNodes (Some (m\<lparr>msg_CloserPeers := map (FromAddrInfo L) ps\<rparr>)) = map ai_ID ps \<and>
         (ContainsCloserPeer (m\<lparr>msg_CloserPeers := map (FromAddrInfo L) ps\<rparr>) i \<longleftrightarrow>
            i \<in> ai_ID ` set ps)"
  using Addresses_FromAddrInfo [OF assms]
  by (simp add: CloserPeersAddrInfos_def ProviderAddrInfos_def CloserNodes_def ContainsCloserPeer_def
      contains_loop_iff comp_def FromAddrInfo_def [of L] image_image)

lemma peers_roundtrip_witness:
  "CloserPeersAddrInfos \<lparr>ma_Bytes = id, ma_NewMultiaddrBytes = Inr\<rparr>
      (Some (zero_Message\<lparr>msg_CloserPeers := [\<lparr>mp_Id = ''p'', mp_Addrs = [''a''], mp_Connection = 0\<rparr>]\<rparr>))
     = [\<lparr>ai_ID = ''p'', ai_Addrs = [''a'']\<rparr>]"
proof -
  have "ma_law \<lparr>ma_Bytes = id, ma_NewMultiaddrBytes = Inr\<rparr>" by (simp add: ma_law_def)
  from peers_roundtrip [OF this, where m = zero_Message and ps = "[\<lparr>ai_ID = ''p'', ai_Addrs = [''a'']\<rparr>]"]
  show ?thesis by (simp add: FromAddrInfo_def)
qed

text \<open>
  Exactly the six message types of the protocol are accepted, and of those a response is expected for
  all but ADD_PROVIDER; every other 32-bit type panics.
\<close>

lemma expect_response_exact:
  "ExpectResponse m =
     (if unat (msg_Type m) \<le> 5 then Inr (msg_Type m \<noteq> Message_ADD_PROVIDER)
      else Inl ''unexpected message type'')"
proof -
  have "unat w \<le> 5 \<longleftrightarrow> w \<in> {0, 1, 2, 3, 4, 5}" for w :: "32 word"
    by (simp add: word_unat_eq_iff) linarith
  then show ?thesis by (auto simp: ExpectResponse_def message_types)
qed

end
