(* ===== verification/Handlers.thy ===== *)
theory Handlers
  imports Messages
begin

text \<open>
  The request handlers of \<open>handlers.go\<close> and the dispatcher \<open>handleMsg\<close> of
  \<open>stream.go\<close>. A handler takes the world \<open>'w\<close> (routing table, peerstore, coordinator
  and what the backends keep), the remote peer and the request, and returns an error or an
  optional response, and the new world.

  The record \<open>DHT\<close> holds what the handlers use of the node: its identity, the configured
  bucket size, the routing table's \<open>NearestNodes\<close>, the peerstore's \<open>PeerInfo\<close>, the
  coordinator's \<open>NotifyConnectivity\<close>, \<open>record.SplitKey\<close> and the backends by namespace.
\<close>

record ('w, 'm, 'b) DHT =
  d_self :: peer_id
  d_BucketSize :: nat
  d_hash :: "'b hash_lib"
  d_ma :: "'m ma_lib"
  d_NearestNodes :: "'w \<Rightarrow> 'b Key \<Rightarrow> nat \<Rightarrow> peer_id list"
  d_PeerInfo :: "'w \<Rightarrow> peer_id \<Rightarrow> 'm addr_info"
  d_NotifyConnectivity :: "'w \<Rightarrow> peer_id \<Rightarrow> 'w"
  d_SplitKey :: "bytes \<Rightarrow> goerr + bytes \<times> bytes"
  d_backends :: "(bytes, ('w, 'm) Backend) gomap"

type_synonym 'w handler_result = "(goerr + Message option) \<times> 'w"

section \<open>closerPeers\<close>

fun closer_loop :: "('w, 'm, 'b, 'z) DHT_scheme \<Rightarrow> 'w \<Rightarrow> peer_id \<Rightarrow> peer_id list \<Rightarrow> msg_peer list \<Rightarrow> msg_peer list" where
  "closer_loop D w remote [] filtered = filtered"
| "closer_loop D w remote (pid # ps) filtered =
     (if pid = d_self D then closer_loop D w remote ps filtered
      else if pid = remote then closer_loop D w remote ps filtered
      else
        (let addrInfo = d_PeerInfo D w pid
         in if length (ai_Addrs addrInfo) = 0 then closer_loop D w remote ps filtered
            else closer_loop D w remote ps (filtered @ [FromAddrInfo (d_ma D) addrInfo])))"

definition closerPeers :: "('w, 'm, 'b, 'z) DHT_scheme \<Rightarrow> 'w \<Rightarrow> peer_id \<Rightarrow> 'b Key \<Rightarrow> msg_peer list" where
  "closerPeers D w remote target =
     (let peers = d_NearestNodes D w target (d_BucketSize D)
      in if length peers = 0 then [] else closer_loop D w remote peers [])"

section \<open>The handlers\<close>

definition handleFindPeer ::
  "('w, 'm, 'b, 'z) DHT_scheme \<Rightarrow> 'w \<Rightarrow> peer_id \<Rightarrow> Message \<Rightarrow> 'w handler_result" where
  "handleFindPeer D w remote req =
     (if length (msg_Key req) = 0 then (Inl (Errorf ''handleFindPeer with empty key''), w)
      else
        (let w = d_NotifyConnectivity D w remote;
             target = msg_Key req;
             resp = zero_Message\<lparr>msg_Type := Message_FIND_NODE, msg_Key := msg_Key req\<rparr>
         in if target = d_self D
            then (Inr (Some (resp\<lparr>msg_CloserPeers :=
                    [FromAddrInfo (d_ma D) (d_PeerInfo D w (d_self D))]\<rparr>)), w)
            else
              (let resp = resp\<lparr>msg_CloserPeers :=
                     closerPeers D w remote (PeerID_Key (d_hash D) target)\<rparr>;
                   targetInfo = d_PeerInfo D w target
               in if length (ai_Addrs targetInfo) > 0 \<and> \<not> ContainsCloserPeer resp target \<and> target \<noteq> remote
                  then (Inr (Some (resp\<lparr>msg_CloserPeers :=
                          msg_CloserPeers resp @ [FromAddrInfo (d_ma D) targetInfo]\<rparr>)), w)
                  else (Inr (Some resp), w))))"

definition handlePing ::
  "('w, 'm, 'b, 'z) DHT_scheme \<Rightarrow> 'w \<Rightarrow> peer_id \<Rightarrow> Message \<Rightarrow> 'w handler_result" where
  "handlePing D w remote req = (Inr (Some (zero_Message\<lparr>msg_Type := Message_PING\<rparr>)), w)"

definition stripPeerRecords :: "Message \<Rightarrow> Message" where
  "stripPeerRecords msg = msg\<lparr>msg_CloserPeers := [], msg_ProviderPeers := []\<rparr>"

text \<open>
  A backend is given the record of the request as a pointer: \<open>Store\<close> of a record backend overwrites
  \<open>TimeReceived\<close> in it and returns the same pointer, so that the request, which is the response, has the
  record that \<open>Store\<close> returned. (A user's backend that returns something else is taken to leave the record alone.)
\<close>

fun store_into :: "'m any \<Rightarrow> Message \<Rightarrow> Message" where
  "store_into (AnyRecord rec) req = req\<lparr>msg_Record := Some rec\<rparr>"
| "store_into _ req = req"

definition handlePutValue ::
  "('w, 'm, 'b, 'z) DHT_scheme \<Rightarrow> 'w \<Rightarrow> peer_id \<Rightarrow> Message \<Rightarrow> 'w handler_result" where
  "handlePutValue D w remote req =
     (let k = msg_Key req
      in if length k = 0 then (Inl (Errorf ''no key was provided''), w)
         else
           (case msg_Record req of
              None \<Rightarrow> (Inl (Errorf ''nil record''), w)
            | Some rec \<Rightarrow>
                if msg_Key req \<noteq> rec_Key rec then (Inl (Errorf ''key doesn't match record key''), w)
                else
                  (case d_SplitKey D k of
                     Inl err \<Rightarrow> (Inl (Wrapf ''invalid key'' err), w)
                   | Inr (ns, path) \<Rightarrow>
                       if length path = 0 then (Inl (Errorf ''invalid key''), w)
                       else
                         (case map_of (d_backends D) ns of
                            None \<Rightarrow> (Inl (Errorf ''unsupported record type''), w)
                          | Some backend \<Rightarrow>
                              (case Store backend w path (AnyRecord rec) of
                                 (Inl err, w') \<Rightarrow> (Inl err, w')
                               | (Inr v, w') \<Rightarrow> (Inr (Some (stripPeerRecords (store_into v req))), w'))))))"

lemma store_into_simps [simp]:
  "msg_Type (store_into v req) = msg_Type req" "msg_Key (store_into v req) = msg_Key req"
  by (cases v; simp)+

definition handleGetValue ::
  "('w, 'm, 'b, 'z) DHT_scheme \<Rightarrow> 'w \<Rightarrow> peer_id \<Rightarrow> Message \<Rightarrow> 'w handler_result" where
  "handleGetValue D w remote req =
     (let k = msg_Key req
      in if length k = 0 then (Inl (Errorf ''handleGetValue but no key in request''), w)
         else
           (let resp = zero_Message\<lparr>msg_Type := Message_GET_VALUE, msg_Key := msg_Key req,
                  msg_CloserPeers := closerPeers D w remote (NewKey (d_hash D) (msg_Key req))\<rparr>
            in case d_SplitKey D k of
                 Inl err \<Rightarrow> (Inl (Wrapf ''invalid key'' err), w)
               | Inr (ns, path) \<Rightarrow>
                   if path = [] then (Inl (Errorf ''invalid key''), w)
                   else
                     (case map_of (d_backends D) ns of
                        None \<Rightarrow> (Inl (Errorf ''unsupported record type''), w)
                      | Some backend \<Rightarrow>
                          (case Fetch backend w path of
                             (Inl err, w') \<Rightarrow>
                               if errors_Is err ErrNotFound then (Inr (Some resp), w')
                               else (Inl (Wrapf ''fetch record for key'' err), w')
                           | (Inr AnyNil, w') \<Rightarrow> (Inr (Some resp), w')
                           | (Inr (AnyRecord rec), w') \<Rightarrow> (Inr (Some (resp\<lparr>msg_Record := Some rec\<rparr>)), w')
                           | (Inr (AnyProviderSetPtr pset), w') \<Rightarrow>
                               (Inr (Some (resp\<lparr>msg_ProviderPeers :=
                                  map (FromAddrInfo (d_ma D)) (providers pset)\<rparr>)), w')
                           | (Inr _, w') \<Rightarrow>
                               (Inl (Errorf ''expected *recpb.Record or *providerSet value type''), w')))))"

text \<open>The checks of \<open>handleAddProvider\<close>: every provider is the remote itself and has addresses.\<close>

fun check_providers :: "peer_id \<Rightarrow> 'm addr_info list \<Rightarrow> 'm addr_info list \<Rightarrow> goerr + 'm addr_info list" where
  "check_providers remote [] addrInfos = Inr addrInfos"
| "check_providers remote (ai # ais) addrInfos =
     (if ai_ID ai \<noteq> remote then Inl (Errorf ''attempted to store provider record for other peer'')
      else if length (ai_Addrs ai) = 0 then Inl (Errorf ''no addresses for provider'')
      else check_providers remote ais (addrInfos @ [ai]))"

fun store_providers :: "('w, 'm) Backend \<Rightarrow> 'w \<Rightarrow> bytes \<Rightarrow> 'm addr_info list \<Rightarrow> 'w handler_result" where
  "store_providers b w k [] = (Inr None, w)"
| "store_providers b w k (ai # ais) =
     (case Store b w k (AnyAddrInfo ai) of
        (Inl err, w') \<Rightarrow> (Inl (Wrapf ''storing provider record'' err), w')
      | (Inr _, w') \<Rightarrow> store_providers b w' k ais)"

definition handleAddProvider ::
  "('w, 'm, 'b, 'z) DHT_scheme \<Rightarrow> 'w \<Rightarrow> peer_id \<Rightarrow> Message \<Rightarrow> 'w handler_result" where
  "handleAddProvider D w remote req =
     (let k = msg_Key req
      in if length k > 80 then (Inl (Errorf ''key size too large''), w)
         else if length k = 0 then (Inl (Errorf ''key is empty''), w)
         else if length (msg_ProviderPeers req) = 0 then (Inl (Errorf ''no provider peers given''), w)
         else
           (case check_providers remote (ProviderAddrInfos (d_ma D) (Some req)) [] of
              Inl err \<Rightarrow> (Inl err, w)
            | Inr addrInfos \<Rightarrow>
                (case map_of (d_backends D) namespaceProviders of
                   None \<Rightarrow> (Inl (Errorf ''unsupported record type''), w)
                 | Some backend \<Rightarrow> store_providers backend w k addrInfos)))"

definition handleGetProviders ::
  "('w, 'm, 'b, 'z) DHT_scheme \<Rightarrow> 'w \<Rightarrow> peer_id \<Rightarrow> Message \<Rightarrow> 'w handler_result" where
  "handleGetProviders D w remote req =
     (let k = msg_Key req
      in if length k > 80 then (Inl (Errorf ''handleGetProviders key size too large''), w)
         else if length k = 0 then (Inl (Errorf ''handleGetProviders key is empty''), w)
         else
           (case map_of (d_backends D) namespaceProviders of
              None \<Rightarrow> (Inl (Errorf ''unsupported record type''), w)
            | Some backend \<Rightarrow>
                (let resp = zero_Message\<lparr>msg_Type := Message_GET_PROVIDERS, msg_Key := k,
                       msg_CloserPeers := closerPeers D w remote (NewKey (d_hash D) k)\<rparr>
                 in case Fetch backend w k of
                      (Inl err, w') \<Rightarrow>
                        if errors_Is err ErrNotFound then (Inr (Some resp), w')
                        else (Inl (Wrapf ''fetch providers from datastore'' err), w')
                    | (Inr (AnyProviderSetPtr pset), w') \<Rightarrow>
                        (Inr (Some (resp\<lparr>msg_ProviderPeers :=
                           map (FromAddrInfo (d_ma D)) (providers pset)\<rparr>)), w')
                    | (Inr _, w') \<Rightarrow> (Inl (Errorf ''expected *providerSet value type''), w'))))"

section \<open>The dispatcher\<close>

definition handleMsg ::
  "('w, 'm, 'b, 'z) DHT_scheme \<Rightarrow> 'w \<Rightarrow> peer_id \<Rightarrow> Message \<Rightarrow> 'w handler_result" where
  "handleMsg D w remote req =
     (if msg_Type req = Message_FIND_NODE then handleFindPeer D w remote req
      else if msg_Type req = Message_PING then handlePing D w remote req
      else if msg_Type req = Message_PUT_VALUE then handlePutValue D w remote req
      else if msg_Type req = Message_GET_VALUE then handleGetValue D w remote req
      else if msg_Type req = Message_ADD_PROVIDER then handleAddProvider D w remote req
      else if msg_Type req = Message_GET_PROVIDERS then handleGetProviders D w remote req
      else (Inl (Errorf ''can't handle received message''), w))"

section \<open>closerPeers filters the nearest nodes\<close>

text \<open>The peers that may be told to the remote.\<close>

definition shareable :: "('w, 'm, 'b, 'z) DHT_scheme \<Rightarrow> 'w \<Rightarrow> peer_id \<Rightarrow> peer_id \<Rightarrow> bool" where
  "shareable D w remote pid \<longleftrightarrow>
     pid \<noteq> d_self D \<and> pid \<noteq> remote \<and> ai_Addrs (d_PeerInfo D w pid) \<noteq> []"

lemma closer_loop_eq:
  "closer_loop D w remote ps filtered =
     filtered @ map (\<lambda>p. FromAddrInfo (d_ma D) (d_PeerInfo D w p)) (filter (shareable D w remote) ps)"
  by (induction ps arbitrary: filtered) (auto simp: shareable_def Let_def)

lemma closerPeers_eq:
  "closerPeers D w remote target =
     map (\<lambda>p. FromAddrInfo (d_ma D) (d_PeerInfo D w p))
       (filter (shareable D w remote) (d_NearestNodes D w target (d_BucketSize D)))"
  by (simp add: closerPeers_def Let_def closer_loop_eq)

text \<open>The peerstore answers for the peer it is asked about.\<close>

definition peerinfo_law :: "('w, 'm, 'b, 'z) DHT_scheme \<Rightarrow> bool" where
  "peerinfo_law D \<longleftrightarrow> (\<forall>w p. ai_ID (d_PeerInfo D w p) = p)"

text \<open>The routing table returns at most as many nodes as it is asked for, each once.\<close>

definition nearest_law :: "('w, 'm, 'b, 'z) DHT_scheme \<Rightarrow> bool" where
  "nearest_law D \<longleftrightarrow>
     (\<forall>w k n. length (d_NearestNodes D w k n) \<le> n \<and> distinct (d_NearestNodes D w k n))"

lemma mp_Id_FromAddrInfo [simp]: "mp_Id (FromAddrInfo L a) = ai_ID a"
  by (simp add: FromAddrInfo_def)

lemma closerPeers_ids:
  "peerinfo_law D \<Longrightarrow>
     map mp_Id (closerPeers D w remote target) =
       filter (shareable D w remote) (d_NearestNodes D w target (d_BucketSize D))"
  by (simp add: closerPeers_eq comp_def peerinfo_law_def)

lemma closerPeers_length: "nearest_law D \<Longrightarrow> length (closerPeers D w remote target) \<le> d_BucketSize D"
  by (simp add: closerPeers_eq nearest_law_def) (meson length_filter_le order_trans)


end
