(* ===== verification/Datastore.thy ===== *)
theory Datastore
  imports Backend
begin

text \<open>
  The datastore as the backends see it, and the keys they build for it
  (\<open>newDatastoreKey\<close> and \<open>newRoutingKey\<close> of \<open>backend_provider.go\<close>).

  The datastore (\<open>go-datastore\<close>), its transactions and the base32 encoding
  (\<open>go-base32\<close>) are libraries: they are the fields of the records \<open>lib\<close> and
  \<open>ds_env\<close>, arguments of every definition that uses them. What the code relies on is the
  documented behaviour \<open>lib_laws\<close> and \<open>datastore_laws\<close>: keys are decoded as they were
  encoded, and the store is a map from keys to values that a write changes at most at its key.
\<close>

section \<open>The libraries\<close>

record lib =
  b32_encode :: "bytes \<Rightarrow> bytes"                    \<comment> \<open>\<open>base32.RawStdEncoding\<close>\<close>
  b32_decode :: "bytes \<Rightarrow> goerr + bytes"
  ds_NewKey :: "bytes \<Rightarrow> bytes"                     \<comment> \<open>\<open>ds.NewKey\<close>: cleans a path\<close>

type_synonym entry = "bytes \<times> (goerr + bytes)"     \<comment> \<open>a query result: key, and error or value\<close>

record ('ds, 'tx) ds_env = lib +
  ds_Put :: "'ds \<Rightarrow> bytes \<Rightarrow> bytes \<Rightarrow> goerr option \<times> 'ds"
  ds_Get :: "'ds \<Rightarrow> bytes \<Rightarrow> goerr + bytes"
  ds_Delete :: "'ds \<Rightarrow> bytes \<Rightarrow> goerr option \<times> 'ds"
  ds_Query :: "'ds \<Rightarrow> bytes \<Rightarrow> goerr + entry list"  \<comment> \<open>by prefix; a snapshot\<close>
  ds_NewTransaction :: "'ds \<Rightarrow> goerr + 'tx"
  tx_Get :: "'tx \<Rightarrow> bytes \<Rightarrow> goerr + bytes"
  tx_Put :: "'tx \<Rightarrow> bytes \<Rightarrow> bytes \<Rightarrow> goerr option \<times> 'tx"
  tx_Commit :: "'ds \<Rightarrow> 'tx \<Rightarrow> goerr option \<times> 'ds"

text \<open>\<open>strings.Join(elems, "/")\<close>.\<close>

fun join_slash :: "bytes list \<Rightarrow> bytes" where
  "join_slash [] = []"
| "join_slash [x] = x"
| "join_slash (x # y # zs) = x @ ''/'' @ join_slash (y # zs)"

definition newDatastoreKey :: "'z lib_scheme \<Rightarrow> bytes \<Rightarrow> bytes list \<Rightarrow> bytes" where
  "newDatastoreKey L namespace binStrs =
     ds_NewKey L (''/'' @ join_slash (namespace # map (b32_encode L) binStrs))"

definition newRoutingKey :: "bytes \<Rightarrow> bytes \<Rightarrow> bytes" where
  "newRoutingKey namespace binStr = (''/'' @ namespace @ ''/'') @ binStr"

text \<open>\<open>e.Key[strings.LastIndex(e.Key, "/")+1:]\<close>; the whole key where there is no slash.\<close>

definition after_last_slash :: "bytes \<Rightarrow> bytes" where
  "after_last_slash s = rev (takeWhile (\<lambda>c. c \<noteq> CHR ''/'') (rev s))"

section \<open>What is assumed of them\<close>

definition clean_part :: "bytes \<Rightarrow> bool" where
  "clean_part p \<longleftrightarrow> p \<noteq> [] \<and> CHR ''/'' \<notin> set p \<and> CHR ''.'' \<notin> set p"

text \<open>
  Base32 output has no slash and no dot, is empty for the empty input only, and decodes to the
  input; cleaning leaves a path alone that is absolute and has no empty or dotted element.
\<close>

definition lib_laws :: "'z lib_scheme \<Rightarrow> bool" where
  "lib_laws L \<longleftrightarrow>
     (\<forall>b. b32_decode L (b32_encode L b) = Inr b) \<and>
     (\<forall>b. b \<noteq> [] \<longrightarrow> clean_part (b32_encode L b)) \<and>
     (\<forall>ps. ps \<noteq> [] \<longrightarrow> (\<forall>p \<in> set ps. clean_part p) \<longrightarrow>
        ds_NewKey L (''/'' @ join_slash ps) = ''/'' @ join_slash ps)"

text \<open>A query for a prefix returns the keys strictly below it; a leading slash is implied.\<close>

definition under :: "bytes \<Rightarrow> bytes \<Rightarrow> bool" where
  "under p k \<longleftrightarrow> prefix ((if take 1 p = ''/'' then p else ''/'' @ p) @ ''/'') k"

text \<open>
  A write that succeeds takes effect. One that fails may have taken effect or not, which the library does not
  say: that it has not is the further hypothesis \<open>failed_writes_void\<close> where something rests on it.
\<close>

definition put_law :: "('ds, 'tx, 'z) ds_env_scheme \<Rightarrow> ('ds \<Rightarrow> bytes \<rightharpoonup> bytes) \<Rightarrow> bool" where
  "put_law E content \<longleftrightarrow>
     (\<forall>d k v e d'. ds_Put E d k v = (e, d') \<longrightarrow>
        content d' = (content d)(k \<mapsto> v) \<or> e \<noteq> None \<and> content d' = content d)"

definition delete_law :: "('ds, 'tx, 'z) ds_env_scheme \<Rightarrow> ('ds \<Rightarrow> bytes \<rightharpoonup> bytes) \<Rightarrow> bool" where
  "delete_law E content \<longleftrightarrow>
     (\<forall>d k e d'. ds_Delete E d k = (e, d') \<longrightarrow>
        content d' = (content d)(k := None) \<or> e \<noteq> None \<and> content d' = content d)"

definition failed_writes_void :: "('ds, 'tx, 'z) ds_env_scheme \<Rightarrow> ('ds \<Rightarrow> bytes \<rightharpoonup> bytes) \<Rightarrow> bool" where
  "failed_writes_void E content \<longleftrightarrow>
     (\<forall>d k v e d'. ds_Put E d k v = (Some e, d') \<longrightarrow> content d' = content d) \<and>
     (\<forall>d k e d'. ds_Delete E d k = (Some e, d') \<longrightarrow> content d' = content d)"

definition get_law ::
  "('d \<Rightarrow> bytes \<Rightarrow> goerr + bytes) \<Rightarrow> ('d \<Rightarrow> bytes \<rightharpoonup> bytes) \<Rightarrow> 'd \<Rightarrow> bool" where
  "get_law get content d \<longleftrightarrow>
     (\<forall>k v. get d k = Inr v \<longrightarrow> content d k = Some v) \<and>
     (\<forall>k e. get d k = Inl e \<longrightarrow> errors_Is e ErrNotFound \<longrightarrow> content d k = None)"

definition query_law :: "('ds, 'tx, 'z) ds_env_scheme \<Rightarrow> ('ds \<Rightarrow> bytes \<rightharpoonup> bytes) \<Rightarrow> bool" where
  "query_law E content \<longleftrightarrow>
     (\<forall>d p es. ds_Query E d p = Inr es \<longrightarrow>
        distinct (map fst es) \<and>
        (\<forall>k v. (k, Inr v) \<in> set es \<longrightarrow> under p k \<and> content d k = Some v) \<and>
        (\<forall>k v. under p k \<longrightarrow> content d k = Some v \<longrightarrow> k \<in> fst ` set es))"

definition txn_law :: "('ds, 'tx, 'z) ds_env_scheme \<Rightarrow> ('ds \<Rightarrow> bytes \<rightharpoonup> bytes) \<Rightarrow> bool" where
  "txn_law E content \<longleftrightarrow>
     (\<forall>d x. ds_NewTransaction E d = Inr x \<longrightarrow>
        get_law (tx_Get E) (\<lambda>_. content d) x \<and>
        (\<forall>k v x' e d'. tx_Put E x k v = (None, x') \<longrightarrow> tx_Commit E d x' = (e, d') \<longrightarrow>
           content d' = (if e = None then (content d)(k \<mapsto> v) else content d)))"

definition datastore_laws :: "('ds, 'tx, 'z) ds_env_scheme \<Rightarrow> ('ds \<Rightarrow> bytes \<rightharpoonup> bytes) \<Rightarrow> bool" where
  "datastore_laws E content \<longleftrightarrow>
     put_law E content \<and> delete_law E content \<and> (\<forall>d. get_law (ds_Get E) content d) \<and>
     query_law E content \<and> txn_law E content"

lemma ds_Put_content:
  "datastore_laws E content \<Longrightarrow> ds_Put E d k v = (e, d') \<Longrightarrow>
     content d' = (content d)(k \<mapsto> v) \<or> e \<noteq> None \<and> content d' = content d"
  unfolding datastore_laws_def put_law_def by metis

lemma ds_Delete_content:
  "datastore_laws E content \<Longrightarrow> ds_Delete E d k = (e, d') \<Longrightarrow>
     content d' = (content d)(k := None) \<or> e \<noteq> None \<and> content d' = content d"
  unfolding datastore_laws_def delete_law_def by metis

lemma ds_Get_content:
  "datastore_laws E content \<Longrightarrow> ds_Get E d k = Inr v \<Longrightarrow> content d k = Some v"
  unfolding datastore_laws_def get_law_def by metis

lemma ds_Query_sound:
  "datastore_laws E content \<Longrightarrow> ds_Query E d p = Inr es \<Longrightarrow> (k, Inr v) \<in> set es \<Longrightarrow>
     under p k \<and> content d k = Some v"
  unfolding datastore_laws_def query_law_def by metis

lemma ds_Query_complete:
  "datastore_laws E content \<Longrightarrow> ds_Query E d p = Inr es \<Longrightarrow> under p k \<Longrightarrow> content d k = Some v \<Longrightarrow>
     (k, Inr v) \<in> set es \<or> (\<exists>e. (k, Inl e) \<in> set es)"
proof -
  assume a: "datastore_laws E content" "ds_Query E d p = Inr es" "under p k" "content d k = Some v"
  then have "k \<in> fst ` set es" unfolding datastore_laws_def query_law_def by metis
  then obtain r where r: "(k, r) \<in> set es" by auto
  show ?thesis
  proof (cases r)
    case (Inr w)
    then have "content d k = Some w" using ds_Query_sound [OF a(1,2)] r by blast
    then show ?thesis using a(4) r Inr by simp
  qed (use r in blast)
qed

lemma ds_Query_distinct:
  "datastore_laws E content \<Longrightarrow> ds_Query E d p = Inr es \<Longrightarrow> distinct (map fst es)"
  unfolding datastore_laws_def query_law_def by metis

lemma tx_Get_content:
  "datastore_laws E content \<Longrightarrow> ds_NewTransaction E d = Inr x \<Longrightarrow> tx_Get E x k = Inr v \<Longrightarrow>
     content d k = Some v"
  unfolding datastore_laws_def txn_law_def get_law_def by metis

lemma tx_Commit_content:
  "datastore_laws E content \<Longrightarrow> ds_NewTransaction E d = Inr x \<Longrightarrow> tx_Put E x k v = (None, x') \<Longrightarrow>
     tx_Commit E d x' = (e, d') \<Longrightarrow>
     content d' = (if e = None then (content d)(k \<mapsto> v) else content d)"
  unfolding datastore_laws_def txn_law_def by metis

section \<open>Keys\<close>

lemma join_slash_Cons: "ps \<noteq> [] \<Longrightarrow> join_slash (p # ps) = p @ ''/'' @ join_slash ps"
  by (cases ps) auto

lemma join_slash_snoc: "ps \<noteq> [] \<Longrightarrow> join_slash (ps @ [p]) = join_slash ps @ ''/'' @ p"
proof (induction ps)
  case (Cons a ps)
  then show ?case by (cases "ps = []") (simp_all add: join_slash_Cons)
qed simp

lemma after_last_slash_append:
  "CHR ''/'' \<notin> set p \<Longrightarrow> after_last_slash (s @ ''/'' @ p) = p"
  by (simp add: after_last_slash_def takeWhile_append)

lemma newDatastoreKey_eq:
  assumes "lib_laws L" and "clean_part ns" and "[] \<notin> set bs"
  shows "newDatastoreKey L ns bs = ''/'' @ join_slash (ns # map (b32_encode L) bs)"
proof -
  have "clean_part (b32_encode L b)" if "b \<in> set bs" for b
    using assms that by (cases "b = []") (auto simp: lib_laws_def)
  then have "\<forall>p \<in> set (ns # map (b32_encode L) bs). clean_part p"
    using assms(2) by auto
  then show ?thesis using assms(1) unfolding newDatastoreKey_def lib_laws_def by blast
qed

lemma newDatastoreKey_snoc:
  assumes "lib_laws L" and "clean_part ns" and "[] \<notin> set bs" and "b \<noteq> []"
  shows "newDatastoreKey L ns (bs @ [b]) = newDatastoreKey L ns bs @ ''/'' @ b32_encode L b"
  using assms join_slash_snoc [of "ns # map (b32_encode L) bs"] by (simp add: newDatastoreKey_eq)

lemma b32_clean: "lib_laws L \<Longrightarrow> b \<noteq> [] \<Longrightarrow> CHR ''/'' \<notin> set (b32_encode L b)"
  by (simp add: lib_laws_def clean_part_def)

lemma b32_decode_encode: "lib_laws L \<Longrightarrow> b32_decode L (b32_encode L b) = Inr b"
  by (simp add: lib_laws_def)

lemma newDatastoreKey_last:
  assumes "lib_laws L" and "clean_part ns" and "[] \<notin> set bs" and "b \<noteq> []"
  shows "after_last_slash (newDatastoreKey L ns (bs @ [b])) = b32_encode L b"
  using newDatastoreKey_snoc [OF assms] b32_clean [OF assms(1,4)]
  by (simp add: after_last_slash_append del: append.simps)

lemma newDatastoreKey_under:
  assumes "lib_laws L" and "clean_part ns" and "[] \<notin> set bs" and "b \<noteq> []"
  shows "under (newDatastoreKey L ns bs) (newDatastoreKey L ns (bs @ [b]))"
  using newDatastoreKey_snoc [OF assms] by (simp add: under_def newDatastoreKey_eq [OF assms(1-3)])

text \<open>Splitting at slashes recovers the elements, so keys of different elements differ.\<close>

lemma join_slash_inj:
  assumes "\<forall>p \<in> set ps. clean_part p" and "\<forall>p \<in> set qs. clean_part p"
    and "length ps = length qs" and "join_slash ps = join_slash qs"
  shows "ps = qs"
  using assms(3,1,2,4)
proof (induction ps qs rule: list_induct2)
  case Nil
  then show ?case by simp
next
  case (Cons p ps q qs)
  show ?case
  proof (cases "ps = []")
    case True
    then show ?thesis using Cons by simp
  next
    case False
    then have "qs \<noteq> []" using Cons.hyps by auto
    with False Cons.prems(3) have eq: "p @ ''/'' @ join_slash ps = q @ ''/'' @ join_slash qs"
      by (simp add: join_slash_Cons)
    have "takeWhile (\<lambda>c. c \<noteq> CHR ''/'') (p @ ''/'' @ join_slash ps) = p"
      using Cons.prems(1) by (subst takeWhile_append2) (auto simp: clean_part_def)
    moreover have "takeWhile (\<lambda>c. c \<noteq> CHR ''/'') (q @ ''/'' @ join_slash qs) = q"
      using Cons.prems(2) by (subst takeWhile_append2) (auto simp: clean_part_def)
    ultimately have "p = q" using eq by simp
    then show ?thesis using eq Cons by simp
  qed
qed

end
