(* ===== verification/RecordBackend.thy ===== *)
theory RecordBackend
  imports Datastore
begin

text \<open>
  The backend for value records (\<open>ipns\<close> and \<open>pk\<close>), \<open>backend_record.go\<close> and its
  constructors in \<open>backend.go\<close>. The validator of a namespace, the protobuf encoding of a
  record and the RFC 3339 rendering of times are libraries, given as parameters.

  A store runs in a transaction on the datastore. A fetch deletes what it refuses to serve.
\<close>

section \<open>State\<close>

text \<open>\<open>record.Validator\<close>: an error or none for one value; the index of the best of several.\<close>

record validator =
  v_Validate :: "bytes \<Rightarrow> bytes \<Rightarrow> goerr option"
  v_Select :: "bytes \<Rightarrow> bytes list \<Rightarrow> goerr + int"

record ('ds, 'tx) rec_env = "('ds, 'tx) ds_env" +
  proto_Marshal :: "rec \<Rightarrow> goerr + bytes"
  proto_Unmarshal :: "bytes \<Rightarrow> goerr + rec"
  time_Format :: "int \<Rightarrow> string"                   \<comment> \<open>UTC, \<open>time.RFC3339Nano\<close>\<close>
  time_Parse :: "string \<Rightarrow> goerr + int"

record 'ds RecordBackend =
  rb_namespace :: bytes
  rb_MaxRecordAge :: int
  rb_validator :: validator
  rb_datastore :: 'ds

definition DefaultRecordBackendConfig :: int where
  "DefaultRecordBackendConfig = 48 * Hour"

text \<open>The configuration is its maximal record age; \<open>None\<close> stands for a nil configuration.\<close>

definition NewBackendIPNS :: "validator \<Rightarrow> 'ds \<Rightarrow> int option \<Rightarrow> 'ds RecordBackend" where
  "NewBackendIPNS ipns_Validator dstore cfg =
     \<lparr>rb_namespace = namespaceIPNS,
      rb_MaxRecordAge = (case cfg of None \<Rightarrow> DefaultRecordBackendConfig | Some age \<Rightarrow> age),
      rb_validator = ipns_Validator, rb_datastore = dstore\<rparr>"

definition NewBackendPublicKey :: "validator \<Rightarrow> 'ds \<Rightarrow> int option \<Rightarrow> 'ds RecordBackend" where
  "NewBackendPublicKey record_PublicKeyValidator dstore cfg =
     \<lparr>rb_namespace = namespacePublicKey,
      rb_MaxRecordAge = (case cfg of None \<Rightarrow> DefaultRecordBackendConfig | Some age \<Rightarrow> age),
      rb_validator = record_PublicKeyValidator, rb_datastore = dstore\<rparr>"

definition routingKey :: "'ds RecordBackend \<Rightarrow> bytes \<Rightarrow> bytes" where
  "routingKey r key = ''/'' @ rb_namespace r @ ''/'' @ key"

lemma routingKey_eq: "routingKey r key = newRoutingKey (rb_namespace r) key"
  by (simp add: routingKey_def newRoutingKey_def)

section \<open>Store, Fetch, Validate\<close>

definition shouldReplaceExistingRecord ::
  "('ds, 'tx, 'z) rec_env_scheme \<Rightarrow> validator \<Rightarrow> 'tx \<Rightarrow> bytes \<Rightarrow> bytes \<Rightarrow> goerr + bool" where
  "shouldReplaceExistingRecord E V txn dsKey val =
     (case tx_Get E txn dsKey of
        Inl err \<Rightarrow>
          if errors_Is err ErrNotFound then Inr True
          else Inl (Wrapf ''getting record from datastore'' err)
      | Inr existingBytes \<Rightarrow>
          (case proto_Unmarshal E existingBytes of
             Inl err \<Rightarrow> Inr True
           | Inr existingRec \<Rightarrow>
               (case v_Validate V (rec_Key existingRec) (rec_Value existingRec) of
                  Some err \<Rightarrow> Inr True
                | None \<Rightarrow>
                    (case v_Select V dsKey [val, rec_Value existingRec] of
                       Inl err \<Rightarrow> Inl (Wrapf ''record selection'' err)
                     | Inr i \<Rightarrow> if i \<noteq> 0 then Inr False else Inr True))))"

definition rb_Store ::
  "('ds, 'tx, 'z) rec_env_scheme \<Rightarrow> int \<Rightarrow> 'ds RecordBackend \<Rightarrow> bytes \<Rightarrow> 'm any
     \<Rightarrow> (goerr + 'm any) \<times> 'ds RecordBackend" where
  "rb_Store E now r key value =
     (case value of
        AnyRecord rec \<Rightarrow>
          (case v_Validate (rb_validator r) (routingKey r key) (rec_Value rec) of
             Some err \<Rightarrow> (Inl (Wrapf ''put bad record'' err), r)
           | None \<Rightarrow>
               (case ds_NewTransaction E (rb_datastore r) of
                  Inl err \<Rightarrow> (Inl (Wrapf ''new transaction'' err), r)
                | Inr txn \<Rightarrow>
                    (let dsKey = newDatastoreKey E (rb_namespace r) [key]
                     in case shouldReplaceExistingRecord E (rb_validator r) txn dsKey (rec_Value rec) of
                          Inl err \<Rightarrow> (Inl (Wrapf ''checking datastore for better record'' err), r)
                        | Inr shouldReplace \<Rightarrow>
                            if \<not> shouldReplace then (Inl (Errorf ''received worse record''), r)
                            else
                              (let rec = rec\<lparr>rec_TimeReceived := time_Format E now\<rparr>
                               in case proto_Marshal E rec of
                                    Inl err \<Rightarrow> (Inl (Wrapf ''marshal incoming record'' err), r)
                                  | Inr data \<Rightarrow>
                                      (case tx_Put E txn dsKey data of
                                         (Some err, txn') \<Rightarrow>
                                           (Inl (Wrapf ''storing record in datastore'' err), r)
                                       | (None, txn') \<Rightarrow>
                                           (case tx_Commit E (rb_datastore r) txn' of
                                              (Some err, d) \<Rightarrow>
                                                (Inl (Wrapf ''committing new record to datastore'' err),
                                                 r\<lparr>rb_datastore := d\<rparr>)
                                            | (None, d) \<Rightarrow>
                                                (Inr (AnyRecord rec), r\<lparr>rb_datastore := d\<rparr>)))))))
      | _ \<Rightarrow> (Inl (Errorf ''expected *recpb.Record value type''), r))"

text \<open>A failed \<open>Delete\<close> is logged and otherwise ignored.\<close>

definition rb_Fetch ::
  "('ds, 'tx, 'z) rec_env_scheme \<Rightarrow> int \<Rightarrow> 'ds RecordBackend \<Rightarrow> bytes
     \<Rightarrow> (goerr + 'm any) \<times> 'ds RecordBackend" where
  "rb_Fetch E now r key =
     (let dsKey = newDatastoreKey E (rb_namespace r) [key];
          dropped = r\<lparr>rb_datastore := snd (ds_Delete E (rb_datastore r) dsKey)\<rparr>
      in case ds_Get E (rb_datastore r) dsKey of
           Inl err \<Rightarrow> (Inl err, r)
         | Inr buf \<Rightarrow>
             (case proto_Unmarshal E buf of
                Inl err \<Rightarrow> (Inr AnyNil, dropped)
              | Inr rec \<Rightarrow>
                  (case time_Parse E (rec_TimeReceived rec) of
                     Inl err \<Rightarrow> (Inr AnyNil, dropped)
                   | Inr receivedAt \<Rightarrow>
                       if time_Sub now receivedAt > rb_MaxRecordAge r then (Inr AnyNil, dropped)
                       else (Inr (AnyRecord rec), r))))"

text \<open>
  The loop of \<open>Validate\<close>: the valid values, and for each of them its index in the list that
  was passed in.
\<close>

fun collect_valid ::
  "validator \<Rightarrow> bytes \<Rightarrow> int \<Rightarrow> 'm any list \<Rightarrow> (int, int) gomap \<times> bytes list
     \<Rightarrow> (int, int) gomap \<times> bytes list" where
  "collect_valid V k i [] s = s"
| "collect_valid V k i (v # vs) (origIdx, validValues) =
     (case v of
        AnyBytes data \<Rightarrow>
          (case v_Validate V k data of
             Some err \<Rightarrow> collect_valid V k (i + 1) vs (origIdx, validValues)
           | None \<Rightarrow>
               collect_valid V k (i + 1) vs
                 (AList.update (int (length validValues)) i origIdx, validValues @ [data]))
      | _ \<Rightarrow> collect_valid V k (i + 1) vs (origIdx, validValues))"

definition rb_Validate :: "validator \<Rightarrow> bytes \<Rightarrow> bytes \<Rightarrow> 'm any list \<Rightarrow> goerr + int" where
  "rb_Validate V namespace key vals =
     (let k = newRoutingKey namespace key
      in if length vals = 1 then
           (case hd vals of
              AnyBytes data \<Rightarrow>
                (case v_Validate V k data of Some err \<Rightarrow> Inl err | None \<Rightarrow> Inr 0)
            | _ \<Rightarrow> Inl (Errorf ''value not byte slice''))
         else
           (let (origIdx, validValues) = collect_valid V k 0 vals ([], [])
            in if length validValues = 0 then Inl (Errorf ''no valid values'')
               else
                 (case v_Select V k validValues of
                    Inl err \<Rightarrow> Inl err
                  | Inr sel \<Rightarrow> Inr (go_get0 origIdx sel))))"

section \<open>Validate is Select on the valid values\<close>

text \<open>A value the validator accepts, and the bytes of a value.\<close>

definition valid_value :: "validator \<Rightarrow> bytes \<Rightarrow> 'm any \<Rightarrow> bool" where
  "valid_value V k v = (case v of AnyBytes data \<Rightarrow> v_Validate V k data = None | _ \<Rightarrow> False)"

fun any_bytes :: "'m any \<Rightarrow> bytes" where
  "any_bytes (AnyBytes data) = data"
| "any_bytes v = []"

text \<open>The indices of the valid values, ascending.\<close>

definition valid_idx :: "validator \<Rightarrow> bytes \<Rightarrow> 'm any list \<Rightarrow> nat list" where
  "valid_idx V k vs = filter (\<lambda>i. valid_value V k (vs ! i)) [0..<length vs]"

lemma valid_idx_snoc:
  "valid_idx V k (vs @ [v]) = valid_idx V k vs @ (if valid_value V k v then [length vs] else [])"
proof -
  have "filter (\<lambda>i. valid_value V k ((vs @ [v]) ! i)) [0..<length vs] = valid_idx V k vs"
    unfolding valid_idx_def by (rule filter_cong) (auto simp: nth_append)
  then show ?thesis by (simp add: valid_idx_def)
qed

lemma valid_idx_nth:
  assumes "j < length (valid_idx V k vs)"
  shows "valid_idx V k vs ! j < length vs \<and> valid_value V k (vs ! (valid_idx V k vs ! j))"
  using nth_mem [OF assms] by (simp add: valid_idx_def)

lemma valid_idx_empty: "valid_idx V k vs = [] \<longleftrightarrow> (\<forall>v \<in> set vs. \<not> valid_value V k v)"
  by (auto simp: valid_idx_def filter_empty_conv all_set_conv_all_nth)

definition collected ::
  "validator \<Rightarrow> bytes \<Rightarrow> 'm any list \<Rightarrow> (int, int) gomap \<times> bytes list \<Rightarrow> bool" where
  "collected V k vs s \<longleftrightarrow>
     snd s = map (\<lambda>i. any_bytes (vs ! i)) (valid_idx V k vs) \<and>
     (\<forall>j. map_of (fst s) j =
        (if 0 \<le> j \<and> nat j < length (valid_idx V k vs) then Some (int (valid_idx V k vs ! nat j)) else None))"

lemma collected_snoc:
  assumes "collected V k vs (orig, valid)"
  shows "collected V k (vs @ [v])
           (if valid_value V k v
            then (AList.update (int (length valid)) (int (length vs)) orig, valid @ [any_bytes v])
            else (orig, valid))"
proof -
  have lt: "x < length vs" if "x \<in> set (valid_idx V k vs)" for x
    using that by (simp add: valid_idx_def)
  have len: "length valid = length (valid_idx V k vs)"
    using assms by (simp add: collected_def)
  show ?thesis
    using assms len
    by (auto simp: collected_def valid_idx_snoc nth_append less_Suc_eq dest: lt)
qed

lemma collect_valid_collected:
  assumes "collected V k pre s"
  shows "collected V k (pre @ vs) (collect_valid V k (int (length pre)) vs s)"
  using assms
proof (induction vs arbitrary: pre s)
  case (Cons v vs)
  obtain orig valid where s: "s = (orig, valid)" by (cases s)
  let ?s' = "if valid_value V k v
    then (AList.update (int (length valid)) (int (length pre)) orig, valid @ [any_bytes v])
    else (orig, valid)"
  have "collect_valid V k (int (length pre)) (v # vs) s =
      collect_valid V k (int (length (pre @ [v]))) vs ?s'"
    by (cases v) (auto simp: s valid_value_def add.commute split: option.split)
  moreover have "collected V k (pre @ [v]) ?s'"
    using collected_snoc Cons.prems s by blast
  from Cons.IH [OF this] have
    "collected V k (pre @ v # vs) (collect_valid V k (int (length (pre @ [v]))) vs ?s')" by simp
  ultimately show ?case by simp
qed simp

text \<open>
  The specification: a single value must be valid, of several the validator selects among the
  valid ones.
\<close>

definition rb_Validate_spec :: "validator \<Rightarrow> bytes \<Rightarrow> 'm any list \<Rightarrow> goerr + int" where
  "rb_Validate_spec V k vs =
     (if valid_idx V k vs = [] then Inl (Errorf ''no valid values'')
      else
        (case v_Select V k (map (\<lambda>i. any_bytes (vs ! i)) (valid_idx V k vs)) of
           Inl err \<Rightarrow> Inl err
         | Inr sel \<Rightarrow>
             Inr (if 0 \<le> sel \<and> nat sel < length (valid_idx V k vs)
                  then int (valid_idx V k vs ! nat sel) else 0)))"

lemma rb_Validate_many:
  assumes "length vs \<noteq> 1"
  shows "rb_Validate V ns key vs = rb_Validate_spec V (newRoutingKey ns key) vs"
proof -
  let ?k = "newRoutingKey ns key"
  obtain orig valid where c: "collect_valid V ?k 0 vs ([], []) = (orig, valid)"
    by (cases "collect_valid V ?k 0 vs ([], [])")
  have "collected V ?k [] ([], [])" by (simp add: collected_def valid_idx_def)
  from collect_valid_collected [OF this, of vs] have "collected V ?k vs (orig, valid)"
    by (simp add: c)
  then show ?thesis
    using assms
    by (auto simp: rb_Validate_def rb_Validate_spec_def Let_def c collected_def go_get0_def
        split: sum.split)
qed

lemma rb_Validate_single:
  "rb_Validate V ns key [v] =
     (case v of
        AnyBytes data \<Rightarrow>
          (case v_Validate V (newRoutingKey ns key) data of Some err \<Rightarrow> Inl err | None \<Rightarrow> Inr 0)
      | _ \<Rightarrow> Inl (Errorf ''value not byte slice''))"
  by (simp add: rb_Validate_def)

lemma rb_Validate_single_valid:
  "(\<exists>i. rb_Validate V ns key [v] = Inr i) \<longleftrightarrow> valid_value V (newRoutingKey ns key) v"
  by (cases v) (auto simp: rb_Validate_single valid_value_def split: option.split)

lemma rb_Validate_single_0: "rb_Validate V ns key [v] = Inr i \<Longrightarrow> i = 0"
  by (cases v) (auto simp: rb_Validate_single split: option.splits)

text \<open>A validator whose selection is one of the values it was given.\<close>

definition select_in_range :: "validator \<Rightarrow> bool" where
  "select_in_range V \<longleftrightarrow>
     (\<forall>k ds i. v_Select V k ds = Inr i \<longrightarrow> 0 \<le> i \<and> nat i < length ds)"

lemma rb_Validate_index:
  assumes "select_in_range V" and "rb_Validate V ns key vs = Inr i"
  shows "0 \<le> i \<and> nat i < length vs \<and> valid_value V (newRoutingKey ns key) (vs ! nat i)"
proof (cases "length vs = 1")
  case True
  then obtain v where v: "vs = [v]" by (auto simp: length_Suc_conv)
  then have "i = 0" "valid_value V (newRoutingKey ns key) v"
    using rb_Validate_single_0 rb_Validate_single_valid assms(2) by blast+
  then show ?thesis by (simp add: v)
next
  case False
  let ?k = "newRoutingKey ns key"
  obtain sel where sel:
    "v_Select V ?k (map (\<lambda>j. any_bytes (vs ! j)) (valid_idx V ?k vs)) = Inr sel"
    "i = (if 0 \<le> sel \<and> nat sel < length (valid_idx V ?k vs) then int (valid_idx V ?k vs ! nat sel) else 0)"
    using assms(2) unfolding rb_Validate_many [OF False]
    by (auto simp: rb_Validate_spec_def split: if_splits sum.splits)
  then have "0 \<le> sel \<and> nat sel < length (valid_idx V ?k vs)"
    using assms(1) unfolding select_in_range_def by (metis length_map)
  then show ?thesis using sel(2) valid_idx_nth [of "nat sel" V ?k vs] by simp
qed

text \<open>Value backends keep the contract too, whatever the namespace and the validator.\<close>

lemma records_contract:
  assumes "select_in_range V"
  shows "backend_contract (rb_Store E now) (rb_Validate V ns) is_record
           (\<lambda>key. valid_value V (newRoutingKey ns key)) (\<lambda>r. r)"
proof (unfold_locales, goal_cases)
  case (1 v w k)
  then show ?case by (cases v) (simp_all add: rb_Store_def)
next
  case (2 k v i)
  then show ?case using rb_Validate_single_0 rb_Validate_single_valid by blast
next
  case (3 k v)
  then show ?case using rb_Validate_single_0 rb_Validate_single_valid by metis
next
  case (4 vs k i)
  then show ?case using rb_Validate_index [OF assms] by blast
next
  case (5 vs k)
  show ?case
  proof (cases "length vs = 1")
    case True
    then obtain v where v: "vs = [v]" by (auto simp: length_Suc_conv)
    then show ?thesis
      using 5 rb_Validate_single_valid [of V ns k v] by (cases "rb_Validate V ns k vs") auto
  next
    case False
    have "valid_idx V (newRoutingKey ns k) vs = []" using 5 by (simp add: valid_idx_empty)
    then show ?thesis by (simp add: rb_Validate_many [OF False] rb_Validate_spec_def)
  qed
qed

end
