(* ===== verification/ProvidersBackend.thy ===== *)
theory ProvidersBackend
  imports Datastore
begin

text \<open>
  The backend for provider records, \<open>backend_provider.go\<close>. Its state is the record
  \<open>ProvidersBackend\<close> below: the LRU cache, the host's address book, the datastore, the skip
  set of the garbage collector and whether the collector runs. The cache
  (\<open>golang-lru\<close>) and the address book (the host's peerstore) are libraries, fields of
  \<open>prov_env\<close> next to the datastore's.

  A cached \<open>providerSet\<close> is a copy of the struct whose map \<open>set\<close> is shared, so the
  maps live in a heap (\<open>pb_heap\<close>) and the struct holds an index into it.

  Logging and the cache hit metric have no effect on the results and are left out. The clock is
  an argument: one reading for each call of \<open>time.Now\<close>.
\<close>

section \<open>State\<close>

record ('m, 'ds, 'tx, 'ab, 'c) prov_env = "('ds, 'tx) ds_env" +
  ab_AddAddrs :: "'ab \<Rightarrow> peer_id \<Rightarrow> 'm list \<Rightarrow> int \<Rightarrow> 'ab"
  ab_Addrs :: "'ab \<Rightarrow> peer_id \<Rightarrow> 'm list"
  lru_Get :: "'c \<Rightarrow> bytes \<Rightarrow> 'm providerSet option \<times> 'c"
  lru_Add :: "'c \<Rightarrow> bytes \<Rightarrow> 'm providerSet \<Rightarrow> 'c"
  lru_Remove :: "'c \<Rightarrow> bytes \<Rightarrow> 'c"
  lru_Purge :: "'c \<Rightarrow> 'c"

record 'm ProvidersBackendConfig =
  ProvideValidity :: int
  AddressTTL :: int
  CacheSize :: int
  GCInterval :: int
  AddressFilter :: "'m list \<Rightarrow> 'm list"

definition DefaultProviderBackendConfig :: "'m ProvidersBackendConfig" where
  "DefaultProviderBackendConfig =
     \<lparr>ProvideValidity = 48 * Hour, AddressTTL = 24 * Hour, CacheSize = 256, GCInterval = Hour,
      AddressFilter = (\<lambda>maddrs. maddrs)\<rparr>"

record ('m, 'ds, 'ab, 'c) ProvidersBackend =
  pb_namespace :: bytes
  pb_cfg :: "'m ProvidersBackendConfig"
  pb_cache :: 'c
  pb_addrBook :: 'ab
  pb_datastore :: 'ds
  pb_gcSkip :: "bytes set"
  pb_gcRunning :: bool
  pb_heap :: heap

text \<open>
  \<open>NewBackendProvider\<close>; \<open>lru.New\<close> (an argument) fails for a size that is not
  positive. A nil configuration is replaced by the default.
\<close>

definition NewBackendProvider ::
  "(int \<Rightarrow> goerr + 'c) \<Rightarrow> 'ab \<Rightarrow> 'ds \<Rightarrow> 'm ProvidersBackendConfig option
     \<Rightarrow> goerr + ('m, 'ds, 'ab, 'c) ProvidersBackend" where
  "NewBackendProvider lru_New pstore dstore cfg =
     (let cfg = (case cfg of None \<Rightarrow> DefaultProviderBackendConfig | Some c \<Rightarrow> c)
      in case lru_New (CacheSize cfg) of
           Inl e \<Rightarrow> Inl e
         | Inr cache \<Rightarrow>
             Inr \<lparr>pb_namespace = namespaceProviders, pb_cfg = cfg, pb_cache = cache,
                  pb_addrBook = pstore, pb_datastore = dstore, pb_gcSkip = {},
                  pb_gcRunning = False, pb_heap = []\<rparr>)"

section \<open>providerSet\<close>

text \<open>
  \<open>addProvider\<close> on a struct value: the slice of the receiver grows, the shared map is
  written in place.
\<close>

definition addProvider ::
  "heap \<Rightarrow> 'm providerSet \<Rightarrow> 'm addr_info \<Rightarrow> int \<Rightarrow> heap \<times> 'm providerSet" where
  "addProvider h ps addrInfo t =
     (let m = h ! ps_set ps;
          found = (map_of m (ai_ID addrInfo) \<noteq> None);
          ps' = (if \<not> found then ps\<lparr>providers := providers ps @ [addrInfo]\<rparr> else ps)
      in (h[ps_set ps := AList.update (ai_ID addrInfo) t m], ps'))"

section \<open>Store, Fetch, Validate\<close>

text \<open>\<open>delete\<close> logs an error and goes on.\<close>

definition pb_delete ::
  "('m, 'ds, 'tx, 'ab, 'c, 'z) prov_env_scheme \<Rightarrow> 'ds \<Rightarrow> bytes \<Rightarrow> 'ds" where
  "pb_delete E d dsKey = snd (ds_Delete E d dsKey)"

definition pb_Store ::
  "('m, 'ds, 'tx, 'ab, 'c, 'z) prov_env_scheme \<Rightarrow> int \<Rightarrow> ('m, 'ds, 'ab, 'c) ProvidersBackend
     \<Rightarrow> bytes \<Rightarrow> 'm any \<Rightarrow> (goerr + 'm any) \<times> ('m, 'ds, 'ab, 'c) ProvidersBackend" where
  "pb_Store E now p key value =
     (case value of
        AnyAddrInfo addrInfo \<Rightarrow>
          (let rec = \<lparr>expiry = now\<rparr>;
               cacheKey = newDatastoreKey E (pb_namespace p) [key];
               dsKey = newDatastoreKey E (pb_namespace p) [key, ai_ID addrInfo];
               (hit, cache) = lru_Get E (pb_cache p) cacheKey;
               heap = (case hit of
                         Some provs \<Rightarrow> fst (addProvider (pb_heap p) provs addrInfo (expiry rec))
                       | None \<Rightarrow> pb_heap p);
               filtered = AddressFilter (pb_cfg p) (ai_Addrs addrInfo);
               book = ab_AddAddrs E (pb_addrBook p) (ai_ID addrInfo) filtered (AddressTTL (pb_cfg p));
               found = (dsKey \<in> pb_gcSkip p);
               skip = insert dsKey (pb_gcSkip p);
               (err, dstore) = ds_Put E (pb_datastore p) dsKey (MarshalBinary rec);
               p' = p\<lparr>pb_cache := cache, pb_heap := heap, pb_addrBook := book, pb_gcSkip := skip,
                      pb_datastore := dstore\<rparr>
           in case err of
                Some e \<Rightarrow>
                  (Inl (Wrapf ''datastore put'' e),
                   p'\<lparr>pb_cache := lru_Remove E cache cacheKey,
                      pb_gcSkip := (if \<not> found then skip - {dsKey} else skip)\<rparr>)
              | None \<Rightarrow> (Inr (AnyAddrInfo addrInfo), p'))
      | _ \<Rightarrow> (Inl (Errorf ''expected peer.AddrInfo value type''), p))"

text \<open>
  The loop of \<open>Fetch\<close> over the query results. Its state is the datastore (expired and
  corrupt entries are deleted), the heap and the set built so far.
\<close>

fun fetch_loop ::
  "('m, 'ds, 'tx, 'ab, 'c, 'z) prov_env_scheme \<Rightarrow> 'm ProvidersBackendConfig \<Rightarrow> 'ab \<Rightarrow> int
     \<Rightarrow> entry list \<Rightarrow> 'ds \<times> heap \<times> 'm providerSet \<Rightarrow> 'ds \<times> heap \<times> 'm providerSet" where
  "fetch_loop E cfg book now [] s = s"
| "fetch_loop E cfg book now ((k, Inl err) # es) s = fetch_loop E cfg book now es s"
| "fetch_loop E cfg book now ((k, Inr v) # es) (d, h, out) =
     (case UnmarshalBinary v of
        Inl err \<Rightarrow> fetch_loop E cfg book now es (pb_delete E d k, h, out)
      | Inr rec \<Rightarrow>
          if time_Sub now (expiry rec) > ProvideValidity cfg
          then fetch_loop E cfg book now es (pb_delete E d k, h, out)
          else
            (case b32_decode E (after_last_slash k) of
               Inl err \<Rightarrow> fetch_loop E cfg book now es (pb_delete E d k, h, out)
             | Inr binPeerID \<Rightarrow>
                 (let maddrs = ab_Addrs E book binPeerID;
                      addrInfo = \<lparr>ai_ID = binPeerID, ai_Addrs = AddressFilter cfg maddrs\<rparr>;
                      (h', out') = addProvider h out addrInfo (expiry rec)
                  in fetch_loop E cfg book now es (d, h', out'))))"

definition pb_Fetch ::
  "('m, 'ds, 'tx, 'ab, 'c, 'z) prov_env_scheme \<Rightarrow> int \<Rightarrow> ('m, 'ds, 'ab, 'c) ProvidersBackend
     \<Rightarrow> bytes \<Rightarrow> (goerr + 'm any) \<times> ('m, 'ds, 'ab, 'c) ProvidersBackend" where
  "pb_Fetch E now p key =
     (let qKey = newDatastoreKey E (pb_namespace p) [key];
          (hit, cache) = lru_Get E (pb_cache p) qKey
      in case hit of
           Some cached \<Rightarrow> (Inr (AnyProviderSet cached), p\<lparr>pb_cache := cache\<rparr>)
         | None \<Rightarrow>
             (case ds_Query E (pb_datastore p) qKey of
                Inl err \<Rightarrow> (Inl err, p\<lparr>pb_cache := cache\<rparr>)
              | Inr es \<Rightarrow>
                  (let h = pb_heap p @ [[]];
                       out = \<lparr>providers = [], ps_set = length (pb_heap p)\<rparr>;
                       (d', h', out') =
                         fetch_loop E (pb_cfg p) (pb_addrBook p) now es (pb_datastore p, h, out);
                       p' = p\<lparr>pb_cache := cache, pb_datastore := d', pb_heap := h'\<rparr>
                   in if length (providers out') = 0 then (Inl ErrNotFound, p')
                      else (Inr (AnyProviderSetPtr out'),
                            p'\<lparr>pb_cache := lru_Add E cache qKey out'\<rparr>))))"

text \<open>The loop of \<open>Validate\<close>: the index so far, \<open>-1\<close> for none.\<close>

fun validate_loop :: "nat \<Rightarrow> 'm any list \<Rightarrow> (int \<times> 'm addr_info) option \<Rightarrow> int option" where
  "validate_loop i [] best = map_option fst best"
| "validate_loop i (v # vs) best =
     (case v of
        AnyAddrInfo addrInfo \<Rightarrow>
          (case best of
             None \<Rightarrow> validate_loop (i + 1) vs (Some (int i, addrInfo))
           | Some (b, bestInfo) \<Rightarrow>
               if length (ai_Addrs bestInfo) < length (ai_Addrs addrInfo)
               then validate_loop (i + 1) vs (Some (int i, addrInfo))
               else validate_loop (i + 1) vs best)
      | _ \<Rightarrow> validate_loop (i + 1) vs best)"

definition pb_Validate :: "bytes \<Rightarrow> 'm any list \<Rightarrow> goerr + int" where
  "pb_Validate key values =
     (if length values = 1 then
        (case hd values of
           AnyAddrInfo _ \<Rightarrow> Inr 0
         | _ \<Rightarrow> Inl (Errorf ''invalid type''))
      else
        (case validate_loop 0 values None of
           None \<Rightarrow> Inl (Errorf ''no value of correct type'')
         | Some bestIdx \<Rightarrow> Inr bestIdx))"

section \<open>Garbage collection\<close>

text \<open>
  \<open>collectGarbage\<close>. Other goroutines may add to the skip set while the loop runs, and each
  entry reads the clock again, so the loop takes the skip set and the time seen at the \<open>i\<close>-th
  entry. An entry that cannot be parsed is deleted twice, as the code does.
\<close>

fun gc_loop ::
  "('m, 'ds, 'tx, 'ab, 'c, 'z) prov_env_scheme \<Rightarrow> int \<Rightarrow> (nat \<Rightarrow> bytes set) \<Rightarrow> (nat \<Rightarrow> int)
     \<Rightarrow> nat \<Rightarrow> entry list \<Rightarrow> 'ds \<Rightarrow> 'ds" where
  "gc_loop E validity skip clk i [] d = d"
| "gc_loop E validity skip clk i ((k, Inl err) # es) d =
     gc_loop E validity skip clk (i + 1) es d"
| "gc_loop E validity skip clk i ((k, Inr v) # es) d =
     (if k \<in> skip i then gc_loop E validity skip clk (i + 1) es d
      else
        (case UnmarshalBinary v of
           Inl err \<Rightarrow> gc_loop E validity skip clk (i + 1) es (pb_delete E (pb_delete E d k) k)
         | Inr rec \<Rightarrow>
             if time_Sub (clk i) (expiry rec) \<le> validity
             then gc_loop E validity skip clk (i + 1) es d
             else gc_loop E validity skip clk (i + 1) es (pb_delete E d k)))"

definition collectGarbage ::
  "('m, 'ds, 'tx, 'ab, 'c, 'z) prov_env_scheme \<Rightarrow> (nat \<Rightarrow> bytes set) \<Rightarrow> (nat \<Rightarrow> int)
     \<Rightarrow> ('m, 'ds, 'ab, 'c) ProvidersBackend \<Rightarrow> ('m, 'ds, 'ab, 'c) ProvidersBackend" where
  "collectGarbage E skip clk p =
     (let p1 = p\<lparr>pb_cache := lru_Purge E (pb_cache p), pb_gcSkip := {}\<rparr>
      in case ds_Query E (pb_datastore p1) (pb_namespace p1) of
           Inl err \<Rightarrow> p1
         | Inr es \<Rightarrow>
             p1\<lparr>pb_datastore :=
                  gc_loop E (ProvideValidity (pb_cfg p1)) skip clk 0 es (pb_datastore p1)\<rparr>)"

text \<open>
  The collection loop is started at most once; stopping waits for it. Both are no-ops when there
  is nothing to do. Closing the backend stops the loop.
\<close>

definition StartGarbageCollection ::
  "('m, 'ds, 'ab, 'c) ProvidersBackend \<Rightarrow> ('m, 'ds, 'ab, 'c) ProvidersBackend" where
  "StartGarbageCollection p = (if pb_gcRunning p then p else p\<lparr>pb_gcRunning := True\<rparr>)"

definition StopGarbageCollection ::
  "('m, 'ds, 'ab, 'c) ProvidersBackend \<Rightarrow> ('m, 'ds, 'ab, 'c) ProvidersBackend" where
  "StopGarbageCollection p = (if \<not> pb_gcRunning p then p else p\<lparr>pb_gcRunning := False\<rparr>)"

definition pb_Close ::
  "('m, 'ds, 'ab, 'c) ProvidersBackend \<Rightarrow> goerr option \<times> ('m, 'ds, 'ab, 'c) ProvidersBackend" where
  "pb_Close p = (None, StopGarbageCollection p)"

section \<open>providerSet: no duplicates\<close>

text \<open>A set that is not aliased: its map holds exactly the identities of its providers.\<close>

definition ps_ok :: "heap \<Rightarrow> 'm providerSet \<Rightarrow> bool" where
  "ps_ok h ps \<longleftrightarrow> ps_set ps < length h \<and>
     dom (map_of (h ! ps_set ps)) = ai_ID ` set (providers ps) \<and>
     distinct (map ai_ID (providers ps))"

lemma ps_ok_new: "ps_ok (h @ [[]]) \<lparr>providers = [], ps_set = length h\<rparr>"
  by (simp add: ps_ok_def)

lemma ps_ok_found:
  "ps_ok h ps \<Longrightarrow> map_of (h ! ps_set ps) i = None \<longleftrightarrow> i \<notin> ai_ID ` set (providers ps)"
  by (auto simp: ps_ok_def)

lemma addProvider_providers:
  "ps_ok h ps \<Longrightarrow> providers (snd (addProvider h ps a t)) =
     (if ai_ID a \<in> ai_ID ` set (providers ps) then providers ps else providers ps @ [a])"
  using ps_ok_found [of h ps "ai_ID a"] by (auto simp: addProvider_def Let_def)

lemma addProvider_frame:
  "ps_set (snd (addProvider h ps a t)) = ps_set ps"
  "length (fst (addProvider h ps a t)) = length h"
  "r \<noteq> ps_set ps \<Longrightarrow> fst (addProvider h ps a t) ! r = h ! r"
  by (simp_all add: addProvider_def Let_def)

lemma addProvider_ok:
  assumes "ps_ok h ps"
  shows "ps_ok (fst (addProvider h ps a t)) (snd (addProvider h ps a t))"
  using assms addProvider_providers [OF assms, of a t]
  by (auto simp: ps_ok_def addProvider_def Let_def)

section \<open>The loop of Fetch\<close>

text \<open>
  What an entry of a query contributes: the identity of a live provider, or nothing where the
  entry is expired or cannot be read, and then the loop deletes it.
\<close>

fun entry_provider ::
  "('m, 'ds, 'tx, 'ab, 'c, 'z) prov_env_scheme \<Rightarrow> int \<Rightarrow> int \<Rightarrow> entry \<Rightarrow> peer_id option" where
  "entry_provider E validity now (k, Inl err) = None"
| "entry_provider E validity now (k, Inr v) =
     (case UnmarshalBinary v of
        Inl err \<Rightarrow> None
      | Inr rec \<Rightarrow>
          if time_Sub now (expiry rec) > validity then None
          else (case b32_decode E (after_last_slash k) of Inl err \<Rightarrow> None | Inr i \<Rightarrow> Some i))"

definition live_ids ::
  "('m, 'ds, 'tx, 'ab, 'c, 'z) prov_env_scheme \<Rightarrow> int \<Rightarrow> int \<Rightarrow> entry list \<Rightarrow> peer_id list" where
  "live_ids E validity now es = List.map_filter (entry_provider E validity now) es"

fun is_error_entry :: "entry \<Rightarrow> bool" where
  "is_error_entry (k, Inl e) = True"
| "is_error_entry (k, Inr v) = False"

definition dead_keys ::
  "('m, 'ds, 'tx, 'ab, 'c, 'z) prov_env_scheme \<Rightarrow> int \<Rightarrow> int \<Rightarrow> entry list \<Rightarrow> bytes list" where
  "dead_keys E validity now es =
     map fst (filter (\<lambda>e. \<not> is_error_entry e \<and> entry_provider E validity now e = None) es)"

text \<open>The first occurrence of every identity that is not already there.\<close>

fun fresh_ids :: "peer_id set \<Rightarrow> peer_id list \<Rightarrow> peer_id list" where
  "fresh_ids seen [] = []"
| "fresh_ids seen (x # xs) =
     (if x \<in> seen then fresh_ids seen xs else x # fresh_ids (insert x seen) xs)"

lemma set_fresh_ids: "set (fresh_ids seen xs) = set xs - seen"
  by (induction seen xs rule: fresh_ids.induct) auto

lemma distinct_fresh_ids: "distinct (fresh_ids seen xs)"
  by (induction seen xs rule: fresh_ids.induct) (auto simp: set_fresh_ids)

definition mk_info ::
  "('m, 'ds, 'tx, 'ab, 'c, 'z) prov_env_scheme \<Rightarrow> 'm ProvidersBackendConfig \<Rightarrow> 'ab \<Rightarrow> peer_id
     \<Rightarrow> 'm addr_info" where
  "mk_info E cfg book i = \<lparr>ai_ID = i, ai_Addrs = AddressFilter cfg (ab_Addrs E book i)\<rparr>"

lemma ai_ID_mk_info [simp]: "ai_ID (mk_info E cfg book i) = i"
  by (simp add: mk_info_def)

definition delete_all ::
  "('m, 'ds, 'tx, 'ab, 'c, 'z) prov_env_scheme \<Rightarrow> bytes list \<Rightarrow> 'ds \<Rightarrow> 'ds" where
  "delete_all E ks d = fold (\<lambda>k d. pb_delete E d k) ks d"

lemma delete_all_simps [simp]:
  "delete_all E [] d = d"
  "delete_all E (k # ks) d = delete_all E ks (pb_delete E d k)"
  by (simp_all add: delete_all_def)

lemma live_dead_simps [simp]:
  "live_ids E v now [] = []"
  "live_ids E v now (e # es) =
     (case entry_provider E v now e of None \<Rightarrow> live_ids E v now es | Some i \<Rightarrow> i # live_ids E v now es)"
  "dead_keys E v now [] = []"
  "dead_keys E v now (e # es) =
     (if \<not> is_error_entry e \<and> entry_provider E v now e = None then fst e # dead_keys E v now es
      else dead_keys E v now es)"
  by (simp_all add: live_ids_def dead_keys_def List.map_filter_def split: option.split)

lemma fetch_loop_spec:
  assumes "ps_ok h out" and "fetch_loop E cfg book now es (d, h, out) = (d', h', out')"
  shows "d' = delete_all E (dead_keys E (ProvideValidity cfg) now es) d \<and>
         providers out' = providers out @
           map (mk_info E cfg book)
             (fresh_ids (ai_ID ` set (providers out)) (live_ids E (ProvideValidity cfg) now es)) \<and>
         ps_ok h' out' \<and> ps_set out' = ps_set out"
  using assms
proof (induction es arbitrary: d h out)
  case Nil
  then show ?case by simp
next
  case (Cons e es)
  obtain k r where e: "e = (k, r)" by (cases e)
  show ?case
  proof (cases "\<exists>v. r = Inr v \<and> entry_provider E (ProvideValidity cfg) now e \<noteq> None")
    case False
    then show ?thesis
      using Cons.prems Cons.IH [OF Cons.prems(1)] e
      by (cases r) (auto split: sum.splits if_splits)
  next
    case True
    then obtain v i rec where v: "r = Inr v" and i: "entry_provider E (ProvideValidity cfg) now e = Some i"
      and rec: "UnmarshalBinary v = Inr rec" "\<not> time_Sub now (expiry rec) > ProvideValidity cfg"
        "b32_decode E (after_last_slash k) = Inr i"
      by (auto simp: e split: sum.splits if_splits)
    let ?a = "mk_info E cfg book i"
    obtain h1 out1 where add: "addProvider h out ?a (expiry rec) = (h1, out1)"
      by (cases "addProvider h out ?a (expiry rec)")
    have run: "fetch_loop E cfg book now es (d, h1, out1) = (d', h', out')"
      using Cons.prems(2) rec add by (simp add: e v mk_info_def)
    have ok1: "ps_ok h1 out1" using addProvider_ok [OF Cons.prems(1), of ?a "expiry rec"] add by simp
    have ps1: "providers out1 = (if i \<in> ai_ID ` set (providers out) then providers out
        else providers out @ [?a])" and "ps_set out1 = ps_set out"
      using addProvider_providers [OF Cons.prems(1), of ?a "expiry rec"] add
        addProvider_frame(1) [of h out ?a "expiry rec"] by simp_all
    then show ?thesis
      using Cons.IH [OF ok1 run] i v e by (auto simp: insert_absorb)
  qed
qed

lemma delete_content:
  assumes "datastore_laws E content"
  shows "content (pb_delete E d k) j = content d j \<or> j = k \<and> content (pb_delete E d k) j = None"
  using ds_Delete_content [OF assms, of d k "fst (ds_Delete E d k)" "pb_delete E d k"]
  by (auto simp: pb_delete_def split: if_splits)

lemma delete_all_content:
  assumes "datastore_laws E content"
  shows "content (delete_all E ks d) j = content d j \<or>
         j \<in> set ks \<and> content (delete_all E ks d) j = None"
proof (induction ks arbitrary: d)
  case (Cons k ks)
  show ?case
    using Cons [of "pb_delete E d k"] delete_content [OF assms, of d k j] by auto
qed simp

text \<open>Deletions that do not fail really delete.\<close>

lemma delete_all_removes:
  assumes "datastore_laws E content" and "\<And>d k. fst (ds_Delete E d k) = None"
  shows "content (delete_all E ks d) j = (if j \<in> set ks then None else content d j)"
proof (induction ks arbitrary: d)
  case (Cons k ks)
  have "content (pb_delete E d k) = (content d)(k := None)"
    using ds_Delete_content [OF assms(1), of d k None "pb_delete E d k"] assms(2) [of d k]
    by (simp add: pb_delete_def prod_eq_iff)
  then show ?case using Cons [of "pb_delete E d k"] by simp
qed simp

section \<open>Validate picks the first value with the most addresses\<close>

text \<open>The best of the values seen so far, and its index.\<close>

definition is_best :: "'m any list \<Rightarrow> (int \<times> 'm addr_info) option \<Rightarrow> bool" where
  "is_best vs best \<longleftrightarrow>
     (case best of
        None \<Rightarrow> \<forall>v \<in> set vs. \<not> is_addr_info v
      | Some (i, a) \<Rightarrow>
          0 \<le> i \<and> nat i < length vs \<and> vs ! nat i = AnyAddrInfo a \<and>
          (\<forall>j c. j < length vs \<longrightarrow> vs ! j = AnyAddrInfo c \<longrightarrow>
             length (ai_Addrs c) \<le> length (ai_Addrs a) \<and>
             (length (ai_Addrs c) = length (ai_Addrs a) \<longrightarrow> nat i \<le> j)))"

lemma is_addr_info_iff: "is_addr_info v \<longleftrightarrow> (\<exists>a. v = AnyAddrInfo a)"
  by (cases v) auto

lemma is_best_skip:
  assumes "is_best vs best" and "\<not> is_addr_info v"
  shows "is_best (vs @ [v]) best"
  using assms by (auto simp: is_best_def nth_append less_Suc_eq split: option.splits)

lemma is_best_first:
  assumes "is_best vs None"
  shows "is_best (vs @ [AnyAddrInfo a]) (Some (int (length vs), a))"
  using assms by (auto simp: is_best_def nth_append less_Suc_eq is_addr_info_iff)

lemma is_best_better:
  assumes "is_best vs (Some (i, b))" and "length (ai_Addrs b) < length (ai_Addrs a)"
  shows "is_best (vs @ [AnyAddrInfo a]) (Some (int (length vs), a))"
  using assms by (force simp: is_best_def nth_append less_Suc_eq)

lemma is_best_keep:
  assumes "is_best vs (Some (i, b))" and "length (ai_Addrs a) \<le> length (ai_Addrs b)"
  shows "is_best (vs @ [AnyAddrInfo a]) (Some (i, b))"
  using assms by (force simp: is_best_def nth_append less_Suc_eq)

lemma validate_loop_best:
  assumes "is_best pre best"
  shows "\<exists>best'. is_best (pre @ vs) best' \<and> validate_loop (length pre) vs best = map_option fst best'"
  using assms
proof (induction vs arbitrary: pre best)
  case Nil
  then show ?case by auto
next
  case (Cons v vs)
  have step: ?case if "is_best (pre @ [v]) b'" and
    "validate_loop (length pre) (v # vs) best = validate_loop (length (pre @ [v])) vs b'" for b'
    using Cons.IH [OF that(1)] that(2) by simp
  show ?case
  proof (cases "is_addr_info v")
    case False
    then show ?thesis by (intro step [OF is_best_skip [OF Cons.prems]]) (cases v; simp)+
  next
    case True
    then obtain a where v: "v = AnyAddrInfo a" by (auto simp: is_addr_info_iff)
    show ?thesis
    proof (cases best)
      case None
      then show ?thesis
        using is_best_first Cons.prems v by (intro step [of "Some (int (length pre), a)"]) auto
    next
      case (Some ib)
      obtain i b where ib: "ib = (i, b)" by (cases ib)
      show ?thesis
      proof (cases "length (ai_Addrs b) < length (ai_Addrs a)")
        case True
        then show ?thesis
          using is_best_better Cons.prems v Some ib
          by (intro step [of "Some (int (length pre), a)"]) auto
      next
        case False
        then show ?thesis
          using is_best_keep [of pre i b a] Cons.prems v Some ib by (intro step [of best]) auto
      qed
    qed
  qed
qed

lemma pb_Validate_best:
  "\<exists>best. is_best vs best \<and>
     (case best of None \<Rightarrow> \<exists>e. pb_Validate k vs = Inl e | Some (i, a) \<Rightarrow> pb_Validate k vs = Inr i)"
proof (cases "length vs = 1")
  case True
  then obtain v where v: "vs = [v]" by (auto simp: length_Suc_conv)
  show ?thesis
  proof (cases "is_addr_info v")
    case True
    then obtain a where "v = AnyAddrInfo a" by (auto simp: is_addr_info_iff)
    then show ?thesis
      using v by (intro exI [of _ "Some (0, a)"]) (simp add: is_best_def pb_Validate_def)
  next
    case False
    then show ?thesis
      using v by (intro exI [of _ None]) (cases v; simp add: is_best_def pb_Validate_def)
  qed
next
  case False
  have "is_best [] None" by (simp add: is_best_def)
  from validate_loop_best [OF this, of vs] obtain best where
    "is_best vs best" "validate_loop 0 vs None = map_option fst best" by auto
  then show ?thesis
    using False by (intro exI [of _ best]) (auto simp: pb_Validate_def split: option.split)
qed

lemma pb_Validate_Inr:
  assumes "pb_Validate k vs = Inr i"
  shows "\<exists>a. is_best vs (Some (i, a))"
  using pb_Validate_best [of vs k] assms by (auto split: option.splits)

lemma pb_Validate_none_iff:
  "(\<exists>e. pb_Validate k vs = Inl e) \<longleftrightarrow> (\<forall>v \<in> set vs. \<not> is_addr_info v)"
proof -
  obtain best where best: "is_best vs best"
    "case best of None \<Rightarrow> \<exists>e. pb_Validate k vs = Inl e | Some (i, a) \<Rightarrow> pb_Validate k vs = Inr i"
    using pb_Validate_best by blast
  show ?thesis
  proof (cases best)
    case None
    then show ?thesis using best by (simp add: is_best_def)
  next
    case (Some ia)
    then obtain i a where ia: "best = Some (i, a)" by (cases ia) simp
    then have "vs ! nat i \<in> set vs" "is_addr_info (vs ! nat i)"
      using best(1) nth_mem [of "nat i" vs] by (auto simp: is_best_def)
    then show ?thesis using best(2) ia by auto
  qed
qed

interpretation providers_contract:
  backend_contract "pb_Store E now" pb_Validate is_addr_info "\<lambda>_. is_addr_info" "\<lambda>p. p"
  for E :: "('m, 'ds, 'tx, 'ab, 'c, 'z) prov_env_scheme" and now
proof (unfold_locales, goal_cases)
  case (1 v w k)
  then show ?case by (cases v) (simp_all add: pb_Store_def)
next
  case (2 k v i)
  then show ?case by (cases v) (auto simp: pb_Validate_def)
next
  case 3
  then show ?case by (auto simp: pb_Validate_def is_addr_info_iff)
next
  case (4 vs k i)
  then show ?case using pb_Validate_Inr by (force simp: is_best_def)
next
  case (5 vs k)
  then show ?case using pb_Validate_none_iff by blast
qed

section \<open>Garbage collection\<close>

lemma delete_other: "datastore_laws E content \<Longrightarrow> j \<noteq> k \<Longrightarrow> content (pb_delete E d k) j = content d j"
  using delete_content [of E content d k j] by auto

lemma delete_None: "datastore_laws E content \<Longrightarrow> content d j = None \<Longrightarrow> content (pb_delete E d k) j = None"
  using delete_content [of E content d k j] by auto

lemma delete_works:
  "datastore_laws E content \<Longrightarrow> (\<And>d k. fst (ds_Delete E d k) = None) \<Longrightarrow> content (pb_delete E d k) k = None"
  using delete_all_removes [of E content "[k]" d k] by simp

text \<open>An entry the loop keeps: skipped, or parsed and within its validity, whenever it is seen.\<close>

definition gc_keeps ::
  "int \<Rightarrow> (nat \<Rightarrow> bytes set) \<Rightarrow> (nat \<Rightarrow> int) \<Rightarrow> bytes \<Rightarrow> bytes \<Rightarrow> bool" where
  "gc_keeps validity skip clk k v \<longleftrightarrow>
     (\<forall>i. k \<in> skip i \<or>
        (\<exists>rec. UnmarshalBinary v = Inr rec \<and> time_Sub (clk i) (expiry rec) \<le> validity))"

text \<open>An entry the loop deletes: not skipped, and corrupt or expired, whenever it is seen.\<close>

definition gc_drops ::
  "int \<Rightarrow> (nat \<Rightarrow> bytes set) \<Rightarrow> (nat \<Rightarrow> int) \<Rightarrow> bytes \<Rightarrow> bytes \<Rightarrow> bool" where
  "gc_drops validity skip clk k v \<longleftrightarrow>
     (\<forall>i. k \<notin> skip i \<and>
        ((\<exists>e. UnmarshalBinary v = Inl e) \<or>
         (\<exists>rec. UnmarshalBinary v = Inr rec \<and> time_Sub (clk i) (expiry rec) > validity)))"

text \<open>One turn of the loop, with the deletions it makes.\<close>

definition gc_step ::
  "('m, 'ds, 'tx, 'ab, 'c, 'z) prov_env_scheme \<Rightarrow> int \<Rightarrow> bytes set \<Rightarrow> int \<Rightarrow> entry \<Rightarrow> 'ds \<Rightarrow> 'ds" where
  "gc_step E validity skip now e d =
     (case snd e of
        Inl err \<Rightarrow> d
      | Inr v \<Rightarrow>
          if fst e \<in> skip then d
          else (case UnmarshalBinary v of
                  Inl err \<Rightarrow> pb_delete E (pb_delete E d (fst e)) (fst e)
                | Inr rec \<Rightarrow>
                    if time_Sub now (expiry rec) \<le> validity then d else pb_delete E d (fst e)))"

lemma gc_loop_step:
  "gc_loop E validity skip clk i (e # es) d =
     gc_loop E validity skip clk (Suc i) es (gc_step E validity (skip i) (clk i) e d)"
  by (cases e; cases "snd e") (simp_all add: gc_step_def split: sum.split)

lemma gc_step_content:
  assumes "datastore_laws E content"
  shows "fst e \<noteq> j \<Longrightarrow> content (gc_step E validity sk now e d) j = content d j"
    and "content d j = None \<Longrightarrow> content (gc_step E validity sk now e d) j = None"
  using assms
  by (auto simp: gc_step_def delete_other delete_None split: sum.split)

lemma gc_loop_keeps:
  assumes "datastore_laws E content"
    and "\<And>v. (j, Inr v) \<in> set es \<Longrightarrow> gc_keeps validity skip clk j v"
  shows "content (gc_loop E validity skip clk i es d) j = content d j"
  using assms(2)
proof (induction es arbitrary: i d)
  case (Cons e es)
  have "content (gc_step E validity (skip i) (clk i) e d) j = content d j"
  proof (cases "fst e = j \<and> (\<exists>v. snd e = Inr v)")
    case True
    then obtain v where e: "e = (j, Inr v)" by (cases e) auto
    then have "gc_keeps validity skip clk j v" using Cons.prems [of v] by simp
    then have "j \<in> skip i \<or>
        (\<exists>rec. UnmarshalBinary v = Inr rec \<and> time_Sub (clk i) (expiry rec) \<le> validity)"
      by (simp add: gc_keeps_def)
    then show ?thesis by (auto simp: gc_step_def e)
  next
    case False
    then consider "fst e \<noteq> j" | err where "snd e = Inl err" by (cases "snd e") auto
    then show ?thesis
    proof cases
      case 1
      then show ?thesis by (rule gc_step_content(1) [OF assms(1)])
    next
      case 2
      then show ?thesis by (simp add: gc_step_def)
    qed
  qed
  then show ?case
    using Cons.IH [of "Suc i" "gc_step E validity (skip i) (clk i) e d"] Cons.prems
    by (simp add: gc_loop_step)
qed simp

lemma gc_loop_None:
  assumes "datastore_laws E content" and "content d j = None"
  shows "content (gc_loop E validity skip clk i es d) j = None"
  using assms(2)
  by (induction es arbitrary: i d) (simp_all add: gc_loop_step gc_step_content(2) [OF assms(1)])

lemma gc_loop_drops:
  assumes laws: "datastore_laws E content" and ok: "\<And>d k. fst (ds_Delete E d k) = None"
    and "(j, Inr v) \<in> set es" and drop: "gc_drops validity skip clk j v"
  shows "content (gc_loop E validity skip clk i es d) j = None"
  using assms(3)
proof (induction es arbitrary: i d)
  case (Cons e es)
  show ?case
  proof (cases "e = (j, Inr v)")
    case True
    have "content (gc_step E validity (skip i) (clk i) e d) j = None"
      using drop [unfolded gc_drops_def, rule_format, of i] delete_works [OF laws ok]
      by (auto simp: gc_step_def True)
    then show ?thesis by (simp add: gc_loop_step gc_loop_None [OF laws])
  next
    case False
    then show ?thesis using Cons by (simp add: gc_loop_step)
  qed
qed simp


end
