(* ===== verification/Instances.thy ===== *)
theory Instances
  imports ProvidersBackend
begin

text \<open>
  Concrete libraries that satisfy the assumed behaviour: a datastore that is an association list,
  transactions on a copy of it, a cache without eviction, an address book that is an association
  list and an encoding of bytes as pairs of letters. They show that the assumptions can hold and
  are what the witnesses of the properties run on; nothing of the model depends on them.
\<close>

section \<open>An encoding\<close>

definition letters :: "char \<Rightarrow> char list" where
  "letters c = (let n = of_char c :: nat in [char_of (65 + n div 16), char_of (65 + n mod 16)])"

definition pair_encode :: "bytes \<Rightarrow> bytes" where
  "pair_encode b = concat (map letters b)"

fun pair_decode :: "bytes \<Rightarrow> goerr + bytes" where
  "pair_decode [] = Inr []"
| "pair_decode [a] = Inl (Errorf ''illegal data'')"
| "pair_decode (a # b # r) =
     (case pair_decode r of
        Inl e \<Rightarrow> Inl e
      | Inr s \<Rightarrow> Inr (char_of ((of_char a - 65) * 16 + (of_char b - 65) :: nat) # s))"

lemma letter_neq:
  assumes "n < 16" and "of_char c < (65 :: nat)"
  shows "c \<noteq> char_of (65 + n :: nat)"
proof
  assume "c = char_of (65 + n)"
  then have "of_char c = (65 + n) mod 256" by simp
  then show False using assms by simp
qed

lemma letters_clean: "CHR ''/'' \<notin> set (letters c) \<and> CHR ''.'' \<notin> set (letters c)"
proof -
  have "(of_char c :: nat) div 16 < 16" "(of_char c :: nat) mod 16 < 16"
    using nat_of_char_less_256 [of c] by (auto intro: less_mult_imp_div_less)
  then have "d \<noteq> char_of (65 + of_char c div 16 :: nat) \<and> d \<noteq> char_of (65 + of_char c mod 16 :: nat)"
    if "of_char d < (65 :: nat)" for d
    using letter_neq that by blast
  from this [of "CHR ''/''"] this [of "CHR ''.''"] show ?thesis
    by (simp add: letters_def Let_def)
qed

lemma pair_encode_clean: "b \<noteq> [] \<Longrightarrow> clean_part (pair_encode b)"
  using letters_clean by (cases b) (auto simp: clean_part_def pair_encode_def letters_def Let_def)

lemma pair_decode_letters:
  "pair_decode (letters c @ s) = (case pair_decode s of Inl e \<Rightarrow> Inl e | Inr r \<Rightarrow> Inr (c # r))"
proof -
  have "(of_char c :: nat) div 16 < 16"
    using nat_of_char_less_256 [of c] by (intro less_mult_imp_div_less) simp
  then show ?thesis by (simp add: letters_def Let_def split: sum.split)
qed

lemma pair_decode_encode: "pair_decode (pair_encode b) = Inr b"
  by (induction b) (simp_all add: pair_encode_def pair_decode_letters)

section \<open>The environment\<close>

type_synonym mem_ds = "(bytes, bytes) gomap"
type_synonym mem_ab = "(peer_id, bytes list) gomap"
type_synonym mem_lru = "(bytes, bytes providerSet) gomap"

definition mem_get :: "mem_ds \<Rightarrow> bytes \<Rightarrow> goerr + bytes" where
  "mem_get d k = (case map_of d k of None \<Rightarrow> Inl ErrNotFound | Some v \<Rightarrow> Inr v)"

definition mem_query :: "mem_ds \<Rightarrow> bytes \<Rightarrow> goerr + entry list" where
  "mem_query d p = Inr (map (\<lambda>(k, v). (k, Inr v)) (filter (\<lambda>(k, v). under p k) (AList.clearjunk d)))"

definition mem_env :: "(bytes, mem_ds, mem_ds, mem_ab, mem_lru) prov_env" where
  "mem_env =
     \<lparr>b32_encode = pair_encode, b32_decode = pair_decode, ds_NewKey = (\<lambda>s. s),
      ds_Put = (\<lambda>d k v. (None, AList.update k v d)), ds_Get = mem_get,
      ds_Delete = (\<lambda>d k. (None, AList.delete k d)), ds_Query = mem_query,
      ds_NewTransaction = Inr, tx_Get = mem_get,
      tx_Put = (\<lambda>x k v. (None, AList.update k v x)), tx_Commit = (\<lambda>d x. (None, x)),
      ab_AddAddrs = (\<lambda>b i as ttl. AList.update i
         ((case map_of b i of None \<Rightarrow> [] | Some bs \<Rightarrow> bs) @ as) b),
      ab_Addrs = (\<lambda>b i. case map_of b i of None \<Rightarrow> [] | Some as \<Rightarrow> as),
      lru_Get = (\<lambda>c k. (map_of c k, c)), lru_Add = (\<lambda>c k v. AList.update k v c),
      lru_Remove = (\<lambda>c k. AList.delete k c), lru_Purge = (\<lambda>c. [])\<rparr>"

lemma mem_env_simps [simp]:
  "ds_NewKey mem_env = (\<lambda>s. s)"
  "b32_encode mem_env = pair_encode" "b32_decode mem_env = pair_decode"
  "ds_Put mem_env d k v = (None, AList.update k v d)"
  "ds_Get mem_env = mem_get"
  "ds_Delete mem_env d k = (None, AList.delete k d)"
  "ds_Query mem_env = mem_query"
  "lru_Get mem_env c k = (map_of c k, c)"
  "lru_Add mem_env c k ps = AList.update k ps c"
  "lru_Remove mem_env c k = AList.delete k c"
  "lru_Purge mem_env c = []"
  "ab_Addrs mem_env ab i = (case map_of ab i of None \<Rightarrow> [] | Some as \<Rightarrow> as)"
  "ab_AddAddrs mem_env ab i as ttl = AList.update i
     ((case map_of ab i of None \<Rightarrow> [] | Some bs \<Rightarrow> bs) @ as) ab"
  by (simp_all add: mem_env_def)

lemma mem_env_lib: "lib_laws mem_env"
  by (simp add: lib_laws_def mem_env_def pair_decode_encode pair_encode_clean)

lemma mem_get_law: "get_law mem_get map_of d"
  by (auto simp: get_law_def mem_get_def split: option.splits)

lemma mem_query_entries:
  assumes "mem_query d p = Inr es"
  shows "map fst es = map fst (filter (\<lambda>(k, v). under p k) (AList.clearjunk d))"
    and "(k, r) \<in> set es \<longleftrightarrow> (\<exists>v. r = Inr v \<and> under p k \<and> map_of d k = Some v)"
proof -
  have es: "es = map (\<lambda>(k, v). (k, Inr v)) (filter (\<lambda>(k, v). under p k) (AList.clearjunk d))"
    using assms by (simp add: mem_query_def)
  show "map fst es = map fst (filter (\<lambda>(k, v). under p k) (AList.clearjunk d))"
    by (simp add: es case_prod_unfold)
  have "(k, v) \<in> set (AList.clearjunk d) \<longleftrightarrow> map_of d k = Some v" for v
    using map_of_eq_Some_iff [OF AList.distinct_clearjunk, of d k v] by (simp add: map_of_clearjunk)
  then show "(k, r) \<in> set es \<longleftrightarrow> (\<exists>v. r = Inr v \<and> under p k \<and> map_of d k = Some v)"
    by (auto simp: es)
qed

lemma mem_query_law: "query_law mem_env map_of"
  unfolding query_law_def
proof (intro allI impI)
  fix d p es
  assume "ds_Query mem_env d p = Inr es"
  then have q: "mem_query d p = Inr es" by (simp add: mem_env_def)
  have "distinct (map fst es)"
    unfolding mem_query_entries(1) [OF q]
    by (rule distinct_map_filter) (rule AList.distinct_clearjunk)
  moreover have "k \<in> fst ` set es" if "under p k" "map_of d k = Some v" for k v
    using that mem_query_entries(2) [OF q, of k "Inr v"] by force
  ultimately show "distinct (map fst es) \<and>
      (\<forall>k v. (k, Inr v) \<in> set es \<longrightarrow> under p k \<and> map_of d k = Some v) \<and>
      (\<forall>k v. under p k \<longrightarrow> map_of d k = Some v \<longrightarrow> k \<in> fst ` set es)"
    using mem_query_entries(2) [OF q] by auto
qed

lemma mem_env_laws: "datastore_laws mem_env map_of"
  using mem_query_law mem_get_law
  by (auto simp: datastore_laws_def put_law_def delete_law_def txn_law_def mem_env_def get_law_def)

text \<open>A backend on empty stores.\<close>

definition mem_pb :: "(bytes, mem_ds, mem_ab, mem_lru) ProvidersBackend" where
  "mem_pb =
     \<lparr>pb_namespace = namespaceProviders, pb_cfg = DefaultProviderBackendConfig, pb_cache = [],
      pb_addrBook = [], pb_datastore = [], pb_gcSkip = {}, pb_gcRunning = False, pb_heap = []\<rparr>"

lemma mem_pb_simps [simp]:
  "pb_namespace mem_pb = ''providers''"
  "ProvideValidity (pb_cfg mem_pb) = 48 * Hour"
  "AddressFilter (pb_cfg mem_pb) = (\<lambda>as. as)"
  "pb_cache mem_pb = []" "pb_addrBook mem_pb = []" "pb_datastore mem_pb = []"
  "pb_gcSkip mem_pb = {}" "pb_heap mem_pb = []"
  by (simp_all add: mem_pb_def DefaultProviderBackendConfig_def namespaceProviders_def)

end
