(* ===== verification/RecordProps.thy ===== *)
theory RecordProps
  imports RecordBackend Instances
begin

text \<open>
  What the value backends promise: a stored record is fetched with the time it was received, a
  worse record never replaces a better one and a failed store changes nothing, whatever is in the
  datastore was valid for the key it lies under, nothing stale or corrupt is served, and the index
  that Validate returns belongs to the original list.
\<close>

section \<open>Libraries\<close>

definition proto_law :: "('ds, 'tx, 'z) rec_env_scheme \<Rightarrow> bool" where
  "proto_law E \<longleftrightarrow> (\<forall>r b. proto_Marshal E r = Inr b \<longrightarrow> proto_Unmarshal E b = Inr r)"

text \<open>Rendering and parsing a time that \<open>time.Now\<close> can return.\<close>

definition time_law :: "('ds, 'tx, 'z) rec_env_scheme \<Rightarrow> bool" where
  "time_law E \<longleftrightarrow> (\<forall>t. unix_nano_ok t \<longrightarrow> time_Parse E (time_Format E t) = Inr t)"

text \<open>A concrete environment: records as two encoded fields and the time, separated by slashes.\<close>

definition mem_Marshal :: "rec \<Rightarrow> goerr + bytes" where
  "mem_Marshal r =
     Inr (pair_encode (rec_Key r) @ ''/'' @ pair_encode (rec_Value r) @ ''/'' @ rec_TimeReceived r)"

definition mem_Unmarshal :: "bytes \<Rightarrow> goerr + rec" where
  "mem_Unmarshal b =
     (let no = (\<lambda>c. c \<noteq> CHR ''/''); k = takeWhile no b; b1 = drop 1 (dropWhile no b);
          v = takeWhile no b1; t = drop 1 (dropWhile no b1)
      in case (pair_decode k, pair_decode v) of
           (Inr key, Inr val) \<Rightarrow> Inr \<lparr>rec_Key = key, rec_Value = val, rec_TimeReceived = t\<rparr>
         | _ \<Rightarrow> Inl (Errorf ''corrupt record''))"

definition mem_rec_env :: "(mem_ds, mem_ds) rec_env" where
  "mem_rec_env =
     \<lparr>b32_encode = pair_encode, b32_decode = pair_decode, ds_NewKey = (\<lambda>s. s),
      ds_Put = (\<lambda>d k v. (None, AList.update k v d)), ds_Get = mem_get,
      ds_Delete = (\<lambda>d k. (None, AList.delete k d)), ds_Query = mem_query,
      ds_NewTransaction = Inr, tx_Get = mem_get,
      tx_Put = (\<lambda>x k v. (None, AList.update k v x)), tx_Commit = (\<lambda>d x. (None, x)),
      proto_Marshal = mem_Marshal, proto_Unmarshal = mem_Unmarshal,
      time_Format = (\<lambda>t. MarshalBinary \<lparr>expiry = t\<rparr>),
      time_Parse = (\<lambda>s. case UnmarshalBinary s of Inl e \<Rightarrow> Inl e | Inr r \<Rightarrow> Inr (expiry r))\<rparr>"

lemma mem_rec_env_simps [simp]:
  "b32_encode mem_rec_env = pair_encode" "ds_NewKey mem_rec_env = (\<lambda>s. s)"
  "ds_Get mem_rec_env = mem_get" "tx_Get mem_rec_env = mem_get"
  "ds_Delete mem_rec_env d k = (None, AList.delete k d)"
  "ds_NewTransaction mem_rec_env = Inr"
  "tx_Put mem_rec_env x k v = (None, AList.update k v x)"
  "tx_Commit mem_rec_env d x = (None, x)"
  "proto_Marshal mem_rec_env = mem_Marshal" "proto_Unmarshal mem_rec_env = mem_Unmarshal"
  by (simp_all add: mem_rec_env_def)

lemma pair_encode_no_slash: "c \<in> set (pair_encode b) \<Longrightarrow> c \<noteq> CHR ''/''"
  using pair_encode_clean [of b] by (cases "b = []") (auto simp: clean_part_def pair_encode_def)

lemma takeWhile_sep:
  "\<forall>c \<in> set p. c \<noteq> CHR ''/'' \<Longrightarrow> takeWhile (\<lambda>c. c \<noteq> CHR ''/'') (p @ CHR ''/'' # r) = p"
  "\<forall>c \<in> set p. c \<noteq> CHR ''/'' \<Longrightarrow> dropWhile (\<lambda>c. c \<noteq> CHR ''/'') (p @ CHR ''/'' # r) = CHR ''/'' # r"
  by (simp_all add: takeWhile_append dropWhile_append)

lemma mem_proto_law: "proto_law mem_rec_env"
  using pair_encode_no_slash
  by (auto simp: proto_law_def mem_rec_env_def mem_Marshal_def mem_Unmarshal_def Let_def
      takeWhile_sep pair_decode_encode)

lemma mem_time_law: "time_law mem_rec_env"
  using Unmarshal_Marshal by (simp add: time_law_def mem_rec_env_def)

lemma mem_rec_lib: "lib_laws mem_rec_env"
  by (simp add: lib_laws_def mem_rec_env_def pair_decode_encode pair_encode_clean)

lemma mem_rec_laws: "datastore_laws mem_rec_env map_of"
proof -
  have "query_law mem_rec_env map_of"
    using mem_query_law by (simp add: query_law_def mem_rec_env_def)
  then show ?thesis
    using mem_get_law
    by (auto simp: datastore_laws_def put_law_def delete_law_def txn_law_def mem_rec_env_def get_law_def)
qed

text \<open>A validator that accepts non-empty values and prefers the longest, the first of equals.\<close>

definition longest :: "bytes list \<Rightarrow> int" where
  "longest vs = int (length (takeWhile (\<lambda>v. \<not> (\<forall>w \<in> set vs. length w \<le> length v)) vs))"

definition len_validator :: validator where
  "len_validator =
     \<lparr>v_Validate = (\<lambda>k v. if v = [] then Some (Errorf ''empty'') else None),
      v_Select = (\<lambda>k vs. if vs = [] then Inl (Errorf ''no values'') else Inr (longest vs))\<rparr>"

definition mem_rb :: "mem_ds RecordBackend" where
  "mem_rb = NewBackendIPNS len_validator [] None"

lemma length_takeWhile_lt: "x \<in> set xs \<Longrightarrow> \<not> P x \<Longrightarrow> length (takeWhile P xs) < length xs"
  by (induction xs) auto

lemma longest_range: "vs \<noteq> [] \<Longrightarrow> 0 \<le> longest vs \<and> nat (longest vs) < length vs"
proof -
  assume "vs \<noteq> []"
  then have "Max (length ` set vs) \<in> length ` set vs" by (intro Max_in) simp_all
  then obtain v where v: "v \<in> set vs" "\<forall>w \<in> set vs. length w \<le> length v"
    by (auto simp: Max_ge dest!: sym [of "Max _"])
  have "length (takeWhile (\<lambda>v. \<not> (\<forall>w \<in> set vs. length w \<le> length v)) vs) < length vs"
    using v by (intro length_takeWhile_lt) auto
  then show ?thesis by (simp add: longest_def)
qed

lemma len_validator_range: "select_in_range len_validator"
  using longest_range by (simp add: select_in_range_def len_validator_def)

section \<open>Store\<close>

abbreviation rb_key :: "('ds, 'tx, 'z) rec_env_scheme \<Rightarrow> 'ds RecordBackend \<Rightarrow> bytes \<Rightarrow> bytes" where
  "rb_key E r key \<equiv> newDatastoreKey E (rb_namespace r) [key]"

lemma rb_Store_Inr:
  assumes "rb_Store E now r key v = (Inr res, r1)"
  shows "\<exists>rec txn txn' data d. v = AnyRecord rec \<and>
           v_Validate (rb_validator r) (routingKey r key) (rec_Value rec) = None \<and>
           ds_NewTransaction E (rb_datastore r) = Inr txn \<and>
           shouldReplaceExistingRecord E (rb_validator r) txn (rb_key E r key) (rec_Value rec) = Inr True \<and>
           proto_Marshal E (rec\<lparr>rec_TimeReceived := time_Format E now\<rparr>) = Inr data \<and>
           tx_Put E txn (rb_key E r key) data = (None, txn') \<and>
           tx_Commit E (rb_datastore r) txn' = (None, d) \<and>
           res = AnyRecord (rec\<lparr>rec_TimeReceived := time_Format E now\<rparr>) \<and>
           r1 = r\<lparr>rb_datastore := d\<rparr>"
  using assms
  by (cases v) (auto simp: rb_Store_def Let_def split: option.splits sum.splits if_splits prod.splits)

lemma rb_Store_Inl:
  assumes "datastore_laws E content" and "rb_Store E now r key v = (Inl e, r1)"
  shows "\<exists>d. r1 = r\<lparr>rb_datastore := d\<rparr> \<and> content d = content (rb_datastore r)"
proof -
  have "r1 = r \<or> (\<exists>txn txn' data e' d. ds_NewTransaction E (rb_datastore r) = Inr txn \<and>
      tx_Put E txn (rb_key E r key) data = (None, txn') \<and>
      tx_Commit E (rb_datastore r) txn' = (Some e', d) \<and> r1 = r\<lparr>rb_datastore := d\<rparr>)"
    using assms(2)
    by (cases v) (auto simp: rb_Store_def Let_def split: option.splits sum.splits if_splits prod.splits)
  then show ?thesis
  proof (elim disjE exE conjE)
    assume "r1 = r"
    then show ?thesis by (intro exI [of _ "rb_datastore r"]) simp
  next
    fix txn txn' data e' d
    assume t: "ds_NewTransaction E (rb_datastore r) = Inr txn"
      "tx_Put E txn (rb_key E r key) data = (None, txn')"
      "tx_Commit E (rb_datastore r) txn' = (Some e', d)" "r1 = r\<lparr>rb_datastore := d\<rparr>"
    then show ?thesis using tx_Commit_content [OF assms(1) t(1-3)] by auto
  qed
qed

text \<open>What the record that a store replaces has to be like.\<close>

lemma shouldReplace_True:
  assumes "datastore_laws E content" and "ds_NewTransaction E d = Inr txn"
    and "shouldReplaceExistingRecord E V txn k val = Inr True"
    and "content d k = Some b" and "proto_Unmarshal E b = Inr old"
    and "v_Validate V (rec_Key old) (rec_Value old) = None"
  shows "v_Select V k [val, rec_Value old] = Inr 0"
proof (cases "tx_Get E txn k")
  case (Inl err)
  then have "errors_Is err ErrNotFound"
    using assms(3) by (auto simp: shouldReplaceExistingRecord_def split: if_splits)
  then have "content d k = None"
    using assms(1,2) Inl unfolding datastore_laws_def txn_law_def get_law_def by metis
  then show ?thesis using assms(4) by simp
next
  case (Inr b')
  then have "b' = b" using tx_Get_content [OF assms(1,2)] assms(4) by simp
  then show ?thesis
    using assms(3,5,6) Inr
    by (auto simp: shouldReplaceExistingRecord_def split: sum.splits if_splits)
qed

lemma rb_Store_content:
  assumes "datastore_laws E content" and "rb_Store E now r key v = (Inr res, r1)"
  shows "\<exists>rec data. v = AnyRecord rec \<and> res = AnyRecord (rec\<lparr>rec_TimeReceived := time_Format E now\<rparr>) \<and>
           v_Validate (rb_validator r) (routingKey r key) (rec_Value rec) = None \<and>
           proto_Marshal E (rec\<lparr>rec_TimeReceived := time_Format E now\<rparr>) = Inr data \<and>
           rb_namespace r1 = rb_namespace r \<and> rb_MaxRecordAge r1 = rb_MaxRecordAge r \<and>
           rb_validator r1 = rb_validator r \<and>
           content (rb_datastore r1) = (content (rb_datastore r))(rb_key E r key \<mapsto> data)"
proof -
  obtain rec txn txn' data d where s: "v = AnyRecord rec"
    "v_Validate (rb_validator r) (routingKey r key) (rec_Value rec) = None"
    "ds_NewTransaction E (rb_datastore r) = Inr txn"
    "proto_Marshal E (rec\<lparr>rec_TimeReceived := time_Format E now\<rparr>) = Inr data"
    "tx_Put E txn (rb_key E r key) data = (None, txn')"
    "tx_Commit E (rb_datastore r) txn' = (None, d)"
    "res = AnyRecord (rec\<lparr>rec_TimeReceived := time_Format E now\<rparr>)" "r1 = r\<lparr>rb_datastore := d\<rparr>"
    using rb_Store_Inr [OF assms(2)] by blast
  then show ?thesis using tx_Commit_content [OF assms(1) s(3,5,6)] by simp
qed

text \<open>What a store put there is fetched.\<close>

lemma record_fetched:
  assumes laws: "datastore_laws E content" and proto: "proto_law E" and time: "time_law E"
    and store: "rb_Store E now r key (AnyRecord rec) = (Inr res, r1)"
    and now: "unix_nano_ok now" "time_Sub now2 now \<le> rb_MaxRecordAge r"
    and get: "\<And>e. ds_Get E (rb_datastore r1) (newDatastoreKey E (rb_namespace r) [key]) \<noteq> Inl e"
  shows "rb_Fetch E now2 r1 key = (Inr res, r1) \<and>
         res = AnyRecord (rec\<lparr>rec_TimeReceived := time_Format E now\<rparr>)"
proof -
  obtain data where data: "res = AnyRecord (rec\<lparr>rec_TimeReceived := time_Format E now\<rparr>)"
    "proto_Marshal E (rec\<lparr>rec_TimeReceived := time_Format E now\<rparr>) = Inr data"
    "rb_namespace r1 = rb_namespace r" "rb_MaxRecordAge r1 = rb_MaxRecordAge r"
    "content (rb_datastore r1) (rb_key E r key) = Some data"
    using rb_Store_content [OF laws store] by auto
  obtain b where b: "ds_Get E (rb_datastore r1) (rb_key E r key) = Inr b"
    using get by (metis obj_sumE)
  then have "b = data" using ds_Get_content [OF laws] data(5) by fastforce
  moreover have "proto_Unmarshal E data = Inr (rec\<lparr>rec_TimeReceived := time_Format E now\<rparr>)"
    using proto data(2) by (auto simp: proto_law_def)
  moreover have "time_Parse E (time_Format E now) = Inr now"
    using time now(1) by (simp add: time_law_def)
  ultimately show ?thesis using b now(2) data by (simp add: rb_Fetch_def)
qed

section \<open>Properties\<close>

text \<open>
  A record that was stored is fetched, with its value and with the time at which it was
  received, as long as it is not older than the maximal record age.
\<close>
lemma record_roundtrip:
  assumes laws: "datastore_laws E content" and proto: "proto_law E" and time: "time_law E"
    and store: "rb_Store E now r key (AnyRecord rec) = (Inr res, r1)"
    and now: "unix_nano_ok now" "time_Sub now2 now \<le> rb_MaxRecordAge r"
    and get: "\<And>e. ds_Get E (rb_datastore r1) (newDatastoreKey E (rb_namespace r) [key]) \<noteq> Inl e"
  shows "rb_Fetch E now2 r1 key = (Inr res, r1) \<and>
         res = AnyRecord (rec\<lparr>rec_TimeReceived := time_Format E now\<rparr>)"
  by (rule record_fetched [OF assms])

lemma mem_rb_store:
  "rb_Store mem_rec_env 1000 mem_rb ''n'' (AnyRecord \<lparr>rec_Key = ''/ipns/n'', rec_Value = ''v'', rec_TimeReceived = []\<rparr>)
     = (Inr (AnyRecord \<lparr>rec_Key = ''/ipns/n'', rec_Value = ''v'', rec_TimeReceived = time_Format mem_rec_env 1000\<rparr> :: bytes any),
        mem_rb\<lparr>rb_datastore := [(rb_key mem_rec_env mem_rb ''n'',
          pair_encode ''/ipns/n'' @ ''/'' @ pair_encode ''v'' @ ''/'' @ time_Format mem_rec_env 1000)]\<rparr>)"
  by (simp add: rb_Store_def mem_rb_def NewBackendIPNS_def len_validator_def
      shouldReplaceExistingRecord_def mem_get_def mem_Marshal_def Let_def)

lemma record_roundtrip_witness:
  "fst (rb_Fetch mem_rec_env 2000
      (snd (rb_Store mem_rec_env 1000 mem_rb ''n''
        (AnyRecord \<lparr>rec_Key = ''/ipns/n'', rec_Value = ''v'', rec_TimeReceived = []\<rparr> :: bytes any))) ''n'')
     = (Inr (AnyRecord \<lparr>rec_Key = ''/ipns/n'', rec_Value = ''v'',
          rec_TimeReceived = time_Format mem_rec_env 1000\<rparr>) :: goerr + bytes any)"
proof -
  have "time_Sub 2000 1000 \<le> rb_MaxRecordAge mem_rb"
    by (simp add: time_Sub_def mem_rb_def NewBackendIPNS_def DefaultRecordBackendConfig_def Hour_def
        minDuration_def maxDuration_def)
  moreover have "unix_nano_ok 1000" by (simp add: unix_nano_ok_def)
  ultimately show ?thesis
    using record_roundtrip [OF mem_rec_laws mem_proto_law mem_time_law mem_rb_store, of 2000]
    by (simp add: mem_rb_store mem_get_def)
qed

text \<open>
  C12: A store replaces the record under its key only by one that the validator accepts and
  prefers to a valid record that is already there; a store that fails, for whatever reason, leaves
  the datastore as it was.
\<close>
theorem record_store_keeps_best:
  assumes laws: "datastore_laws E content" and store: "rb_Store E now r key v = (res, r1)"
  shows "case res of
           Inl e \<Rightarrow> content (rb_datastore r1) = content (rb_datastore r)
         | Inr w \<Rightarrow>
             \<exists>rec data. v = AnyRecord rec \<and>
               v_Validate (rb_validator r) (routingKey r key) (rec_Value rec) = None \<and>
               proto_Marshal E (rec\<lparr>rec_TimeReceived := time_Format E now\<rparr>) = Inr data \<and>
               content (rb_datastore r1) = (content (rb_datastore r))(rb_key E r key \<mapsto> data) \<and>
               (\<forall>b old. content (rb_datastore r) (rb_key E r key) = Some b \<longrightarrow>
                  proto_Unmarshal E b = Inr old \<longrightarrow>
                  v_Validate (rb_validator r) (rec_Key old) (rec_Value old) = None \<longrightarrow>
                  v_Select (rb_validator r) (rb_key E r key) [rec_Value rec, rec_Value old] = Inr 0)"
proof (cases res)
  case (Inl e)
  then show ?thesis using rb_Store_Inl [OF laws] store by fastforce
next
  case (Inr w)
  have s: "rb_Store E now r key v = (Inr w, r1)" using store Inr by simp
  obtain rec data where c: "v = AnyRecord rec"
    "v_Validate (rb_validator r) (routingKey r key) (rec_Value rec) = None"
    "proto_Marshal E (rec\<lparr>rec_TimeReceived := time_Format E now\<rparr>) = Inr data"
    "content (rb_datastore r1) = (content (rb_datastore r))(rb_key E r key \<mapsto> data)"
    using rb_Store_content [OF laws s] by blast
  obtain txn where t: "ds_NewTransaction E (rb_datastore r) = Inr txn"
    "shouldReplaceExistingRecord E (rb_validator r) txn (rb_key E r key) (rec_Value rec) = Inr True"
    using rb_Store_Inr [OF s] c(1) by auto
  show ?thesis
    using c shouldReplace_True [OF laws t] by (simp add: Inr)
qed

lemma record_store_keeps_best_witness:
  "\<exists>data. map_of (rb_datastore (snd (rb_Store mem_rec_env 1000 mem_rb ''n''
        (AnyRecord \<lparr>rec_Key = ''/ipns/n'', rec_Value = ''v'', rec_TimeReceived = []\<rparr> :: bytes any))))
      = (map_of [])(rb_key mem_rec_env mem_rb ''n'' \<mapsto> data)"
proof -
  have "rb_datastore mem_rb = []" by (simp add: mem_rb_def NewBackendIPNS_def)
  then show ?thesis
    using record_store_keeps_best [OF mem_rec_laws mem_rb_store] by (auto simp: mem_rb_store)
qed

text \<open>A history of the backend: stores of any values and fetches, in any order.\<close>

datatype 'm rb_op = RStore int bytes "'m any" | RFetch int bytes

fun rb_step :: "('ds, 'tx, 'z) rec_env_scheme \<Rightarrow> 'm rb_op \<Rightarrow> 'ds RecordBackend \<Rightarrow> 'ds RecordBackend" where
  "rb_step E (RStore now key v) r = snd (rb_Store E now r key v)"
| "rb_step E (RFetch now key) r = snd (rb_Fetch E now r key :: (goerr + 'm any) \<times> 'ds RecordBackend)"

definition stored_valid ::
  "('ds, 'tx, 'z) rec_env_scheme \<Rightarrow> ('ds \<Rightarrow> bytes \<rightharpoonup> bytes) \<Rightarrow> 'ds RecordBackend \<Rightarrow> bool" where
  "stored_valid E content r \<longleftrightarrow>
     (\<forall>k b. content (rb_datastore r) k = Some b \<longrightarrow>
        (\<exists>key rec. k = rb_key E r key \<and> proto_Unmarshal E b = Inr rec \<and>
           v_Validate (rb_validator r) (routingKey r key) (rec_Value rec) = None))"

lemma rb_Fetch_content:
  assumes "datastore_laws E content" and "rb_Fetch E now r key = (res, r1)"
  shows "r1 = r\<lparr>rb_datastore := rb_datastore r1\<rparr> \<and>
         (content (rb_datastore r1) = content (rb_datastore r) \<or>
          content (rb_datastore r1) = (content (rb_datastore r))(rb_key E r key := None))"
proof -
  let ?d = "snd (ds_Delete E (rb_datastore r) (rb_key E r key))"
  have "r1 = r \<or> r1 = r\<lparr>rb_datastore := ?d\<rparr>"
    using assms(2) by (auto simp: rb_Fetch_def Let_def split: sum.splits if_splits)
  moreover have "content ?d = content (rb_datastore r) \<or>
      content ?d = (content (rb_datastore r))(rb_key E r key := None)"
    using ds_Delete_content [OF assms(1), of "rb_datastore r" "rb_key E r key"
        "fst (ds_Delete E (rb_datastore r) (rb_key E r key))" ?d] by auto
  ultimately show ?thesis by auto
qed

lemma rb_step_valid:
  fixes opn :: "'m rb_op"
  assumes laws: "datastore_laws E content" and proto: "proto_law E" and inv: "stored_valid E content r"
  shows "stored_valid E content (rb_step E opn r)"
proof (cases opn)
  case (RStore now key v)
  obtain res r1 where s: "rb_Store E now r key v = (res, r1)" by (cases "rb_Store E now r key v")
  show ?thesis
  proof (cases res)
    case (Inl e)
    then obtain d where "r1 = r\<lparr>rb_datastore := d\<rparr>" "content d = content (rb_datastore r)"
      using rb_Store_Inl [OF laws] s by blast
    then show ?thesis
      using inv by (simp add: RStore s stored_valid_def routingKey_def)
  next
    case (Inr w)
    then obtain rec data where c:
      "v_Validate (rb_validator r) (routingKey r key) (rec_Value rec) = None"
      "proto_Marshal E (rec\<lparr>rec_TimeReceived := time_Format E now\<rparr>) = Inr data"
      "rb_namespace r1 = rb_namespace r" "rb_validator r1 = rb_validator r"
      "content (rb_datastore r1) = (content (rb_datastore r))(rb_key E r key \<mapsto> data)"
      using rb_Store_content [OF laws] s by blast
    have "proto_Unmarshal E data = Inr (rec\<lparr>rec_TimeReceived := time_Format E now\<rparr>)"
      using proto c(2) by (auto simp: proto_law_def)
    then have "\<exists>rec. proto_Unmarshal E data = Inr rec \<and>
        v_Validate (rb_validator r) (routingKey r key) (rec_Value rec) = None"
      using c(1) by auto
    then show ?thesis
      using inv c by (auto simp: RStore s stored_valid_def routingKey_def)
  qed
next
  case (RFetch now key)
  obtain res :: "goerr + 'm any" and r1 where f: "rb_Fetch E now r key = (res, r1)"
    by (cases "rb_Fetch E now r key :: (goerr + 'm any) \<times> _")
  obtain d where "r1 = r\<lparr>rb_datastore := d\<rparr>"
    "content d = content (rb_datastore r) \<or> content d = (content (rb_datastore r))(rb_key E r key := None)"
    using rb_Fetch_content [OF laws f] by metis
  then show ?thesis
    using inv by (auto simp: RFetch f stored_valid_def routingKey_def split: if_splits)
qed

text \<open>
  C11: Whatever is stored and fetched, in any order, every record in the datastore is one that the
  validator accepted under the very key that its place in the datastore stands for.
\<close>
theorem records_stay_valid:
  assumes laws: "datastore_laws E content" and proto: "proto_law E"
    and init: "\<forall>k. content (rb_datastore r) k = None"
  shows "\<forall>k b. content (rb_datastore (fold (rb_step E) ops r)) k = Some b \<longrightarrow>
           (\<exists>key rec. k = newDatastoreKey E (rb_namespace r) [key] \<and> proto_Unmarshal E b = Inr rec \<and>
              v_Validate (rb_validator r) (routingKey r key) (rec_Value rec) = None)"
proof -
  have frame: "rb_namespace (rb_step E opn r) = rb_namespace r \<and>
      rb_validator (rb_step E opn r) = rb_validator r" for opn r
    by (cases opn) (auto simp: rb_Store_def rb_Fetch_def Let_def
        split: any.split option.split sum.split prod.split)
  have "stored_valid E content r" using init by (simp add: stored_valid_def)
  then have "stored_valid E content (fold (rb_step E) ops r) \<and>
      rb_namespace (fold (rb_step E) ops r) = rb_namespace r \<and>
      rb_validator (fold (rb_step E) ops r) = rb_validator r"
    by (induction ops arbitrary: r) (simp_all add: rb_step_valid [OF laws proto] frame)
  then show ?thesis by (metis stored_valid_def routingKey_def)
qed

lemma records_stay_valid_witness:
  "\<exists>key (rec :: rec). rb_key mem_rec_env mem_rb ''n'' = rb_key mem_rec_env mem_rb key \<and>
     v_Validate (rb_validator mem_rb) (routingKey mem_rb key) (rec_Value rec) = None"
proof -
  let ?rec = "\<lparr>rec_Key = ''/ipns/n'', rec_Value = ''v'', rec_TimeReceived = []\<rparr>"
  obtain b where "rb_datastore (rb_step mem_rec_env (RStore 1000 ''n'' (AnyRecord ?rec :: bytes any)) mem_rb)
      = [(rb_key mem_rec_env mem_rb ''n'', b)]"
    by (simp only: rb_step.simps mem_rb_store) simp
  then have b: "map_of (rb_datastore (fold (rb_step mem_rec_env) [RStore 1000 ''n'' (AnyRecord ?rec :: bytes any)] mem_rb))
      (rb_key mem_rec_env mem_rb ''n'') = Some b"
    by (simp only: fold.simps o_apply id_apply map_of.simps fst_conv snd_conv fun_upd_same)
  have "\<forall>k. map_of (rb_datastore mem_rb) k = None"
    by (simp add: mem_rb_def NewBackendIPNS_def)
  from records_stay_valid [OF mem_rec_laws mem_proto_law this, rule_format, OF b]
  show ?thesis by (elim exE conjE) (intro exI conjI; assumption)
qed

text \<open>
  A fetch returns only records that are in the datastore, can be parsed and are within the
  maximal age. A corrupt or stale record is deleted and reported as a nil value without an error,
  although the documentation of the interface asks for a not-found error.
\<close>
lemma record_fetch_cases:
  assumes laws: "datastore_laws E content" and delete: "\<forall>d k. fst (ds_Delete E d k) = None"
    and fetch: "rb_Fetch E now r key = (res, r1)"
  shows "case res of
           Inl e \<Rightarrow> r1 = r \<and> ds_Get E (rb_datastore r) (rb_key E r key) = Inl e
         | Inr w \<Rightarrow>
             \<exists>b. content (rb_datastore r) (rb_key E r key) = Some b \<and>
               (if \<exists>rec t. proto_Unmarshal E b = Inr rec \<and> time_Parse E (rec_TimeReceived rec) = Inr t \<and>
                     time_Sub now t \<le> rb_MaxRecordAge r
                then r1 = r \<and> (\<exists>rec. proto_Unmarshal E b = Inr rec \<and> w = AnyRecord rec)
                else w = AnyNil \<and> content (rb_datastore r1) =
                       (content (rb_datastore r))(rb_key E r key := None))"
proof (cases "ds_Get E (rb_datastore r) (rb_key E r key)")
  case (Inl e)
  then show ?thesis using fetch by (auto simp: rb_Fetch_def Let_def)
next
  case (Inr b)
  let ?d = "snd (ds_Delete E (rb_datastore r) (rb_key E r key))"
  have del: "content ?d = (content (rb_datastore r))(rb_key E r key := None)"
    using ds_Delete_content [OF laws, of "rb_datastore r" "rb_key E r key" None ?d] delete
    by (simp add: prod_eq_iff)
  have "content (rb_datastore r) (rb_key E r key) = Some b"
    using ds_Get_content [OF laws Inr] .
  then show ?thesis
    using fetch Inr del by (auto simp: rb_Fetch_def Let_def not_le split: sum.splits if_splits)
qed

lemma record_fetch_cases_witness:
  "fst (rb_Fetch mem_rec_env 1000 (mem_rb\<lparr>rb_datastore := [(rb_key mem_rec_env mem_rb ''n'', ''A'')]\<rparr>) ''n'')
     = (Inr AnyNil :: goerr + bytes any)"
proof -
  let ?r = "mem_rb\<lparr>rb_datastore := [(rb_key mem_rec_env mem_rb ''n'', ''A'')]\<rparr>"
  obtain res :: "goerr + bytes any" and r1 where f: "rb_Fetch mem_rec_env 1000 ?r ''n'' = (res, r1)"
    by (cases "rb_Fetch mem_rec_env 1000 ?r ''n'' :: (goerr + bytes any) \<times> _")
  have "proto_Unmarshal mem_rec_env ''A'' = Inl (Errorf ''corrupt record'')"
    by (simp add: mem_Unmarshal_def)
  then show ?thesis
    using record_fetch_cases [OF mem_rec_laws _ f]
    by (cases res) (auto simp: f mem_get_def)
qed

lemma map_valid_idx: "map (\<lambda>i. vs ! i) (valid_idx V k vs) = filter (valid_value V k) vs"
proof (induction vs rule: rev_induct)
  case (snoc v vs)
  have "map (\<lambda>i. (vs @ [v]) ! i) (valid_idx V k vs) = map (\<lambda>i. vs ! i) (valid_idx V k vs)"
    by (auto simp: valid_idx_def nth_append)
  then show ?case using snoc by (simp add: valid_idx_snoc)
qed (simp add: valid_idx_def)

lemma valid_idx_rank:
  "j < length (valid_idx V k vs) \<Longrightarrow>
     length (filter (valid_value V k) (take (valid_idx V k vs ! j) vs)) = j"
proof (induction vs rule: rev_induct)
  case (snoc v vs)
  show ?case
  proof (cases "j < length (valid_idx V k vs)")
    case True
    then show ?thesis
      using snoc valid_idx_nth [OF True] by (simp add: valid_idx_snoc nth_append)
  next
    case False
    then have "valid_value V k v" "j = length (valid_idx V k vs)"
      using snoc.prems by (auto simp: valid_idx_snoc split: if_splits)
    then show ?thesis
      using arg_cong [OF map_valid_idx [of vs V k, symmetric], of length]
      by (simp add: valid_idx_snoc nth_append)
  qed
qed (simp add: valid_idx_def)

text \<open>
  C31: Of several values Validate judges each one alone, lets the validator select among the valid
  ones and returns the index that the selected value has in the original list; it fails exactly
  when no value is valid or the selection fails.
\<close>
theorem record_validate_selects:
  assumes V: "select_in_range V" and many: "length vs \<noteq> 1"
    and k: "k = newRoutingKey ns key" and ok: "ok = filter (valid_value V k) vs"
  shows "case rb_Validate V ns key vs of
           Inr i \<Rightarrow> \<exists>sel. v_Select V k (map any_bytes ok) = Inr sel \<and>
             0 \<le> i \<and> nat i < length vs \<and> vs ! nat i = ok ! nat sel \<and>
             length (filter (valid_value V k) (take (nat i) vs)) = nat sel
         | Inl e \<Rightarrow> ok = [] \<or> v_Select V k (map any_bytes ok) = Inl e"
proof -
  let ?ix = "valid_idx V k vs"
  have ok': "ok = map (\<lambda>i. vs ! i) ?ix" by (simp add: ok map_valid_idx)
  then have sel: "map (\<lambda>i. any_bytes (vs ! i)) ?ix = map any_bytes ok" by simp
  have spec: "rb_Validate V ns key vs = rb_Validate_spec V k vs"
    by (simp add: rb_Validate_many [OF many] k)
  show ?thesis
  proof (cases "ok = []")
    case True
    then show ?thesis using ok' by (simp add: spec rb_Validate_spec_def)
  next
    case False
    show ?thesis
    proof (cases "v_Select V k (map any_bytes ok)")
      case (Inl e)
      then show ?thesis using False ok' by (simp add: spec rb_Validate_spec_def comp_def)
    next
      case (Inr s)
      then have s: "0 \<le> s \<and> nat s < length ?ix"
        using V ok' unfolding select_in_range_def by (metis length_map)
      then have "rb_Validate V ns key vs = Inr (int (?ix ! nat s))"
        using Inr False ok' unfolding spec rb_Validate_spec_def sel by auto
      then show ?thesis
        using s Inr valid_idx_nth [of "nat s" V k vs] valid_idx_rank [of "nat s" V k vs]
        by (simp add: ok')
    qed
  qed
qed

lemma record_validate_selects_witness:
  "rb_Validate len_validator ''ipns'' ''n'' ([AnyNil, AnyBytes ''a'', AnyBytes ''bb''] :: bytes any list) = Inr 2 \<and>
   (\<exists>sel. v_Select len_validator (newRoutingKey ''ipns'' ''n'') [''a'', ''bb''] = Inr sel)"
proof -
  let ?vs = "[AnyNil, AnyBytes ''a'', AnyBytes ''bb''] :: bytes any list"
  have run: "rb_Validate len_validator ''ipns'' ''n'' ?vs = Inr 2"
    by (simp add: rb_Validate_def len_validator_def longest_def Let_def go_get0_def)
  have "filter (valid_value len_validator (newRoutingKey ''ipns'' ''n'')) ?vs = [AnyBytes ''a'', AnyBytes ''bb'']"
    by (simp add: valid_value_def len_validator_def)
  then show ?thesis
    using record_validate_selects [OF len_validator_range _ refl refl, of ?vs "''ipns''" "''n''"]
    by (auto simp: run)
qed

end
