(* ===== verification/HandlerProps.thy ===== *)
theory HandlerProps
  imports Handlers RecordProps
begin

text \<open>
  What a remote peer can rely on and what it cannot do: the peers it is told about, when a value
  or a provider is stored on its behalf, and the form of every response.
\<close>

section \<open>Storing providers one after the other\<close>

definition stores :: "('w, 'm) Backend \<Rightarrow> bytes \<Rightarrow> 'm addr_info list \<Rightarrow> 'w \<Rightarrow> 'w" where
  "stores b k ais w = fold (\<lambda>a w. snd (Store b w k (AnyAddrInfo a))) ais w"

lemma stores_simps [simp]:
  "stores b k [] w = w"
  "stores b k (a # ais) w = stores b k ais (snd (Store b w k (AnyAddrInfo a)))"
  by (simp_all add: stores_def)

lemma store_providers_prefix:
  "\<exists>pre. prefix pre ais \<and> snd (store_providers b w k ais) = stores b k pre w \<and>
     (\<forall>r. fst (store_providers b w k ais) = Inr r \<longrightarrow> r = None \<and> pre = ais)"
proof (induction ais arbitrary: w)
  case (Cons a ais)
  obtain r w1 where s: "Store b w k (AnyAddrInfo a) = (r, w1)"
    by (cases "Store b w k (AnyAddrInfo a)")
  show ?case
  proof (cases r)
    case (Inl e)
    then show ?thesis by (intro exI [of _ "[a]"]) (simp add: s)
  next
    case (Inr v)
    obtain pre where "prefix pre ais" "snd (store_providers b w1 k ais) = stores b k pre w1"
      "\<forall>r. fst (store_providers b w1 k ais) = Inr r \<longrightarrow> r = None \<and> pre = ais"
      using Cons.IH [of w1] by blast
    then show ?thesis by (intro exI [of _ "a # pre"]) (simp add: s Inr)
  qed
qed simp

lemma check_providers_Inr:
  "check_providers remote ais acc = Inr r \<longleftrightarrow>
     r = acc @ ais \<and> (\<forall>a \<in> set ais. ai_ID a = remote \<and> ai_Addrs a \<noteq> [])"
  by (induction ais arbitrary: acc) auto

section \<open>The nodes of a FIND_NODE response\<close>

lemma find_node_ids:
  assumes "peerinfo_law D" and "handleFindPeer D w remote req = (Inr r, w')"
  defines "near \<equiv> filter (shareable D (d_NotifyConnectivity D w remote) remote)
      (d_NearestNodes D (d_NotifyConnectivity D w remote) (PeerID_Key (d_hash D) (msg_Key req)) (d_BucketSize D))"
  shows "\<exists>resp. r = Some resp \<and> msg_Type resp = Message_FIND_NODE \<and> msg_Key resp = msg_Key req \<and>
           w' = d_NotifyConnectivity D w remote \<and>
           CloserNodes (Some resp) =
             (if msg_Key req = d_self D then [d_self D]
              else if ai_Addrs (d_PeerInfo D w' (msg_Key req)) \<noteq> [] \<and> msg_Key req \<notin> set near \<and>
                      msg_Key req \<noteq> remote
              then near @ [msg_Key req] else near)"
proof -
  let ?w = "d_NotifyConnectivity D w remote"
  let ?cp = "closerPeers D ?w remote (PeerID_Key (d_hash D) (msg_Key req))"
  have ids: "map mp_Id ?cp = near" unfolding near_def by (rule closerPeers_ids [OF assms(1)])
  then have set_ids: "mp_Id ` set ?cp = set near" by (metis list.set_map)
  have "ai_ID (d_PeerInfo D ?w i) = i" for i using assms(1) by (simp add: peerinfo_law_def)
  then show ?thesis
    using assms(2) ids set_ids
    by (auto simp: handleFindPeer_def Let_def CloserNodes_def zero_Message_def ContainsCloserPeer_def
        contains_loop_iff split: if_splits)
qed

lemma find_node_accepts:
  "msg_Key req \<noteq> [] \<Longrightarrow> \<exists>r w'. handleFindPeer D w remote req = (Inr r, w')"
  by (auto simp: handleFindPeer_def Let_def)

section \<open>A concrete node\<close>

text \<open>
  A node whose world counts the stores, with two peers in its routing table; the witnesses run on
  it.
\<close>

definition demo_hash :: "bytes hash_lib" where
  "demo_hash =
     \<lparr>sha256_Sum256 = id, bit256_NewKey = id, bit256_BitLen = (\<lambda>b. 8 * length b),
      bit256_Bit = (\<lambda>b i. odd ((of_char (b ! (i div 8)) :: nat) div 2 ^ (7 - i mod 8))),
      bit256_Xor = (\<lambda>a b. a), bit256_CommonPrefixLength = (\<lambda>a b. 0), bit256_Compare = (\<lambda>a b. 0),
      bit256_HexString = id\<rparr>"

definition demo_ma :: "bytes ma_lib" where
  "demo_ma = \<lparr>ma_Bytes = id, ma_NewMultiaddrBytes = Inr\<rparr>"

definition count_backend :: "(nat, bytes) Backend" where
  "count_backend =
     \<lparr>Store = (\<lambda>w k v. (Inr v, w + 1)), Fetch = (\<lambda>w k. (Inl ErrNotFound, w)),
      Validate = (\<lambda>k vs. Inr 0)\<rparr>"

definition demo_dht :: "(nat, bytes, bytes) DHT" where
  "demo_dht =
     \<lparr>d_self = ''self'', d_BucketSize = 20, d_hash = demo_hash, d_ma = demo_ma,
      d_NearestNodes = (\<lambda>w k n. take n [''x'', ''remote'', ''y'']),
      d_PeerInfo = (\<lambda>w p. \<lparr>ai_ID = p, ai_Addrs = [''a'']\<rparr>), d_NotifyConnectivity = (\<lambda>w p. w),
      d_SplitKey = (\<lambda>k. Inr (''providers'', k)), d_backends = [(''providers'', count_backend)]\<rparr>"

lemma demo_dht_simps [simp]:
  "d_self demo_dht = ''self''" "d_BucketSize demo_dht = 20" "d_ma demo_dht = demo_ma"
  "d_PeerInfo demo_dht w p = \<lparr>ai_ID = p, ai_Addrs = [''a'']\<rparr>"
  by (simp_all add: demo_dht_def)

lemma demo_laws: "peerinfo_law demo_dht" "nearest_law demo_dht"
  by (simp_all add: peerinfo_law_def nearest_law_def demo_dht_def distinct_take)

section \<open>Properties\<close>

text \<open>
  A FIND_NODE response never names the remote itself, and names this node only if it was
  asked for; it names each peer once, at most one more than the bucket size, and only peers with
  known addresses unless this node itself is asked for. The target is among them if its addresses are known
  and it is not the remote.
\<close>
lemma find_node_response:
  assumes "peerinfo_law D" and "nearest_law D"
    and "handleFindPeer D w remote req = (Inr r, w')" and "remote \<noteq> d_self D"
  shows "\<exists>resp. r = Some resp \<and> msg_Type resp = Message_FIND_NODE \<and> msg_Key resp = msg_Key req \<and>
           (let ids = CloserNodes (Some resp) in
              remote \<notin> set ids \<and> distinct ids \<and> length ids \<le> d_BucketSize D + 1 \<and>
              (if msg_Key req = d_self D then ids = [d_self D]
               else d_self D \<notin> set ids \<and> (\<forall>i \<in> set ids. ai_Addrs (d_PeerInfo D w' i) \<noteq> []) \<and>
                    (msg_Key req \<noteq> remote \<longrightarrow> ai_Addrs (d_PeerInfo D w' (msg_Key req)) \<noteq> [] \<longrightarrow>
                       msg_Key req \<in> set ids)))"
proof -
  let ?w = "d_NotifyConnectivity D w remote"
  let ?nn = "d_NearestNodes D ?w (PeerID_Key (d_hash D) (msg_Key req)) (d_BucketSize D)"
  let ?near = "filter (shareable D ?w remote) ?nn"
  obtain resp where resp: "r = Some resp" "msg_Type resp = Message_FIND_NODE" "msg_Key resp = msg_Key req"
    "w' = ?w"
    "CloserNodes (Some resp) =
      (if msg_Key req = d_self D then [d_self D]
       else if ai_Addrs (d_PeerInfo D w' (msg_Key req)) \<noteq> [] \<and> msg_Key req \<notin> set ?near \<and> msg_Key req \<noteq> remote
       then ?near @ [msg_Key req] else ?near)"
    using find_node_ids [OF assms(1,3)] by blast
  define near where "near = ?near"
  have near: "distinct near" "length near \<le> d_BucketSize D"
    "\<forall>i \<in> set near. i \<noteq> d_self D \<and> i \<noteq> remote \<and> ai_Addrs (d_PeerInfo D w' i) \<noteq> []"
    using assms(2)
    by (auto simp: near_def nearest_law_def resp(4) shareable_def intro: order_trans [OF length_filter_le])
  have nodes: "CloserNodes (Some resp) =
      (if msg_Key req = d_self D then [d_self D]
       else if ai_Addrs (d_PeerInfo D w' (msg_Key req)) \<noteq> [] \<and> msg_Key req \<notin> set near \<and> msg_Key req \<noteq> remote
       then near @ [msg_Key req] else near)"
    unfolding near_def by (rule resp(5))
  show ?thesis
    by (rule exI [of _ resp], unfold nodes, use near resp(1-3) assms(4) in \<open>auto simp: Let_def\<close>)
qed

lemma find_node_response_witness:
  "\<exists>resp. fst (handleFindPeer demo_dht 0 ''remote'' (zero_Message\<lparr>msg_Type := 4, msg_Key := ''t''\<rparr>)) = Inr (Some resp) \<and>
     ''t'' \<in> set (CloserNodes (Some resp)) \<and> ''remote'' \<notin> set (CloserNodes (Some resp))"
proof -
  let ?req = "zero_Message\<lparr>msg_Type := 4, msg_Key := ''t''\<rparr>"
  obtain r w' where h: "handleFindPeer demo_dht 0 ''remote'' ?req = (Inr r, w')"
    using find_node_accepts [of ?req demo_dht 0 "''remote''"] by auto
  show ?thesis
    using find_node_response [OF demo_laws h] by (auto simp: h Let_def)
qed

text \<open>
  A PUT_VALUE request is accepted exactly when its key is not empty, is the key of its
  record, splits into a namespace that has a backend and a path, and that backend stores the
  record under the path. An accepted request is echoed without the peers it carried, with the record as the backend
  returned it; a request that is refused before the backend is asked changes nothing.
\<close>
lemma put_value_exact:
  "(case handlePutValue D w remote req of
      (Inr r, w') \<Rightarrow>
        (\<exists>rec ns path b v. r = Some ((store_into v req)\<lparr>msg_CloserPeers := [], msg_ProviderPeers := []\<rparr>) \<and>
           msg_Record req = Some rec \<and> rec_Key rec = msg_Key req \<and> msg_Key req \<noteq> [] \<and>
           d_SplitKey D (msg_Key req) = Inr (ns, path) \<and> path \<noteq> [] \<and>
           map_of (d_backends D) ns = Some b \<and> Store b w path (AnyRecord rec) = (Inr v, w'))
    | (Inl e, w') \<Rightarrow>
        if \<exists>rec ns path b. msg_Record req = Some rec \<and> rec_Key rec = msg_Key req \<and> msg_Key req \<noteq> [] \<and>
             d_SplitKey D (msg_Key req) = Inr (ns, path) \<and> path \<noteq> [] \<and> map_of (d_backends D) ns = Some b
        then \<exists>rec ns path b. msg_Record req = Some rec \<and> d_SplitKey D (msg_Key req) = Inr (ns, path) \<and>
               map_of (d_backends D) ns = Some b \<and> Store b w path (AnyRecord rec) = (Inl e, w')
        else w' = w)"
  by (auto simp: handlePutValue_def Let_def stripPeerRecords_def
      split: option.split sum.split prod.split if_splits)

text \<open>
  C10: A remote peer can add only itself as a provider: the state is that after storing a prefix of
  the providers of the request, all of them the remote itself with at least one address, under the
  key of the request; on success they are all stored. A request with a key that is empty or longer
  than 80 bytes, without providers, or with a single provider that is another peer or has no
  address stores nothing at all.
\<close>
theorem add_provider_only_self:
  assumes "handleAddProvider D w remote req = (res, w')"
  defines "ais \<equiv> ProviderAddrInfos (d_ma D) (Some req)"
  shows "(\<exists>r. res = Inr r) \<or> w' \<noteq> w \<Longrightarrow>
           (\<exists>b pre. map_of (d_backends D) namespaceProviders = Some b \<and> prefix pre ais \<and>
              w' = stores b (msg_Key req) pre w \<and> (\<forall>r. res = Inr r \<longrightarrow> r = None \<and> pre = ais)) \<and>
           (\<forall>a \<in> set ais. ai_ID a = remote \<and> ai_Addrs a \<noteq> []) \<and>
           ais \<noteq> [] \<and> 0 < length (msg_Key req) \<and> length (msg_Key req) \<le> 80"
proof -
  assume "(\<exists>r. res = Inr r) \<or> w' \<noteq> w"
  then obtain b where c: "length (msg_Key req) \<le> 80" "msg_Key req \<noteq> []" "msg_ProviderPeers req \<noteq> []"
    "check_providers remote ais [] = Inr ais" "map_of (d_backends D) namespaceProviders = Some b"
    "store_providers b w (msg_Key req) ais = (res, w')"
    using assms(1)
    by (auto simp: handleAddProvider_def ais_def Let_def check_providers_Inr
        split: if_splits sum.splits option.splits)
  moreover obtain pre where "prefix pre ais" "w' = stores b (msg_Key req) pre w"
    "\<forall>r. res = Inr r \<longrightarrow> r = None \<and> pre = ais"
    using store_providers_prefix [of ais b w "msg_Key req"] c(6) by auto
  moreover have "ais \<noteq> []" using c(3) by (simp add: ais_def ProviderAddrInfos_def)
  ultimately show ?thesis by (auto simp: check_providers_Inr)
qed

lemma add_provider_only_self_witness:
  "snd (handleAddProvider demo_dht 0 ''remote'' (zero_Message\<lparr>msg_Type := 2, msg_Key := ''k'',
      msg_ProviderPeers := [\<lparr>mp_Id = ''remote'', mp_Addrs = [''a''], mp_Connection = 0\<rparr>]\<rparr>)) = 1 \<and>
   (\<exists>b. map_of (d_backends demo_dht) namespaceProviders = Some b \<and>
      1 = stores b ''k'' [\<lparr>ai_ID = ''remote'', ai_Addrs = [''a'']\<rparr>] 0)"
proof -
  let ?req = "zero_Message\<lparr>msg_Type := 2, msg_Key := ''k'',
      msg_ProviderPeers := [\<lparr>mp_Id = ''remote'', mp_Addrs = [''a''], mp_Connection = 0\<rparr>]\<rparr>"
  have h: "handleAddProvider demo_dht 0 ''remote'' ?req = (Inr None, 1)"
    by (simp add: handleAddProvider_def demo_dht_def zero_Message_def ProviderAddrInfos_def
        peer_addr_info_def Addresses_def demo_ma_def namespaceProviders_def count_backend_def Let_def)
  have "ProviderAddrInfos (d_ma demo_dht) (Some ?req) = [\<lparr>ai_ID = ''remote'', ai_Addrs = [''a'']\<rparr>]"
    by (simp add: ProviderAddrInfos_def peer_addr_info_def Addresses_def demo_dht_def demo_ma_def)
  then show ?thesis
    using add_provider_only_self [OF h] h by auto
qed

lemma store_providers_None: "store_providers b w k ais = (Inr r, w') \<Longrightarrow> r = None"
  using store_providers_prefix [of ais b w k] by auto

lemma handler_responses:
  "handleFindPeer D w remote req = (Inr r, w') \<Longrightarrow>
     \<exists>resp. r = Some resp \<and> msg_Type resp = Message_FIND_NODE \<and> msg_Key resp = msg_Key req"
  "handlePutValue D w remote req = (Inr r, w') \<Longrightarrow>
     \<exists>resp. r = Some resp \<and> msg_Type resp = msg_Type req \<and> msg_Key resp = msg_Key req"
  "handleGetValue D w remote req = (Inr r, w') \<Longrightarrow>
     \<exists>resp. r = Some resp \<and> msg_Type resp = Message_GET_VALUE \<and> msg_Key resp = msg_Key req"
  "handleGetProviders D w remote req = (Inr r, w') \<Longrightarrow>
     \<exists>resp. r = Some resp \<and> msg_Type resp = Message_GET_PROVIDERS \<and> msg_Key resp = msg_Key req"
  "handleAddProvider D w remote req = (Inr r, w') \<Longrightarrow> r = None"
proof -
  show "\<exists>resp. r = Some resp \<and> msg_Type resp = Message_FIND_NODE \<and> msg_Key resp = msg_Key req"
    if "handleFindPeer D w remote req = (Inr r, w')"
    using that by (auto simp: handleFindPeer_def Let_def split: if_splits)
  show "\<exists>resp. r = Some resp \<and> msg_Type resp = msg_Type req \<and> msg_Key resp = msg_Key req"
    if "handlePutValue D w remote req = (Inr r, w')"
    using that by (auto simp: handlePutValue_def Let_def stripPeerRecords_def
        split: if_splits option.splits sum.splits prod.splits)
  show "\<exists>resp. r = Some resp \<and> msg_Type resp = Message_GET_VALUE \<and> msg_Key resp = msg_Key req"
    if "handleGetValue D w remote req = (Inr r, w')"
    using that by (auto simp: handleGetValue_def Let_def
        split: if_splits option.splits sum.splits prod.splits any.splits)
  show "\<exists>resp. r = Some resp \<and> msg_Type resp = Message_GET_PROVIDERS \<and> msg_Key resp = msg_Key req"
    if "handleGetProviders D w remote req = (Inr r, w')"
    using that by (auto simp: handleGetProviders_def Let_def
        split: if_splits option.splits sum.splits prod.splits any.splits)
  show "r = None" if "handleAddProvider D w remote req = (Inr r, w')"
    using that store_providers_None
    by (auto simp: handleAddProvider_def Let_def split: if_splits sum.splits option.splits)
qed

lemma handleMsg_dispatch:
  "msg_Type req = 4 \<Longrightarrow> handleMsg D w remote req = handleFindPeer D w remote req"
  "msg_Type req = 5 \<Longrightarrow> handleMsg D w remote req = handlePing D w remote req"
  "msg_Type req = 0 \<Longrightarrow> handleMsg D w remote req = handlePutValue D w remote req"
  "msg_Type req = 1 \<Longrightarrow> handleMsg D w remote req = handleGetValue D w remote req"
  "msg_Type req = 2 \<Longrightarrow> handleMsg D w remote req = handleAddProvider D w remote req"
  "msg_Type req = 3 \<Longrightarrow> handleMsg D w remote req = handleGetProviders D w remote req"
  "msg_Type req \<notin> {0, 1, 2, 3, 4, 5} \<Longrightarrow>
     handleMsg D w remote req = (Inl (Errorf ''can't handle received message''), w)"
  by (simp_all add: handleMsg_def message_types)

lemma ExpectResponse_types:
  "msg_Type req \<in> {0, 1, 3, 4, 5} \<Longrightarrow> ExpectResponse req = Inr True"
  "msg_Type req = 2 \<Longrightarrow> ExpectResponse req = Inr False"
  by (auto simp: ExpectResponse_def message_types)

lemma handleMsg_unknown:
  "ExpectResponse req = Inl p \<Longrightarrow> handleMsg D w remote req = (r, w') \<Longrightarrow> w' = w"
  by (cases "msg_Type req \<in> {0, 1, 2, 3, 4, 5}")
     (auto simp: handleMsg_dispatch(7) ExpectResponse_types)

lemma handleMsg_response:
  assumes "handleMsg D w remote req = (Inr r, w')"
  shows "ExpectResponse req = Inr (r \<noteq> None) \<and> (\<forall>resp. r = Some resp \<longrightarrow>
           msg_Type resp = msg_Type req \<and> (msg_Type req \<noteq> Message_PING \<longrightarrow> msg_Key resp = msg_Key req))"
proof -
  consider "msg_Type req = 4" | "msg_Type req = 5" | "msg_Type req = 0" | "msg_Type req = 1"
    | "msg_Type req = 2" | "msg_Type req = 3" | "msg_Type req \<notin> {0, 1, 2, 3, 4, 5}" by auto
  then show ?thesis
  proof cases
    case 1
    then show ?thesis
      using assms handler_responses(1) [of D w remote req r w']
      by (auto simp: handleMsg_dispatch ExpectResponse_types Message_FIND_NODE_def)
  next
    case 2
    then show ?thesis
      using assms by (auto simp: handleMsg_dispatch ExpectResponse_types handlePing_def Message_PING_def)
  next
    case 3
    then show ?thesis
      using assms handler_responses(2) [of D w remote req r w']
      by (auto simp: handleMsg_dispatch ExpectResponse_types)
  next
    case 4
    then show ?thesis
      using assms handler_responses(3) [of D w remote req r w']
      by (auto simp: handleMsg_dispatch ExpectResponse_types Message_GET_VALUE_def)
  next
    case 5
    then show ?thesis
      using assms handler_responses(5) [of D w remote req r w']
      by (simp add: handleMsg_dispatch ExpectResponse_types)
  next
    case 6
    then show ?thesis
      using assms handler_responses(4) [of D w remote req r w']
      by (auto simp: handleMsg_dispatch ExpectResponse_types Message_GET_PROVIDERS_def)
  next
    case 7
    then show ?thesis using assms by (simp add: handleMsg_dispatch)
  qed
qed

text \<open>
  When a request is handled without an error, there is a response exactly if the protocol
  expects one for the type of the request, and the response has that type and, except for pings, the
  key of the request; a request of an unknown type is an error and changes nothing.
\<close>
lemma response_as_expected:
  "(case handleMsg D w remote req of
      (Inr r, w') \<Rightarrow>
        ExpectResponse req = Inr (r \<noteq> None) \<and>
        (\<forall>resp. r = Some resp \<longrightarrow> msg_Type resp = msg_Type req \<and>
           (msg_Type req \<noteq> Message_PING \<longrightarrow> msg_Key resp = msg_Key req))
    | (Inl e, w') \<Rightarrow> (\<exists>p. ExpectResponse req = Inl p) \<longrightarrow> w' = w)"
proof (cases "handleMsg D w remote req")
  case (Pair res w')
  show ?thesis
  proof (cases res)
    case (Inl e)
    then show ?thesis using handleMsg_unknown Pair by fastforce
  next
    case (Inr r)
    then show ?thesis using handleMsg_response Pair by simp
  qed
qed

lemma response_as_expected_witness:
  "ExpectResponse (zero_Message\<lparr>msg_Type := 5\<rparr>) = Inr True"
proof -
  have "handleMsg demo_dht 0 ''remote'' (zero_Message\<lparr>msg_Type := 5\<rparr>) =
      (Inr (Some (zero_Message\<lparr>msg_Type := 5\<rparr>)), 0)"
    by (simp add: handleMsg_dispatch handlePing_def Message_PING_def)
  then show ?thesis
    using response_as_expected [where D = demo_dht and w = 0 and remote = "''remote''"
        and req = "zero_Message\<lparr>msg_Type := 5\<rparr>"] by simp
qed

end
