(* ===== verification/Stream.thy ===== *)
theory Stream
  imports HandlerProps
begin

text \<open>
  The inbound stream of a remote peer, \<open>stream.go\<close>. A stream is driven by the outcomes of
  its I/O calls, one \<open>turn\<close> for each pass of the loop in \<open>handleNewStream\<close>: what
  \<open>ReadMsg\<close> returned (partial data comes with an error), and whether setting the deadline,
  writing and flushing the response failed. The turns that are there are consumed; a run that has
  used them all waits for the next message.

  The metrics that the stream updates are part of its state; tracing and logging are not modelled.
  \<open>proto.Unmarshal\<close> is a parameter.
\<close>

section \<open>State\<close>

record stream_metrics =
  ReceivedMessages :: nat
  ReceivedMessageErrors :: nat
  ReceivedBytes :: "nat list"
  InboundRequestLatency :: nat          \<comment> \<open>number of measurements\<close>

record 'w stream_state =
  ss_world :: 'w
  ss_sent :: "Message list"             \<comment> \<open>messages that were written and flushed\<close>
  ss_metrics :: stream_metrics

record turn =
  t_err :: "goerr option"
  t_data :: bytes
  t_deadline :: "goerr option"
  t_write :: "goerr option"
  t_flush :: "goerr option"

section \<open>Reading, unmarshalling, writing\<close>

definition streamReadMsg :: "turn \<Rightarrow> stream_metrics \<Rightarrow> (goerr + bytes) \<times> stream_metrics" where
  "streamReadMsg t m =
     (case t_err t of
        Some err \<Rightarrow>
          (Inl err,
           if length (t_data t) > 0
           then m\<lparr>ReceivedMessages := ReceivedMessages m + 1,
                  ReceivedMessageErrors := ReceivedMessageErrors m + 1,
                  ReceivedBytes := ReceivedBytes m @ [length (t_data t)]\<rparr>
           else m)
      | None \<Rightarrow> (Inr (t_data t), m))"

definition streamUnmarshalMsg ::
  "(bytes \<Rightarrow> goerr + Message) \<Rightarrow> bytes \<Rightarrow> stream_metrics \<Rightarrow> (goerr + Message) \<times> stream_metrics" where
  "streamUnmarshalMsg unmarshal data m =
     (case unmarshal data of
        Inl err \<Rightarrow>
          (Inl err, m\<lparr>ReceivedMessageErrors := ReceivedMessageErrors m + 1,
                      ReceivedBytes := ReceivedBytes m @ [length data]\<rparr>)
      | Inr req \<Rightarrow> (Inr req, m))"

text \<open>\<open>writeMsg\<close>: the buffered writer is flushed only if the message was written into it.\<close>

definition writeMsg :: "turn \<Rightarrow> goerr option" where
  "writeMsg t = (case t_write t of Some err \<Rightarrow> Some err | None \<Rightarrow> t_flush t)"

definition streamWriteMsg :: "turn \<Rightarrow> stream_metrics \<Rightarrow> goerr option \<times> stream_metrics" where
  "streamWriteMsg t m =
     (case writeMsg t of
        Some err \<Rightarrow> (Some err, m\<lparr>ReceivedMessageErrors := ReceivedMessageErrors m + 1\<rparr>)
      | None \<Rightarrow> (None, m))"

section \<open>The loop\<close>

text \<open>The result is \<open>None\<close> as long as the stream waits, else what the function returns.\<close>

fun stream_loop ::
  "('w, 'm, 'b, 'z) DHT_scheme \<Rightarrow> (bytes \<Rightarrow> goerr + Message) \<Rightarrow> peer_id \<Rightarrow> turn list
     \<Rightarrow> 'w stream_state \<Rightarrow> (goerr + unit) option \<times> 'w stream_state" where
  "stream_loop D unmarshal remote [] s = (None, s)"
| "stream_loop D unmarshal remote (t # ts) s =
     (case streamReadMsg t (ss_metrics s) of
        (Inl err, m) \<Rightarrow>
          (Some (if errors_Is err ErrEOF then Inr () else Inl err), s\<lparr>ss_metrics := m\<rparr>)
      | (Inr data, m) \<Rightarrow>
          (case streamUnmarshalMsg unmarshal data m of
             (Inl err, m) \<Rightarrow> (Some (Inl err), s\<lparr>ss_metrics := m\<rparr>)
           | (Inr req, m) \<Rightarrow>
               (case t_deadline t of
                  Some err \<Rightarrow> (Some (Inl (Wrapf ''reset stream deadline'' err)), s\<lparr>ss_metrics := m\<rparr>)
                | None \<Rightarrow>
                    (let m = m\<lparr>ReceivedMessages := ReceivedMessages m + 1,
                               ReceivedBytes := ReceivedBytes m @ [length data]\<rparr>
                     in case handleMsg D (ss_world s) remote req of
                          (Inl err, w) \<Rightarrow>
                            (Some (Inl err),
                             s\<lparr>ss_world := w,
                               ss_metrics := m\<lparr>ReceivedMessageErrors := ReceivedMessageErrors m + 1\<rparr>\<rparr>)
                        | (Inr None, w) \<Rightarrow>
                            stream_loop D unmarshal remote ts (s\<lparr>ss_world := w, ss_metrics := m\<rparr>)
                        | (Inr (Some resp), w) \<Rightarrow>
                            (case streamWriteMsg t m of
                               (Some err, m) \<Rightarrow> (Some (Inl err), s\<lparr>ss_world := w, ss_metrics := m\<rparr>)
                             | (None, m) \<Rightarrow>
                                 stream_loop D unmarshal remote ts
                                   (s\<lparr>ss_world := w, ss_sent := ss_sent s @ [resp],
                                      ss_metrics := m\<lparr>InboundRequestLatency :=
                                        InboundRequestLatency m + 1\<rparr>\<rparr>))))))"

definition handleNewStream ::
  "('w, 'm, 'b, 'z) DHT_scheme \<Rightarrow> (bytes \<Rightarrow> goerr + Message) \<Rightarrow> peer_id \<Rightarrow> goerr option \<Rightarrow> turn list
     \<Rightarrow> 'w stream_state \<Rightarrow> (goerr + unit) option \<times> 'w stream_state" where
  "handleNewStream D unmarshal remote deadline ts s =
     (case deadline of
        Some err \<Rightarrow> (Some (Inl (Wrapf ''set initial stream deadline'' err)), s)
      | None \<Rightarrow> stream_loop D unmarshal remote ts s)"

datatype stream_end = StreamOpen | StreamReset | StreamClosed

definition streamHandler ::
  "('w, 'm, 'b, 'z) DHT_scheme \<Rightarrow> (bytes \<Rightarrow> goerr + Message) \<Rightarrow> peer_id \<Rightarrow> goerr option \<Rightarrow> goerr option
     \<Rightarrow> turn list \<Rightarrow> 'w stream_state \<Rightarrow> stream_end \<times> 'w stream_state" where
  "streamHandler D unmarshal remote setService deadline ts s =
     (case setService of
        Some err \<Rightarrow> (StreamReset, s)
      | None \<Rightarrow>
          (case handleNewStream D unmarshal remote deadline ts s of
             (None, s') \<Rightarrow> (StreamOpen, s')
           | (Some (Inl err), s') \<Rightarrow> (StreamReset, s')
           | (Some (Inr _), s') \<Rightarrow> (StreamClosed, s')))"

section \<open>Specification\<close>

text \<open>Requests served one after the other, up to the first that is refused.\<close>

fun serve ::
  "('w, 'm, 'b, 'z) DHT_scheme \<Rightarrow> peer_id \<Rightarrow> Message list \<Rightarrow> 'w \<Rightarrow> Message list \<times> 'w \<times> goerr option" where
  "serve D remote [] w = ([], w, None)"
| "serve D remote (req # reqs) w =
     (case handleMsg D w remote req of
        (Inl e, w') \<Rightarrow> ([], w', Some e)
      | (Inr None, w') \<Rightarrow> serve D remote reqs w'
      | (Inr (Some resp), w') \<Rightarrow>
          (case serve D remote reqs w' of (ms, w'', e) \<Rightarrow> (resp # ms, w'', e)))"

text \<open>
  What a run of the stream has done: the requests it decoded were served, all responses but possibly
  the last were sent, and if nothing went wrong all of them were.
\<close>

definition served ::
  "('w, 'm, 'b, 'z) DHT_scheme \<Rightarrow> (bytes \<Rightarrow> goerr + Message) \<Rightarrow> peer_id \<Rightarrow> turn list
     \<Rightarrow> 'w stream_state \<Rightarrow> (goerr + unit) option \<Rightarrow> 'w stream_state \<Rightarrow> Message list \<Rightarrow> bool" where
  "served D unmarshal remote ts s res s' reqs \<longleftrightarrow>
     length reqs \<le> length ts \<and>
     map Inr reqs = map (\<lambda>t. unmarshal (t_data t)) (take (length reqs) ts) \<and>
     (\<forall>t \<in> set (take (length reqs) ts). t_err t = None) \<and>
     (case serve D remote reqs (ss_world s) of (ms, w', e) \<Rightarrow>
        ss_world s' = w' \<and> prefix (ss_sent s) (ss_sent s') \<and> prefix (ss_sent s') (ss_sent s @ ms) \<and>
        length (ss_sent s @ ms) \<le> length (ss_sent s') + 1 \<and>
        (case res of
           None \<Rightarrow> ss_sent s' = ss_sent s @ ms \<and> e = None \<and> length reqs = length ts
         | Some (Inr _) \<Rightarrow> ss_sent s' = ss_sent s @ ms \<and> e = None \<and> length reqs < length ts \<and>
             (\<exists>err. t_err (ts ! length reqs) = Some err \<and> errors_Is err ErrEOF)
         | Some (Inl err) \<Rightarrow> True))"

lemma served_stop:
  "served D unmarshal remote (t # ts) s (Some (Inl err)) (s\<lparr>ss_metrics := m\<rparr>) []"
  by (simp add: served_def)

lemma served_eof:
  "t_err t = Some err \<Longrightarrow> errors_Is err ErrEOF \<Longrightarrow>
     served D unmarshal remote (t # ts) s (Some (Inr ())) (s\<lparr>ss_metrics := m\<rparr>) []"
  by (simp add: served_def)

lemma served_refused:
  assumes "t_err t = None" and "unmarshal (t_data t) = Inr req"
    and "handleMsg D (ss_world s) remote req = (Inl err, w)"
  shows "served D unmarshal remote (t # ts) s (Some (Inl err)) (s\<lparr>ss_world := w, ss_metrics := m\<rparr>) [req]"
  using assms by (simp add: served_def)

lemma served_unwritten:
  assumes "t_err t = None" and "unmarshal (t_data t) = Inr req"
    and "handleMsg D (ss_world s) remote req = (Inr (Some resp), w)"
  shows "served D unmarshal remote (t # ts) s (Some (Inl err)) (s\<lparr>ss_world := w, ss_metrics := m\<rparr>) [req]"
  using assms by (simp add: served_def)

lemma served_silent:
  assumes "t_err t = None" and "unmarshal (t_data t) = Inr req"
    and "handleMsg D (ss_world s) remote req = (Inr None, w)"
    and "served D unmarshal remote ts (s\<lparr>ss_world := w, ss_metrics := m\<rparr>) res s' reqs"
  shows "served D unmarshal remote (t # ts) s res s' (req # reqs)"
  using assms by (auto simp: served_def split: prod.splits option.splits sum.splits)

lemma served_response:
  assumes "t_err t = None" and "unmarshal (t_data t) = Inr req"
    and "handleMsg D (ss_world s) remote req = (Inr (Some resp), w)"
    and "served D unmarshal remote ts (s\<lparr>ss_world := w, ss_sent := ss_sent s @ [resp], ss_metrics := m\<rparr>) res s' reqs"
  shows "served D unmarshal remote (t # ts) s res s' (req # reqs)"
  using assms by (auto simp: served_def dest: append_prefixD split: prod.splits option.splits sum.splits)

text \<open>One pass of the loop, by what its calls return.\<close>

lemma turn_read_error:
  "t_err t = Some err \<Longrightarrow>
     \<exists>m. stream_loop D unmarshal remote (t # ts) s =
       (Some (if errors_Is err ErrEOF then Inr () else Inl err), s\<lparr>ss_metrics := m\<rparr>)"
  by (auto simp: streamReadMsg_def intro: exI [of _ "ss_metrics s"])

lemma turn_unmarshal_error:
  "t_err t = None \<Longrightarrow> unmarshal (t_data t) = Inl err \<Longrightarrow>
     \<exists>m. stream_loop D unmarshal remote (t # ts) s = (Some (Inl err), s\<lparr>ss_metrics := m\<rparr>)"
  by (auto simp: streamReadMsg_def streamUnmarshalMsg_def)

lemma turn_deadline_error:
  "t_err t = None \<Longrightarrow> unmarshal (t_data t) = Inr req \<Longrightarrow> t_deadline t = Some err \<Longrightarrow>
     \<exists>e m. stream_loop D unmarshal remote (t # ts) s = (Some (Inl e), s\<lparr>ss_metrics := m\<rparr>)"
  by (auto simp: streamReadMsg_def streamUnmarshalMsg_def intro: exI [of _ "ss_metrics s"])

lemma turn_handled:
  assumes "t_err t = None" and "unmarshal (t_data t) = Inr req" and "t_deadline t = None"
    and "handleMsg D (ss_world s) remote req = (r, w)"
  shows "\<exists>m m'. stream_loop D unmarshal remote (t # ts) s =
     (case r of
        Inl err \<Rightarrow> (Some (Inl err), s\<lparr>ss_world := w, ss_metrics := m\<rparr>)
      | Inr None \<Rightarrow> stream_loop D unmarshal remote ts (s\<lparr>ss_world := w, ss_metrics := m\<rparr>)
      | Inr (Some resp) \<Rightarrow>
          (case writeMsg t of
             Some err \<Rightarrow> (Some (Inl err), s\<lparr>ss_world := w, ss_metrics := m\<rparr>)
           | None \<Rightarrow> stream_loop D unmarshal remote ts
               (s\<lparr>ss_world := w, ss_sent := ss_sent s @ [resp], ss_metrics := m'\<rparr>)))"
proof (cases r)
  case (Inl err)
  then show ?thesis using assms by (auto simp: streamReadMsg_def streamUnmarshalMsg_def Let_def)
next
  case (Inr o')
  show ?thesis
  proof (cases o')
    case None
    then show ?thesis
      using assms Inr by (auto simp: streamReadMsg_def streamUnmarshalMsg_def Let_def)
  next
    case (Some resp)
    then show ?thesis
      using assms Inr
      by (cases "writeMsg t")
         (auto simp: streamReadMsg_def streamUnmarshalMsg_def streamWriteMsg_def Let_def)
  qed
qed

declare stream_loop.simps(2) [simp del]

text \<open>A turn whose request is handled, given the rest of the stream.\<close>

lemma handled_turn_served:
  assumes turn: "t_err t = None" "unmarshal (t_data t) = Inr req" "t_deadline t = None"
    and run: "stream_loop D unmarshal remote (t # ts) s = (res, s')"
    and IH: "\<And>s. stream_loop D unmarshal remote ts s = (res, s') \<Longrightarrow> \<exists>reqs. served D unmarshal remote ts s res s' reqs"
  shows "\<exists>reqs. served D unmarshal remote (t # ts) s res s' reqs"
proof -
  obtain r w where h: "handleMsg D (ss_world s) remote req = (r, w)"
    by (cases "handleMsg D (ss_world s) remote req")
  obtain m m' where step: "stream_loop D unmarshal remote (t # ts) s =
      (case r of
         Inl err \<Rightarrow> (Some (Inl err), s\<lparr>ss_world := w, ss_metrics := m\<rparr>)
       | Inr None \<Rightarrow> stream_loop D unmarshal remote ts (s\<lparr>ss_world := w, ss_metrics := m\<rparr>)
       | Inr (Some resp) \<Rightarrow>
           (case writeMsg t of
              Some err \<Rightarrow> (Some (Inl err), s\<lparr>ss_world := w, ss_metrics := m\<rparr>)
            | None \<Rightarrow> stream_loop D unmarshal remote ts
                (s\<lparr>ss_world := w, ss_sent := ss_sent s @ [resp], ss_metrics := m'\<rparr>)))"
    using turn_handled [of t unmarshal req D s remote r w ts] turn h by blast
  consider err where "r = Inl err" | "r = Inr None" | resp where "r = Inr (Some resp)"
    by (metis not_None_eq obj_sumE)
  then show ?thesis
  proof cases
    case 1
    then have "res = Some (Inl err)" "s' = s\<lparr>ss_world := w, ss_metrics := m\<rparr>"
      using step run by simp_all
    then show ?thesis using served_refused [of t unmarshal req D s remote err w ts m] turn(1,2) h 1 by blast
  next
    case 2
    then have "stream_loop D unmarshal remote ts (s\<lparr>ss_world := w, ss_metrics := m\<rparr>) = (res, s')"
      using step run by simp
    from IH [OF this] obtain reqs where
      "served D unmarshal remote ts (s\<lparr>ss_world := w, ss_metrics := m\<rparr>) res s' reqs" ..
    then show ?thesis using served_silent [of t unmarshal req D s remote w ts m] turn(1,2) h 2 by blast
  next
    case 3
    show ?thesis
    proof (cases "writeMsg t")
      case (Some err)
      then have "res = Some (Inl err)" "s' = s\<lparr>ss_world := w, ss_metrics := m\<rparr>"
        using step run 3 by simp_all
      then show ?thesis
        using served_unwritten [of t unmarshal req D s remote resp w ts err m] turn(1,2) h 3 by blast
    next
      case wr: None
      let ?s1 = "s\<lparr>ss_world := w, ss_sent := ss_sent s @ [resp], ss_metrics := m'\<rparr>"
      have "stream_loop D unmarshal remote ts ?s1 = (res, s')"
        using step run 3 wr by simp
      from IH [OF this] obtain reqs where
        "served D unmarshal remote ts ?s1 res s' reqs" ..
      then show ?thesis using served_response [of t unmarshal req D s remote resp w ts m'] turn(1,2) h 3 by blast
    qed
  qed
qed

lemma stream_loop_served:
  "stream_loop D unmarshal remote ts s = (res, s') \<Longrightarrow> \<exists>reqs. served D unmarshal remote ts s res s' reqs"
proof (induction ts arbitrary: s)
  case Nil
  then show ?case by (intro exI [of _ "[]"]) (simp add: served_def)
next
  case (Cons t ts)
  consider err where "t_err t = Some err" | err where "t_err t = None" "unmarshal (t_data t) = Inl err"
    | req err where "t_err t = None" "unmarshal (t_data t) = Inr req" "t_deadline t = Some err"
    | req where "t_err t = None" "unmarshal (t_data t) = Inr req" "t_deadline t = None"
    by (metis not_None_eq obj_sumE)
  then show ?case
  proof cases
    case 1
    then show ?thesis
      using turn_read_error [OF 1, of D unmarshal remote ts s] Cons.prems served_stop served_eof [OF 1]
      by (cases "errors_Is err ErrEOF") fastforce+
  next
    case 2
    then show ?thesis
      using turn_unmarshal_error [of t unmarshal err D remote ts s] Cons.prems served_stop by fastforce
  next
    case 3
    then show ?thesis
      using turn_deadline_error [of t unmarshal req err D remote ts s] Cons.prems served_stop by fastforce
  next
    case 4
    then show ?thesis using handled_turn_served [OF 4 Cons.prems Cons.IH] by blast
  qed
qed

section \<open>Properties\<close>

text \<open>
  C25: Whatever the I/O of a stream does, the requests that were decoded have been served in
  order, each one exactly once, and their responses have been sent in order, all but possibly the
  last. A stream that is not reset has sent every response and no request was refused; it is closed
  exactly at the end of input, and is still open when every turn was used up.
\<close>
theorem stream_serves_in_order:
  assumes "streamHandler D unmarshal remote svc deadline ts s = (e, s')"
  shows "\<exists>reqs. length reqs \<le> length ts \<and>
           map Inr reqs = map (\<lambda>t. unmarshal (t_data t)) (take (length reqs) ts) \<and>
           (case serve D remote reqs (ss_world s) of (ms, w', refused) \<Rightarrow>
              ss_world s' = w' \<and>
              (\<exists>k. ss_sent s' = ss_sent s @ take k ms \<and> length ms \<le> k + 1) \<and>
              (case e of
                 StreamReset \<Rightarrow> True
               | StreamOpen \<Rightarrow> ss_sent s' = ss_sent s @ ms \<and> refused = None \<and> length reqs = length ts
               | StreamClosed \<Rightarrow> ss_sent s' = ss_sent s @ ms \<and> refused = None \<and>
                   (\<exists>x. length reqs < length ts \<and> t_err (ts ! length reqs) = Some x \<and> errors_Is x ErrEOF)))"
proof (cases "svc = None \<and> deadline = None")
  case False
  then have "e = StreamReset \<and> s' = s"
    using assms by (auto simp: streamHandler_def handleNewStream_def split: option.splits)
  then show ?thesis by (intro exI [of _ "[]"]) simp
next
  case True
  obtain res s1 where loop: "stream_loop D unmarshal remote ts s = (res, s1)"
    by (cases "stream_loop D unmarshal remote ts s")
  have e: "s' = s1" "e = (case res of None \<Rightarrow> StreamOpen | Some (Inl _) \<Rightarrow> StreamReset | Some (Inr _) \<Rightarrow> StreamClosed)"
    using assms True
    by (auto simp: streamHandler_def handleNewStream_def loop split: option.splits sum.splits)
  obtain reqs where r: "served D unmarshal remote ts s res s1 reqs"
    using stream_loop_served [OF loop] ..
  obtain ms w' refused where sv: "serve D remote reqs (ss_world s) = (ms, w', refused)"
    by (cases "serve D remote reqs (ss_world s)")
  have pre: "prefix (ss_sent s) (ss_sent s1)" "prefix (ss_sent s1) (ss_sent s @ ms)"
    "length (ss_sent s @ ms) \<le> length (ss_sent s1) + 1"
    using r by (simp_all add: served_def sv)
  then obtain a where a: "ss_sent s1 = ss_sent s @ a" by (auto elim: prefixE)
  then have "prefix a ms" using pre(2) by simp
  then have sent: "ss_sent s1 = ss_sent s @ take (length a) ms \<and> length ms \<le> length a + 1"
    using a pre(3) by (auto simp: prefix_def)
  have all: "\<exists>k. ss_sent s @ ms = ss_sent s @ take k ms \<and> length ms \<le> k + 1"
    by (intro exI [of _ "length ms"]) simp
  consider "res = None" | err where "res = Some (Inl err)" | "res = Some (Inr ())"
    by (metis not_None_eq obj_sumE old.unit.exhaust)
  then show ?thesis
  proof cases
    case 1
    then show ?thesis using r e all by (intro exI [of _ reqs]) (simp add: served_def sv)
  next
    case 2
    then show ?thesis using r e sent by (intro exI [of _ reqs]) (auto simp: served_def sv)
  next
    case 3
    then show ?thesis using r e all by (intro exI [of _ reqs]) (auto simp: served_def sv)
  qed
qed

lemma stream_serves_in_order_witness:
  "\<exists>reqs. length reqs = 1 \<and> fst (serve demo_dht ''remote'' reqs 0) = [zero_Message\<lparr>msg_Type := 5\<rparr>]"
proof -
  let ?ping = "zero_Message\<lparr>msg_Type := 5\<rparr>"
  let ?ts = "[\<lparr>t_err = None, t_data = ''ping'', t_deadline = None, t_write = None, t_flush = None\<rparr>]"
  let ?s = "\<lparr>ss_world = 0, ss_sent = [], ss_metrics = \<lparr>ReceivedMessages = 0, ReceivedMessageErrors = 0,
      ReceivedBytes = [], InboundRequestLatency = 0\<rparr>\<rparr>"
  let ?un = "\<lambda>b. Inr ?ping :: goerr + Message"
  have ping: "handleMsg demo_dht w ''remote'' ?ping = (Inr (Some ?ping), w)" for w
    by (simp add: handleMsg_dispatch handlePing_def Message_PING_def)
  obtain e s' where run: "streamHandler demo_dht ?un ''remote'' None None ?ts ?s = (e, s')"
    by (cases "streamHandler demo_dht ?un ''remote'' None None ?ts ?s")
  then have e: "e = StreamOpen"
    by (auto simp: streamHandler_def handleNewStream_def streamReadMsg_def streamUnmarshalMsg_def
        streamWriteMsg_def writeMsg_def ping Let_def stream_loop.simps(2))
  obtain reqs where "map Inr reqs = map (\<lambda>t. ?un (t_data t)) (take (length reqs) ?ts)" "length reqs = 1"
    using stream_serves_in_order [OF run] by (auto simp: e case_prod_beta)
  then have "reqs = [?ping]" by (auto simp: length_Suc_conv)
  then show ?thesis by (intro exI [of _ "[?ping]"]) (simp add: ping)
qed

end
