(* ===== verification/ProvidersProps.thy ===== *)
theory ProvidersProps
  imports Instances
begin

text \<open>
  What the provider backend promises: a stored provider is fetched, a fetch returns each live
  provider once and no expired one, what a failed store leaves behind, garbage
  collection deletes exactly the dead records, validation picks the richest address list. And what
  its cache does instead: a set that is cached stays as it was when it was cached.
\<close>

section \<open>The cache\<close>

text \<open>
  The behaviour of the LRU cache: a lookup does not change what is cached, an added entry is
  there, other entries may be evicted but are not changed.
\<close>

definition lru_laws ::
  "('m, 'ds, 'tx, 'ab, 'c, 'z) prov_env_scheme \<Rightarrow> ('c \<Rightarrow> bytes \<rightharpoonup> 'm providerSet) \<Rightarrow> bool" where
  "lru_laws E cached \<longleftrightarrow>
     (\<forall>c k. fst (lru_Get E c k) = cached c k \<and> cached (snd (lru_Get E c k)) = cached c) \<and>
     (\<forall>c k v. cached (lru_Add E c k v) k = Some v) \<and>
     (\<forall>c k v j. j \<noteq> k \<longrightarrow> cached (lru_Add E c k v) j \<in> {None, cached c j}) \<and>
     (\<forall>c k. cached (lru_Remove E c k) = (cached c)(k := None)) \<and>
     (\<forall>c k. cached (lru_Purge E c) k = None)"

lemma mem_env_lru: "lru_laws mem_env map_of"
  by (simp add: lru_laws_def mem_env_def)

lemma lru_Get_cached:
  "lru_laws E cached \<Longrightarrow> fst (lru_Get E c k) = cached c k"
  "lru_laws E cached \<Longrightarrow> cached (snd (lru_Get E c k)) = cached c"
  by (simp_all add: lru_laws_def)

section \<open>Store\<close>

abbreviation cache_key ::
  "('m, 'ds, 'tx, 'ab, 'c, 'z) prov_env_scheme \<Rightarrow> ('m, 'ds, 'ab, 'c) ProvidersBackend \<Rightarrow> bytes \<Rightarrow> bytes" where
  "cache_key E p key \<equiv> newDatastoreKey E (pb_namespace p) [key]"

abbreviation ds_key ::
  "('m, 'ds, 'tx, 'ab, 'c, 'z) prov_env_scheme \<Rightarrow> ('m, 'ds, 'ab, 'c) ProvidersBackend \<Rightarrow> bytes
     \<Rightarrow> peer_id \<Rightarrow> bytes" where
  "ds_key E p key i \<equiv> newDatastoreKey E (pb_namespace p) [key, i]"

lemma pb_Store_frame:
  "pb_namespace (snd (pb_Store E now p key v)) = pb_namespace p"
  "pb_cfg (snd (pb_Store E now p key v)) = pb_cfg p"
  by (simp_all add: pb_Store_def Let_def split: any.split prod.split option.split)

lemma pb_Store_Inr:
  assumes "pb_Store E now p key (AnyAddrInfo a) = (Inr r, p')"
  shows "r = AnyAddrInfo a \<and> fst (ds_Put E (pb_datastore p) (ds_key E p key (ai_ID a))
             (MarshalBinary \<lparr>expiry = now\<rparr>)) = None \<and>
         pb_datastore p' = snd (ds_Put E (pb_datastore p) (ds_key E p key (ai_ID a))
             (MarshalBinary \<lparr>expiry = now\<rparr>)) \<and>
         pb_cache p' = snd (lru_Get E (pb_cache p) (cache_key E p key))"
  using assms by (auto simp: pb_Store_def Let_def split: prod.splits option.splits)

lemma pb_Store_content:
  assumes "datastore_laws E content"
    and "pb_Store E now p key (AnyAddrInfo a) = (Inr r, p')"
  shows "content (pb_datastore p') =
           (content (pb_datastore p))(ds_key E p key (ai_ID a) \<mapsto> MarshalBinary \<lparr>expiry = now\<rparr>)"
  using ds_Put_content [OF assms(1), of "pb_datastore p" "ds_key E p key (ai_ID a)"
      "MarshalBinary \<lparr>expiry = now\<rparr>" None "pb_datastore p'"] pb_Store_Inr [OF assms(2)]
  by (simp add: prod_eq_iff)

section \<open>Fetch\<close>

abbreviation pb_validity :: "('m, 'ds, 'ab, 'c) ProvidersBackend \<Rightarrow> int" where
  "pb_validity p \<equiv> ProvideValidity (pb_cfg p)"

lemma pb_Fetch_hit:
  assumes "fst (lru_Get E (pb_cache p) (cache_key E p key)) = Some ps"
  shows "pb_Fetch E now p key = (Inr (AnyProviderSet ps),
           p\<lparr>pb_cache := snd (lru_Get E (pb_cache p) (cache_key E p key))\<rparr>)"
  using assms by (auto simp: pb_Fetch_def Let_def split: prod.split)

lemma pb_Fetch_miss:
  assumes "fst (lru_Get E (pb_cache p) (cache_key E p key)) = None"
    and "ds_Query E (pb_datastore p) (cache_key E p key) = Inr es"
    and ids: "ids = fresh_ids {} (live_ids E (pb_validity p) now es)"
  shows "(if ids = [] then fst (pb_Fetch E now p key) = Inl ErrNotFound
          else \<exists>out. fst (pb_Fetch E now p key) = Inr (AnyProviderSetPtr out) \<and>
                 providers out = map (mk_info E (pb_cfg p) (pb_addrBook p)) ids) \<and>
         pb_datastore (snd (pb_Fetch E now p key)) =
           delete_all E (dead_keys E (pb_validity p) now es) (pb_datastore p)"
proof -
  obtain c where c: "lru_Get E (pb_cache p) (cache_key E p key) = (None, c)"
    using assms(1) by (cases "lru_Get E (pb_cache p) (cache_key E p key)") auto
  obtain d h out where loop: "fetch_loop E (pb_cfg p) (pb_addrBook p) now es
      (pb_datastore p, pb_heap p @ [[]], \<lparr>providers = [], ps_set = length (pb_heap p)\<rparr>) = (d, h, out)"
    by (cases "fetch_loop E (pb_cfg p) (pb_addrBook p) now es
      (pb_datastore p, pb_heap p @ [[]], \<lparr>providers = [], ps_set = length (pb_heap p)\<rparr>)")
  have "d = delete_all E (dead_keys E (pb_validity p) now es) (pb_datastore p)"
    and "providers out = map (mk_info E (pb_cfg p) (pb_addrBook p)) ids"
    using fetch_loop_spec [OF ps_ok_new loop] by (simp_all add: ids)
  then show ?thesis
    using assms(2) by (simp add: pb_Fetch_def Let_def c loop)
qed

text \<open>What a live entry is, in terms of the datastore.\<close>

lemma entry_provider_Some:
  "entry_provider E v now (k, r) = Some i \<longleftrightarrow>
     (\<exists>b rec. r = Inr b \<and> UnmarshalBinary b = Inr rec \<and> time_Sub now (expiry rec) \<le> v \<and>
        b32_decode E (after_last_slash k) = Inr i)"
  by (cases r) (auto split: sum.splits)

lemma set_live_ids:
  "i \<in> set (live_ids E v now es) \<longleftrightarrow> (\<exists>e \<in> set es. entry_provider E v now e = Some i)"
  by (induction es) (auto split: option.splits)

text \<open>The entries of a query in terms of the content, when no entry is an error.\<close>

lemma query_entries:
  assumes "datastore_laws E content" and "ds_Query E d q = Inr es"
    and "\<forall>e \<in> set es. \<not> is_error_entry e"
  shows "(k, r) \<in> set es \<longleftrightarrow> (\<exists>b. r = Inr b \<and> under q k \<and> content d k = Some b)"
proof
  assume kr: "(k, r) \<in> set es"
  then obtain b where "r = Inr b" using assms(3) by (cases r) auto
  then show "\<exists>b. r = Inr b \<and> under q k \<and> content d k = Some b"
    using ds_Query_sound [OF assms(1,2), of k b] kr by simp
next
  assume "\<exists>b. r = Inr b \<and> under q k \<and> content d k = Some b"
  then show "(k, r) \<in> set es"
    using ds_Query_complete [OF assms(1,2), of k] assms(3) by fastforce
qed

definition live_record ::
  "('m, 'ds, 'tx, 'ab, 'c, 'z) prov_env_scheme \<Rightarrow> int \<Rightarrow> int \<Rightarrow> bytes \<Rightarrow> bytes \<Rightarrow> peer_id \<Rightarrow> bool" where
  "live_record E validity now k b i \<longleftrightarrow>
     (\<exists>rec. UnmarshalBinary b = Inr rec \<and> time_Sub now (expiry rec) \<le> validity \<and>
        b32_decode E (after_last_slash k) = Inr i)"

lemma live_ids_content:
  assumes "datastore_laws E content" and "ds_Query E d q = Inr es"
    and "\<forall>e \<in> set es. \<not> is_error_entry e"
  shows "i \<in> set (live_ids E v now es) \<longleftrightarrow>
           (\<exists>k b. under q k \<and> content d k = Some b \<and> live_record E v now k b i)"
proof -
  have "i \<in> set (live_ids E v now es) \<longleftrightarrow>
      (\<exists>k r. (k, r) \<in> set es \<and> entry_provider E v now (k, r) = Some i)"
    by (auto simp: set_live_ids)
  then show ?thesis
    unfolding query_entries [OF assms] entry_provider_Some live_record_def by blast
qed

lemma dead_keys_content:
  assumes "datastore_laws E content" and "ds_Query E d q = Inr es"
    and "\<forall>e \<in> set es. \<not> is_error_entry e"
  shows "k \<in> set (dead_keys E v now es) \<longleftrightarrow>
           (\<exists>b. under q k \<and> content d k = Some b \<and> (\<forall>i. \<not> live_record E v now k b i))"
proof -
  have "k \<in> set (dead_keys E v now es) \<longleftrightarrow>
      (\<exists>r. (k, r) \<in> set es \<and> entry_provider E v now (k, r) = None)"
    using assms(3) by (force simp: dead_keys_def)
  also have "\<dots> \<longleftrightarrow> (\<exists>b. under q k \<and> content d k = Some b \<and>
      (\<forall>i. entry_provider E v now (k, Inr b) \<noteq> Some i))"
    unfolding query_entries [OF assms] by auto
  finally show ?thesis unfolding entry_provider_Some live_record_def by simp
qed

lemma time_Sub_within:
  assumes "minDuration \<le> v" "v < maxDuration" "now2 - now \<le> v"
  shows "time_Sub now2 now \<le> v"
  using assms time_Sub_le by blast

section \<open>A stored provider is fetched\<close>

lemma store_fetch:
  assumes lib: "lib_laws E" and laws: "datastore_laws E content"
    and names: "clean_part (pb_namespace p)" "key \<noteq> []" "ai_ID a \<noteq> []"
    and now: "unix_nano_ok now" "now2 - now \<le> pb_validity p"
      "minDuration \<le> pb_validity p" "pb_validity p < maxDuration"
    and store: "pb_Store E now p key (AnyAddrInfo a) = (Inr r, p1)"
    and miss: "fst (lru_Get E (pb_cache p1) (cache_key E p key)) = None"
    and query: "ds_Query E (pb_datastore p1) (cache_key E p key) = Inr es" "\<forall>e \<in> set es. \<not> is_error_entry e"
  shows "\<exists>out. fst (pb_Fetch E now2 p1 key) = Inr (AnyProviderSetPtr out) \<and>
           \<lparr>ai_ID = ai_ID a, ai_Addrs = AddressFilter (pb_cfg p) (ab_Addrs E (pb_addrBook p1) (ai_ID a))\<rparr>
             \<in> set (providers out)"
proof -
  have frame: "pb_namespace p1 = pb_namespace p" "pb_cfg p1 = pb_cfg p"
    using pb_Store_frame [of E now p key "AnyAddrInfo a"] store by simp_all
  let ?k = "ds_key E p key (ai_ID a)"
  have "content (pb_datastore p1) ?k = Some (MarshalBinary \<lparr>expiry = now\<rparr>)"
    by (simp add: pb_Store_content [OF laws store])
  moreover have "under (cache_key E p key) ?k"
    using newDatastoreKey_under [OF lib names(1), of "[key]" "ai_ID a"] names by simp
  ultimately have "(?k, Inr (MarshalBinary \<lparr>expiry = now\<rparr>)) \<in> set es"
    using ds_Query_complete [OF laws query(1)] query(2) by fastforce
  moreover have "entry_provider E (pb_validity p) now2 (?k, Inr (MarshalBinary \<lparr>expiry = now\<rparr>)) = Some (ai_ID a)"
    using newDatastoreKey_last [OF lib names(1), of "[key]" "ai_ID a"] names
      time_Sub_within [OF now(3,4,2)] Unmarshal_Marshal [of "\<lparr>expiry = now\<rparr>"] now(1)
    by (simp add: b32_decode_encode [OF lib])
  ultimately have "ai_ID a \<in> set (live_ids E (pb_validity p) now2 es)"
    using set_live_ids by blast
  then have i: "ai_ID a \<in> set (fresh_ids {} (live_ids E (pb_validity p) now2 es))"
    by (simp add: set_fresh_ids)
  then have "fresh_ids {} (live_ids E (pb_validity p) now2 es) \<noteq> []" by auto
  then show ?thesis
    using i pb_Fetch_miss [of E p1 key es _ now2] miss query(1) frame by (auto simp: mk_info_def)
qed

section \<open>Properties\<close>

text \<open>
  C9: A provider that was stored is found by a fetch that has to ask the datastore, as long as
  its record is within its validity, with the addresses that the address book holds for it; its
  identity survives the base32 path element and its expiry the varint.
\<close>
theorem store_then_fetch:
  assumes lib: "lib_laws E" and laws: "datastore_laws E content"
    and names: "clean_part (pb_namespace p)" "key \<noteq> []" "ai_ID a \<noteq> []"
    and now: "unix_nano_ok now" "now2 - now \<le> pb_validity p"
      "minDuration \<le> pb_validity p" "pb_validity p < maxDuration"
    and store: "pb_Store E now p key (AnyAddrInfo a) = (Inr r, p1)"
    and miss: "fst (lru_Get E (pb_cache p1) (cache_key E p key)) = None"
    and query: "ds_Query E (pb_datastore p1) (cache_key E p key) = Inr es" "\<forall>e \<in> set es. \<not> is_error_entry e"
  shows "\<exists>out. fst (pb_Fetch E now2 p1 key) = Inr (AnyProviderSetPtr out) \<and>
           \<lparr>ai_ID = ai_ID a, ai_Addrs = AddressFilter (pb_cfg p) (ab_Addrs E (pb_addrBook p1) (ai_ID a))\<rparr>
             \<in> set (providers out)"
  using store_fetch assms by blast

lemma store_then_fetch_witness:
  "\<exists>out. fst (pb_Fetch mem_env 2000 (snd (pb_Store mem_env 1000 mem_pb ''k'' (AnyAddrInfo \<lparr>ai_ID = ''p'', ai_Addrs = [''a'']\<rparr>))) ''k'')
           = Inr (AnyProviderSetPtr out) \<and>
         \<lparr>ai_ID = ''p'', ai_Addrs = [''a'']\<rparr> \<in> set (providers out)"
proof -
  let ?a = "\<lparr>ai_ID = ''p'', ai_Addrs = [''a'']\<rparr>"
  obtain r p1 where s: "pb_Store mem_env 1000 mem_pb ''k'' (AnyAddrInfo ?a) = (r, p1)"
    by (cases "pb_Store mem_env 1000 mem_pb ''k'' (AnyAddrInfo ?a)")
  then have r: "r = Inr (AnyAddrInfo ?a)" "pb_cache p1 = []" "pb_addrBook p1 = [(''p'', [''a''])]"
    by (auto simp: pb_Store_def Let_def)
  obtain es where es: "mem_query (pb_datastore p1) (cache_key mem_env mem_pb ''k'') = Inr es"
    by (simp add: mem_query_def)
  have "\<forall>e \<in> set es. \<not> is_error_entry e"
    using mem_query_entries(2) [OF es] by force
  then have "\<exists>out. fst (pb_Fetch mem_env 2000 p1 ''k'') = Inr (AnyProviderSetPtr out) \<and>
      \<lparr>ai_ID = ai_ID ?a, ai_Addrs = AddressFilter (pb_cfg mem_pb) (ab_Addrs mem_env (pb_addrBook p1) (ai_ID ?a))\<rparr>
        \<in> set (providers out)"
    using s es r(2) unfolding r(1)
    by (intro store_then_fetch [OF mem_env_lib mem_env_laws, where now = 1000])
       (auto simp: clean_part_def unix_nano_ok_def minDuration_def maxDuration_def Hour_def Minute_def)
  then show ?thesis
    by (simp add: s r(3))
qed

text \<open>What a fetch that asks the datastore returns, and what it deletes.\<close>

lemma fetch_returns:
  assumes laws: "datastore_laws E content" and miss: "fst (lru_Get E (pb_cache p) (cache_key E p key)) = None"
    and query: "ds_Query E (pb_datastore p) (cache_key E p key) = Inr es" "\<forall>e \<in> set es. \<not> is_error_entry e"
    and fetch: "pb_Fetch E now p key = (r, p1)"
  defines "live \<equiv> \<lambda>i. \<exists>k b. under (cache_key E p key) k \<and> content (pb_datastore p) k = Some b \<and>
                        live_record E (pb_validity p) now k b i"
  shows "case r of
           Inl e \<Rightarrow> e = ErrNotFound \<and> (\<forall>i. \<not> live i)
         | Inr v \<Rightarrow> \<exists>ps. v = AnyProviderSetPtr ps \<and> distinct (map ai_ID (providers ps)) \<and>
             (\<forall>a. a \<in> set (providers ps) \<longleftrightarrow> (\<exists>i. live i \<and> a = mk_info E (pb_cfg p) (pb_addrBook p) i))"
proof -
  let ?live = "live_ids E (pb_validity p) now es"
  note m = pb_Fetch_miss [OF miss query(1) refl, of now]
  have ids: "i \<in> set ?live \<longleftrightarrow> live i" for i
    by (auto simp: live_ids_content [OF laws query] live_def)
  show ?thesis
  proof (cases "fresh_ids {} ?live = []")
    case True
    then have "set ?live = {}" using set_fresh_ids [of "{}" ?live] by simp
    then show ?thesis using m fetch True ids by auto
  next
    case False
    then obtain ps where ps: "r = Inr (AnyProviderSetPtr ps)"
      "providers ps = map (mk_info E (pb_cfg p) (pb_addrBook p)) (fresh_ids {} ?live)"
      using m fetch by auto
    then have "distinct (map ai_ID (providers ps))" using distinct_fresh_ids by (simp add: comp_def)
    moreover have "a \<in> set (providers ps) \<longleftrightarrow> (\<exists>i. live i \<and> a = mk_info E (pb_cfg p) (pb_addrBook p) i)" for a
      unfolding ids [symmetric] by (auto simp: ps(2) set_fresh_ids)
    ultimately show ?thesis using ps(1) by simp
  qed
qed

lemma fetch_deletes:
  assumes laws: "datastore_laws E content" and miss: "fst (lru_Get E (pb_cache p) (cache_key E p key)) = None"
    and query: "ds_Query E (pb_datastore p) (cache_key E p key) = Inr es" "\<forall>e \<in> set es. \<not> is_error_entry e"
    and fetch: "pb_Fetch E now p key = (r, p1)"
  defines "dead \<equiv> \<lambda>k. \<exists>b. (under (cache_key E p key) k \<and> content (pb_datastore p) k = Some b) \<and>
                        (\<forall>i. \<not> live_record E (pb_validity p) now k b i)"
  shows "content (pb_datastore p1) k = content (pb_datastore p) k \<or> dead k \<and> content (pb_datastore p1) k = None"
    and "(\<forall>d k. fst (ds_Delete E d k) = None) \<Longrightarrow> dead k \<Longrightarrow> content (pb_datastore p1) k = None"
proof -
  have d: "pb_datastore p1 = delete_all E (dead_keys E (pb_validity p) now es) (pb_datastore p)"
    using pb_Fetch_miss [OF miss query(1) refl, of now] fetch by simp
  have dead: "j \<in> set (dead_keys E (pb_validity p) now es) \<longleftrightarrow> dead j" for j
    by (simp add: dead_keys_content [OF laws query] dead_def conj_assoc)
  show "content (pb_datastore p1) k = content (pb_datastore p) k \<or> dead k \<and> content (pb_datastore p1) k = None"
    using delete_all_content [OF laws, of "dead_keys E (pb_validity p) now es" "pb_datastore p" k] dead d by auto
  show "content (pb_datastore p1) k = None" if "\<forall>d k. fst (ds_Delete E d k) = None" "dead k"
    using delete_all_removes [OF laws, of "dead_keys E (pb_validity p) now es" "pb_datastore p" k] dead d that by simp
qed

text \<open>
  C22: What a fetch does. Where the cache has a set for the key, the fetch returns it, as it was when it was
  cached, and the datastore is not touched. Otherwise it returns each provider once, and exactly the
  providers that have an unexpired record under the key, with the addresses of the address book;
  it fails with not-found when there is none; it deletes expired and unreadable records under
  the key at most, and all of them if no deletion fails.
\<close>
theorem fetch_exact:
  assumes laws: "datastore_laws E content"
    and query: "ds_Query E (pb_datastore p) (cache_key E p key) = Inr es" "\<forall>e \<in> set es. \<not> is_error_entry e"
    and fetch: "pb_Fetch E now p key = (r, p1)"
  defines "stored \<equiv> \<lambda>k b. under (cache_key E p key) k \<and> content (pb_datastore p) k = Some b"
  defines "dead \<equiv> \<lambda>k. \<exists>b. stored k b \<and> (\<forall>i. \<not> live_record E (pb_validity p) now k b i)"
  shows "case fst (lru_Get E (pb_cache p) (cache_key E p key)) of
           Some ps \<Rightarrow> r = Inr (AnyProviderSet ps) \<and> pb_datastore p1 = pb_datastore p
         | None \<Rightarrow>
             (case r of
                Inl e \<Rightarrow> e = ErrNotFound \<and> (\<forall>k b i. stored k b \<longrightarrow> \<not> live_record E (pb_validity p) now k b i)
              | Inr v \<Rightarrow> \<exists>ps. v = AnyProviderSetPtr ps \<and> distinct (map ai_ID (providers ps)) \<and>
                  (\<forall>a. a \<in> set (providers ps) \<longleftrightarrow>
                     (\<exists>k b i. stored k b \<and> live_record E (pb_validity p) now k b i \<and>
                        a = mk_info E (pb_cfg p) (pb_addrBook p) i))) \<and>
             (\<forall>k. content (pb_datastore p1) k = content (pb_datastore p) k \<or>
                  dead k \<and> content (pb_datastore p1) k = None) \<and>
             ((\<forall>d k. fst (ds_Delete E d k) = None) \<longrightarrow>
                (\<forall>k. dead k \<longrightarrow> content (pb_datastore p1) k = None))"
proof (cases "fst (lru_Get E (pb_cache p) (cache_key E p key))")
  case None
  have eq: "(\<exists>i. (\<exists>k b. under (cache_key E p key) k \<and> content (pb_datastore p) k = Some b \<and>
        live_record E (pb_validity p) now k b i) \<and> a = mk_info E (pb_cfg p) (pb_addrBook p) i) \<longleftrightarrow>
      (\<exists>k b i. stored k b \<and> live_record E (pb_validity p) now k b i \<and> a = mk_info E (pb_cfg p) (pb_addrBook p) i)" for a
    unfolding stored_def by blast
  note ret = fetch_returns [OF laws None query fetch, unfolded eq]
  note del = fetch_deletes [OF laws None query fetch]
  have kept: "content (pb_datastore p1) k = content (pb_datastore p) k \<or>
      dead k \<and> content (pb_datastore p1) k = None" for k
    using del(1) [of k] unfolding dead_def stored_def .
  have gone: "content (pb_datastore p1) k = None" if "\<forall>d k. fst (ds_Delete E d k) = None" "dead k" for k
    using del(2) [OF that(1), of k] that(2) unfolding dead_def stored_def .
  have "case r of
      Inl e \<Rightarrow> e = ErrNotFound \<and> (\<forall>k b i. stored k b \<longrightarrow> \<not> live_record E (pb_validity p) now k b i)
    | Inr v \<Rightarrow> \<exists>ps. v = AnyProviderSetPtr ps \<and> distinct (map ai_ID (providers ps)) \<and>
        (\<forall>a. a \<in> set (providers ps) \<longleftrightarrow>
           (\<exists>k b i. stored k b \<and> live_record E (pb_validity p) now k b i \<and>
              a = mk_info E (pb_cfg p) (pb_addrBook p) i))"
    using ret unfolding stored_def by (cases r) simp_all
  then show ?thesis using kept gone by (simp only: None option.case) blast
next
  case (Some ps)
  then show ?thesis using pb_Fetch_hit [OF Some, of now] fetch by simp
qed

text \<open>A stored record of an expired provider, and a live one; the fetch drops the former.\<close>

definition two_records :: "(bytes, mem_ds, mem_ab, mem_lru) ProvidersBackend" where
  "two_records = mem_pb\<lparr>pb_datastore :=
     [(ds_key mem_env mem_pb ''k'' ''p'', MarshalBinary \<lparr>expiry = 0\<rparr>),
      (ds_key mem_env mem_pb ''k'' ''q'', MarshalBinary \<lparr>expiry = 60 * Hour\<rparr>)]\<rparr>"

lemma two_records_simps [simp]:
  "pb_namespace two_records = ''providers''"
  "ProvideValidity (pb_cfg two_records) = 48 * Hour"
  "pb_cache two_records = []"
  "pb_gcSkip two_records = {}"
  "pb_datastore two_records =
     [(newDatastoreKey mem_env ''providers'' [''k'', ''p''], MarshalBinary \<lparr>expiry = 0\<rparr>),
      (newDatastoreKey mem_env ''providers'' [''k'', ''q''], MarshalBinary \<lparr>expiry = 60 * Hour\<rparr>)]"
  by (simp_all add: two_records_def)

lemma not_live_expired:
  assumes "unix_nano_ok t" and "time_Sub now t > v"
  shows "\<not> live_record E v now k (MarshalBinary \<lparr>expiry = t\<rparr>) i"
  using assms Unmarshal_Marshal [of "\<lparr>expiry = t\<rparr>"] by (simp add: live_record_def)

lemma mem_query_ok: "\<exists>es. mem_query d p = Inr es \<and> (\<forall>e \<in> set es. \<not> is_error_entry e)"
proof -
  obtain es where es: "mem_query d p = Inr es" by (simp add: mem_query_def)
  moreover have "\<forall>e \<in> set es. \<not> is_error_entry e"
    using mem_query_entries(2) [OF es] by force
  ultimately show ?thesis by blast
qed

lemma fetch_exact_witness:
  "map_of (pb_datastore (snd (pb_Fetch mem_env (61 * Hour) two_records ''k'')))
     (newDatastoreKey mem_env ''providers'' [''k'', ''p'']) = None"
proof -
  let ?k = "newDatastoreKey mem_env ''providers'' [''k'', ''p'']"
  let ?b = "MarshalBinary \<lparr>expiry = 0\<rparr>"
  obtain es where es: "mem_query (pb_datastore two_records) (newDatastoreKey mem_env ''providers'' [''k'']) = Inr es"
    "\<forall>e \<in> set es. \<not> is_error_entry e"
    using mem_query_ok by blast
  obtain r p1 where f: "pb_Fetch mem_env (61 * Hour) two_records ''k'' = (r, p1)"
    by (cases "pb_Fetch mem_env (61 * Hour) two_records ''k''")
  have "under (newDatastoreKey mem_env ''providers'' [''k'']) ?k"
    using newDatastoreKey_under [OF mem_env_lib, of "''providers''" "[''k'']" "''p''"]
    by (simp add: clean_part_def)
  moreover have "\<not> live_record mem_env (48 * Hour) (61 * Hour) ?k ?b i" for i
    by (rule not_live_expired)
       (simp_all add: unix_nano_ok_def time_Sub_def minDuration_def maxDuration_def Hour_def Minute_def)
  moreover have "map_of (pb_datastore two_records) ?k = Some ?b" by simp
  ultimately have gone: "\<exists>b. (under (cache_key mem_env two_records ''k'') ?k \<and> map_of (pb_datastore two_records) ?k = Some b) \<and>
      (\<forall>i. \<not> live_record mem_env (pb_validity two_records) (61 * Hour) ?k b i)"
    by auto
  have "fst (lru_Get mem_env (pb_cache two_records) (cache_key mem_env two_records ''k'')) = None" by simp
  then have "map_of (pb_datastore p1) ?k = None"
    using fetch_exact [OF mem_env_laws, of two_records "''k''" es "61 * Hour" r p1] es f gone by simp
  then show ?thesis by (simp add: f)
qed

text \<open>
  C29: What a store that fails leaves behind: a value that is no address info is refused before anything
  is touched. Where the datastore refused the write, the skip set is as before, the cache has lost the
  entry of the key and no other, so that the next fetch asks the datastore, and the datastore can differ only
  at the record that was to be written; but the addresses of the provider stay in the address book.
\<close>
theorem failed_store_effect:
  assumes laws: "datastore_laws E content" and lru: "lru_laws E cached"
    and store: "pb_Store E now p key v = (Inl e, p1)"
  shows "pb_gcSkip p1 = pb_gcSkip p \<and>
         (case v of
            AnyAddrInfo a \<Rightarrow>
              (\<exists>e'. e = Wrapf ''datastore put'' e') \<and>
              cached (pb_cache p1) = (cached (pb_cache p))(cache_key E p key := None) \<and>
              (\<forall>k. k \<noteq> ds_key E p key (ai_ID a) \<longrightarrow> content (pb_datastore p1) k = content (pb_datastore p) k) \<and>
              pb_addrBook p1 = ab_AddAddrs E (pb_addrBook p) (ai_ID a) (AddressFilter (pb_cfg p) (ai_Addrs a))
                (AddressTTL (pb_cfg p))
          | _ \<Rightarrow> p1 = p)"
proof (cases v)
  case (AnyAddrInfo a)
  let ?k = "ds_key E p key (ai_ID a)" and ?b = "MarshalBinary \<lparr>expiry = now\<rparr>"
  obtain err d where put: "ds_Put E (pb_datastore p) ?k ?b = (err, d)"
    by (cases "ds_Put E (pb_datastore p) ?k ?b")
  obtain hit c where get: "lru_Get E (pb_cache p) (cache_key E p key) = (hit, c)"
    by (cases "lru_Get E (pb_cache p) (cache_key E p key)")
  from store put get obtain e0 where err: "err = Some e0"
    by (cases err) (auto simp: AnyAddrInfo pb_Store_def Let_def)
  then have "pb_datastore p1 = d" "pb_gcSkip p1 = pb_gcSkip p" "e = Wrapf ''datastore put'' e0"
    "pb_cache p1 = lru_Remove E c (cache_key E p key)"
    "pb_addrBook p1 = ab_AddAddrs E (pb_addrBook p) (ai_ID a) (AddressFilter (pb_cfg p) (ai_Addrs a)) (AddressTTL (pb_cfg p))"
    using store put get by (auto simp: AnyAddrInfo pb_Store_def Let_def insert_absorb split: if_splits)
  moreover have "\<forall>k. k \<noteq> ?k \<longrightarrow> content d k = content (pb_datastore p) k"
    using ds_Put_content [OF laws put] by auto
  moreover have "cached (lru_Remove E c (cache_key E p key)) = (cached (pb_cache p))(cache_key E p key := None)"
    using lru get lru_Get_cached(2) [OF lru, of "pb_cache p" "cache_key E p key"] by (simp add: lru_laws_def)
  ultimately show ?thesis by (simp add: AnyAddrInfo)
qed (use store in \<open>auto simp: pb_Store_def\<close>)

text \<open>A datastore that refuses every write.\<close>

definition full_env :: "(bytes, mem_ds, mem_ds, mem_ab, mem_lru) prov_env" where
  "full_env = mem_env\<lparr>ds_Put := (\<lambda>d k v. (Some (Errorf ''disk full''), d))\<rparr>"

lemma full_env_laws: "datastore_laws full_env map_of" "lru_laws full_env map_of"
  using mem_env_laws mem_env_lru
  by (simp_all add: full_env_def datastore_laws_def put_law_def delete_law_def query_law_def
      txn_law_def lru_laws_def)

lemma failed_store_effect_witness:
  "pb_gcSkip (snd (pb_Store full_env 1000 mem_pb ''k'' (AnyAddrInfo \<lparr>ai_ID = ''p'', ai_Addrs = [''a'']\<rparr>))) = {}"
proof -
  let ?a = "\<lparr>ai_ID = ''p'', ai_Addrs = [''a'']\<rparr> :: bytes addr_info"
  obtain r p1 where s: "pb_Store full_env 1000 mem_pb ''k'' (AnyAddrInfo ?a) = (r, p1)"
    by (cases "pb_Store full_env 1000 mem_pb ''k'' (AnyAddrInfo ?a)")
  then have "pb_Store full_env 1000 mem_pb ''k'' (AnyAddrInfo ?a) = (Inl (Wrapf ''datastore put'' (Errorf ''disk full'')), p1)"
    by (auto simp: pb_Store_def full_env_def mem_env_def Let_def)
  from failed_store_effect [OF full_env_laws this] show ?thesis by (simp add: s)
qed

text \<open>
  A provider set that is in the cache is not refreshed: after a successful store under its
  key, a fetch still returns the set as it was cached, so the provider just stored is missing from
  it unless it was there before; and it returns the set as a value, which is not the pointer type
  that the callers of the backend expect.
\<close>
lemma cached_fetch_stale:
  assumes lru: "lru_laws E cached" and hit: "cached (pb_cache p) (cache_key E p key) = Some ps"
    and store: "pb_Store E now p key (AnyAddrInfo a) = (Inr r, p1)"
  shows "fst (pb_Fetch E now2 p1 key) = Inr (AnyProviderSet ps)"
proof -
  have "pb_namespace p1 = pb_namespace p"
    using pb_Store_frame [of E now p key "AnyAddrInfo a"] store by simp
  moreover have "cached (pb_cache p1) = cached (pb_cache p)"
    using pb_Store_Inr [OF store] lru_Get_cached(2) [OF lru] by simp
  ultimately show ?thesis
    using pb_Fetch_hit [of E p1 key ps now2] lru_Get_cached(1) [OF lru] hit by simp
qed

lemma cached_fetch_stale_witness:
  "fst (pb_Fetch mem_env 2000
      (snd (pb_Store mem_env 1000
        (mem_pb\<lparr>pb_cache := [(cache_key mem_env mem_pb ''k'', \<lparr>providers = [], ps_set = 0\<rparr>)], pb_heap := [[]]\<rparr>)
        ''k'' (AnyAddrInfo \<lparr>ai_ID = ''p'', ai_Addrs = []\<rparr>))) ''k'')
     = Inr (AnyProviderSet \<lparr>providers = [], ps_set = 0\<rparr>)"
proof -
  let ?p = "mem_pb\<lparr>pb_cache := [(cache_key mem_env mem_pb ''k'', \<lparr>providers = [], ps_set = 0\<rparr>)], pb_heap := [[]]\<rparr>"
  let ?a = "\<lparr>ai_ID = ''p'', ai_Addrs = []\<rparr> :: bytes addr_info"
  obtain r p1 where s: "pb_Store mem_env 1000 ?p ''k'' (AnyAddrInfo ?a) = (r, p1)"
    by (cases "pb_Store mem_env 1000 ?p ''k'' (AnyAddrInfo ?a)")
  then have "r = Inr (AnyAddrInfo ?a)"
    by (auto simp: pb_Store_def Let_def addProvider_def)
  then show ?thesis
    using cached_fetch_stale [OF mem_env_lru, of ?p "''k''" "\<lparr>providers = [], ps_set = 0\<rparr>" 1000 ?a] s by simp
qed

text \<open>
  C23: A garbage collection empties the cache and deletes exactly the provider records that are
  expired or unreadable: a record that stays unskipped is deleted when it cannot be parsed or its
  validity is over at every reading of the clock, a record within its validity is kept, a record
  in the skip set is kept whatever it holds, and nothing outside the namespace is touched.
\<close>
theorem collect_garbage_exact:
  fixes skip :: "nat \<Rightarrow> bytes set" and clk :: "nat \<Rightarrow> int"
  assumes laws: "datastore_laws E content" and lru: "lru_laws E cached"
    and delete: "\<forall>d k. fst (ds_Delete E d k) = None"
    and query: "ds_Query E (pb_datastore p) (pb_namespace p) = Inr es" "\<forall>e \<in> set es. \<not> is_error_entry e"
  defines "p1 \<equiv> collectGarbage E skip clk p"
    and "d \<equiv> content (pb_datastore p)" and "v \<equiv> pb_validity p"
  shows "(\<forall>k. cached (pb_cache p1) k = None) \<and>
         (\<forall>k b. under (pb_namespace p) k \<and> d k = Some b \<and> gc_drops v skip clk k b \<longrightarrow>
            content (pb_datastore p1) k = None) \<and>
         (\<forall>k b. d k = Some b \<and> gc_keeps v skip clk k b \<longrightarrow> content (pb_datastore p1) k = Some b) \<and>
         (\<forall>k. \<not> under (pb_namespace p) k \<longrightarrow> content (pb_datastore p1) k = d k)"
proof (intro conjI allI impI)
  have p1: "pb_datastore p1 = gc_loop E v skip clk 0 es (pb_datastore p)"
    "pb_cache p1 = lru_Purge E (pb_cache p)"
    using query(1) by (simp_all add: p1_def v_def collectGarbage_def Let_def)
  show "cached (pb_cache p1) k = None" for k
    using lru by (simp add: p1 lru_laws_def)
  show "content (pb_datastore p1) k = None"
    if "under (pb_namespace p) k \<and> d k = Some b \<and> gc_drops v skip clk k b" for k b
    unfolding p1 using that delete
    by (intro gc_loop_drops [OF laws]) (auto simp: query_entries [OF laws query] d_def)
  show "content (pb_datastore p1) k = Some b" if "d k = Some b \<and> gc_keeps v skip clk k b" for k b
    using gc_loop_keeps [OF laws, of k es v skip clk 0 "pb_datastore p"] that
    by (auto simp: p1 query_entries [OF laws query] d_def)
  show "content (pb_datastore p1) k = d k" if "\<not> under (pb_namespace p) k" for k
    using gc_loop_keeps [OF laws, of k es v skip clk 0 "pb_datastore p"] that
    by (auto simp: p1 query_entries [OF laws query] d_def)
qed

lemma collect_garbage_exact_witness:
  "map_of (pb_datastore (collectGarbage mem_env (\<lambda>i. {}) (\<lambda>i. 61 * Hour) two_records))
     (newDatastoreKey mem_env ''providers'' [''k'', ''p'']) = None"
proof -
  let ?k = "newDatastoreKey mem_env ''providers'' [''k'', ''p'']"
  obtain es where es: "mem_query (pb_datastore two_records) ''providers'' = Inr es"
    "\<forall>e \<in> set es. \<not> is_error_entry e"
    using mem_query_ok by blast
  have "?k = ''/providers/'' @ join_slash [pair_encode ''k'', pair_encode ''p'']"
    by (simp add: newDatastoreKey_def)
  then have "under ''providers'' ?k"
    by (simp add: under_def)
  moreover have "gc_drops (48 * Hour) (\<lambda>i. {}) (\<lambda>i. 61 * Hour) ?k (MarshalBinary \<lparr>expiry = 0\<rparr>)"
    using Unmarshal_Marshal [of "\<lparr>expiry = 0\<rparr>"]
    by (simp add: gc_drops_def unix_nano_ok_def time_Sub_def minDuration_def maxDuration_def Hour_def Minute_def)
  ultimately show ?thesis
    using collect_garbage_exact [OF mem_env_laws mem_env_lru, where p = two_records and es = es and skip = "\<lambda>i. {}" and clk = "\<lambda>i. 61 * Hour"] es
    by auto
qed

text \<open>
  Validate returns the index of the first address info with the most addresses, and refuses
  exactly the lists that hold no address info at all.
\<close>
lemma provider_validate_best:
  "case pb_Validate key vs of
     Inl e \<Rightarrow> \<forall>v \<in> set vs. \<not> is_addr_info v
   | Inr i \<Rightarrow> \<exists>a. 0 \<le> i \<and> nat i < length vs \<and> vs ! nat i = AnyAddrInfo a \<and>
       (\<forall>j b. j < length vs \<longrightarrow> vs ! j = AnyAddrInfo b \<longrightarrow>
          length (ai_Addrs b) \<le> length (ai_Addrs a) \<and>
          (length (ai_Addrs b) = length (ai_Addrs a) \<longrightarrow> nat i \<le> j))"
proof (cases "pb_Validate key vs")
  case (Inl e)
  then show ?thesis using pb_Validate_none_iff [of key vs] by simp
next
  case (Inr i)
  then show ?thesis using pb_Validate_Inr [OF Inr] by (simp add: is_best_def)
qed

lemma provider_validate_best_witness:
  "\<exists>a. ([AnyBytes ''x'', AnyAddrInfo \<lparr>ai_ID = ''p'', ai_Addrs = [''a'']\<rparr>] :: bytes any list) ! nat 1 = AnyAddrInfo a"
proof -
  let ?vs = "[AnyBytes ''x'', AnyAddrInfo \<lparr>ai_ID = ''p'', ai_Addrs = [''a'']\<rparr>] :: bytes any list"
  have "pb_Validate ''k'' ?vs = Inr 1" by (simp add: pb_Validate_def)
  then show ?thesis using provider_validate_best [where key = "''k''" and vs = ?vs] by auto
qed

end
