(* ===== verification/Amino.thy ===== *)
theory Amino
  imports ProvidersProps HandlerProps
begin

text \<open>
  The node with the default backends: \<open>initAminoBackends\<close> and the tracing loop of \<open>New\<close>
  (\<open>dht.go\<close>) put together with the handlers. The three backends share one datastore, and the
  provider backend shares the peerstore with the host, so the world \<open>amino_world\<close> holds each
  of them once and an operation of a backend works on them. Its clock is what \<open>time.Now\<close> reads.
\<close>

section \<open>The world\<close>

record ('m, 'ds, 'ab, 'c) amino_world =
  aw_now :: int
  aw_ds :: 'ds
  aw_ab :: 'ab
  aw_pb :: "('m, 'ds, 'ab, 'c) ProvidersBackend"
  aw_ipns :: "'ds RecordBackend"
  aw_pk :: "'ds RecordBackend"

definition load_pb :: "('m, 'ds, 'ab, 'c) amino_world \<Rightarrow> ('m, 'ds, 'ab, 'c) ProvidersBackend" where
  "load_pb w = (aw_pb w)\<lparr>pb_datastore := aw_ds w, pb_addrBook := aw_ab w\<rparr>"

definition save_pb ::
  "('m, 'ds, 'ab, 'c) amino_world \<Rightarrow> ('m, 'ds, 'ab, 'c) ProvidersBackend \<Rightarrow> ('m, 'ds, 'ab, 'c) amino_world" where
  "save_pb w p = w\<lparr>aw_pb := p, aw_ds := pb_datastore p, aw_ab := pb_addrBook p\<rparr>"

definition providers_backend ::
  "('m, 'ds, 'tx, 'ab, 'c, 'z) prov_env_scheme \<Rightarrow> (('m, 'ds, 'ab, 'c) amino_world, 'm) Backend" where
  "providers_backend E =
     \<lparr>Store = (\<lambda>w k v. case pb_Store E (aw_now w) (load_pb w) k v of (r, p) \<Rightarrow> (r, save_pb w p)),
      Fetch = (\<lambda>w k. case pb_Fetch E (aw_now w) (load_pb w) k of (r, p) \<Rightarrow> (r, save_pb w p)),
      Validate = pb_Validate\<rparr>"

definition ipns_backend ::
  "('ds, 'tx, 'z) rec_env_scheme \<Rightarrow> validator \<Rightarrow> (('m, 'ds, 'ab, 'c) amino_world, 'm) Backend" where
  "ipns_backend E V =
     \<lparr>Store = (\<lambda>w k v. case rb_Store E (aw_now w) ((aw_ipns w)\<lparr>rb_datastore := aw_ds w\<rparr>) k v of
        (r, b) \<Rightarrow> (r, w\<lparr>aw_ipns := b, aw_ds := rb_datastore b\<rparr>)),
      Fetch = (\<lambda>w k. case rb_Fetch E (aw_now w) ((aw_ipns w)\<lparr>rb_datastore := aw_ds w\<rparr>) k of
        (r, b) \<Rightarrow> (r, w\<lparr>aw_ipns := b, aw_ds := rb_datastore b\<rparr>)),
      Validate = rb_Validate V namespaceIPNS\<rparr>"

definition pk_backend ::
  "('ds, 'tx, 'z) rec_env_scheme \<Rightarrow> validator \<Rightarrow> (('m, 'ds, 'ab, 'c) amino_world, 'm) Backend" where
  "pk_backend E V =
     \<lparr>Store = (\<lambda>w k v. case rb_Store E (aw_now w) ((aw_pk w)\<lparr>rb_datastore := aw_ds w\<rparr>) k v of
        (r, b) \<Rightarrow> (r, w\<lparr>aw_pk := b, aw_ds := rb_datastore b\<rparr>)),
      Fetch = (\<lambda>w k. case rb_Fetch E (aw_now w) ((aw_pk w)\<lparr>rb_datastore := aw_ds w\<rparr>) k of
        (r, b) \<Rightarrow> (r, w\<lparr>aw_pk := b, aw_ds := rb_datastore b\<rparr>)),
      Validate = rb_Validate V namespacePublicKey\<rparr>"

section \<open>Construction\<close>

text \<open>
  \<open>initAminoBackends\<close>: the datastore of the configuration or a fresh in-memory one, the
  address filter of the configuration, and defaults for the rest.
\<close>

definition initAminoBackends ::
  "(int \<Rightarrow> goerr + 'c) \<Rightarrow> (goerr + 'ds) \<Rightarrow> validator \<Rightarrow> validator \<Rightarrow> 'ds option
     \<Rightarrow> ('m list \<Rightarrow> 'm list) \<Rightarrow> 'ab \<Rightarrow> int \<Rightarrow> goerr + ('m, 'ds, 'ab, 'c) amino_world" where
  "initAminoBackends lru_New InMemoryDatastore ipns_Validator pk_Validator cfg_Datastore
     cfg_AddressFilter pstore now =
     (case (case cfg_Datastore of Some d \<Rightarrow> Inr d | None \<Rightarrow> InMemoryDatastore) of
        Inl err \<Rightarrow> Inl (Wrapf ''new default datastore'' err)
      | Inr dstore \<Rightarrow>
          (case NewBackendProvider lru_New pstore dstore
                  (Some (DefaultProviderBackendConfig\<lparr>AddressFilter := cfg_AddressFilter\<rparr>)) of
             Inl err \<Rightarrow> Inl (Wrapf ''new provider backend'' err)
           | Inr pbe \<Rightarrow>
               Inr \<lparr>aw_now = now, aw_ds = dstore, aw_ab = pstore, aw_pb = pbe,
                    aw_ipns = NewBackendIPNS ipns_Validator dstore (Some DefaultRecordBackendConfig),
                    aw_pk = NewBackendPublicKey pk_Validator dstore (Some DefaultRecordBackendConfig)\<rparr>))"

text \<open>The map of backends, and the loop of \<open>New\<close> that wraps each of them in tracing.\<close>

definition amino_backends ::
  "('m, 'ds, 'tx, 'ab, 'c, 'y) prov_env_scheme \<Rightarrow> ('ds, 'tx, 'z) rec_env_scheme
     \<Rightarrow> validator \<Rightarrow> validator \<Rightarrow> (bytes, (('m, 'ds, 'ab, 'c) amino_world, 'm) Backend) gomap" where
  "amino_backends E R ipns_Validator pk_Validator =
     [(namespaceIPNS, ipns_backend R ipns_Validator), (namespacePublicKey, pk_backend R pk_Validator),
      (namespaceProviders, providers_backend E)]"

definition wrap_backends ::
  "(bytes, ('w, 'm) Backend) gomap \<Rightarrow> (bytes, ('w traced, 'm) Backend) gomap" where
  "wrap_backends bs = map (\<lambda>(ns, be). (ns, traceWrapBackend ns be)) bs"

lemma map_of_wrap_backends:
  "map_of (wrap_backends bs) ns = map_option (traceWrapBackend ns) (map_of bs ns)"
  by (induction bs) (auto simp: wrap_backends_def)

text \<open>A node whose backends are the wrapped Amino ones and whose peerstore is that of the world.\<close>

definition amino_node ::
  "('m, 'ds, 'tx, 'ab, 'c, 'y) prov_env_scheme \<Rightarrow> ('ds, 'tx, 'z) rec_env_scheme
     \<Rightarrow> validator \<Rightarrow> validator
     \<Rightarrow> (('m, 'ds, 'ab, 'c) amino_world traced, 'm, 'b) DHT \<Rightarrow> bool" where
  "amino_node E R Vi Vp D \<longleftrightarrow>
     d_backends D = wrap_backends (amino_backends E R Vi Vp) \<and>
     (\<forall>w p. d_PeerInfo D w p = \<lparr>ai_ID = p, ai_Addrs = ab_Addrs E (aw_ab (fst w)) p\<rparr>)"

lemma amino_providers:
  "amino_node E R Vi Vp D \<Longrightarrow>
     map_of (d_backends D) namespaceProviders = Some (traceWrapBackend namespaceProviders (providers_backend E))"
  by (simp add: amino_node_def map_of_wrap_backends amino_backends_def namespace_defs)

text \<open>The provider operations of the node, seen through the tracing wrapper.\<close>

lemma traced_providers_Store:
  "fst (Store (traceWrapBackend ns (providers_backend E)) w k v) =
     fst (pb_Store E (aw_now (fst w)) (load_pb (fst w)) k v)"
  "fst (snd (Store (traceWrapBackend ns (providers_backend E)) w k v)) =
     save_pb (fst w) (snd (pb_Store E (aw_now (fst w)) (load_pb (fst w)) k v))"
  by (simp_all add: traceWrapBackend_def tracedStore_def providers_backend_def split: prod.split)

lemma traced_providers_Fetch:
  "fst (Fetch (traceWrapBackend ns (providers_backend E)) w k) =
     fst (pb_Fetch E (aw_now (fst w)) (load_pb (fst w)) k)"
  "fst (snd (Fetch (traceWrapBackend ns (providers_backend E)) w k)) =
     save_pb (fst w) (snd (pb_Fetch E (aw_now (fst w)) (load_pb (fst w)) k))"
  by (simp_all add: traceWrapBackend_def tracedFetch_def providers_backend_def split: prod.split)

lemma load_save [simp]:
  "load_pb (save_pb w p) = p"
  "aw_now (save_pb w p) = aw_now w"
  "load_pb (w\<lparr>aw_now := t\<rparr>) = load_pb w"
  by (simp_all add: load_pb_def save_pb_def)

lemma load_pb_sel [simp]:
  "pb_datastore (load_pb w) = aw_ds w" "pb_addrBook (load_pb w) = aw_ab w"
  "pb_cache (load_pb w) = pb_cache (aw_pb w)" "pb_cfg (load_pb w) = pb_cfg (aw_pb w)"
  "pb_namespace (load_pb w) = pb_namespace (aw_pb w)"
  by (simp_all add: load_pb_def)

section \<open>GET_PROVIDERS on the node\<close>

text \<open>What a GET_PROVIDERS request returns, by what the backend returns.\<close>

lemma get_providers_result:
  assumes "amino_node E R Vi Vp D" and "msg_Key req \<noteq> []" and "length (msg_Key req) \<le> 80"
    and "handleGetProviders D w remote req = (r, w')"
  defines "f \<equiv> pb_Fetch E (aw_now (fst w)) (load_pb (fst w)) (msg_Key req)"
  shows "fst w' = save_pb (fst w) (snd f) \<and>
         (case fst f of
            Inl err \<Rightarrow> if errors_Is err ErrNotFound
              then \<exists>resp. r = Inr (Some resp) \<and> msg_ProviderPeers resp = []
              else \<exists>e. r = Inl e
          | Inr v \<Rightarrow>
              (case v of
                 AnyProviderSetPtr ps \<Rightarrow> \<exists>resp. r = Inr (Some resp) \<and>
                   msg_ProviderPeers resp = map (FromAddrInfo (d_ma D)) (providers ps)
               | _ \<Rightarrow> r = Inl (Errorf ''expected *providerSet value type'')))"
proof -
  let ?b = "traceWrapBackend namespaceProviders (providers_backend E)"
  obtain v w1 where v: "Fetch ?b w (msg_Key req) = (v, w1)" by (cases "Fetch ?b w (msg_Key req)")
  have f: "v = fst f" "fst w1 = save_pb (fst w) (snd f)"
    using traced_providers_Fetch [of namespaceProviders E w "msg_Key req"] by (simp_all add: v f_def)
  have "w' = w1"
    using assms(2-4) amino_providers [OF assms(1)] v
    by (auto simp: handleGetProviders_def Let_def split: sum.splits any.splits if_splits)
  moreover have "case v of
      Inl err \<Rightarrow> if errors_Is err ErrNotFound
        then \<exists>resp. r = Inr (Some resp) \<and> msg_ProviderPeers resp = [] else \<exists>e. r = Inl e
    | Inr v \<Rightarrow>
        (case v of
           AnyProviderSetPtr ps \<Rightarrow> \<exists>resp. r = Inr (Some resp) \<and>
             msg_ProviderPeers resp = map (FromAddrInfo (d_ma D)) (providers ps)
         | _ \<Rightarrow> r = Inl (Errorf ''expected *providerSet value type''))"
    using assms(2-4) amino_providers [OF assms(1)] v
    by (auto simp: handleGetProviders_def Let_def zero_Message_def split: sum.splits any.splits if_splits)
  ultimately show ?thesis by (simp add: f)
qed

lemma pb_Fetch_ptr_cached:
  assumes "fst (pb_Fetch E now p key) = Inr (AnyProviderSetPtr ps)"
  shows "\<exists>c. pb_cache (snd (pb_Fetch E now p key)) = lru_Add E c (cache_key E p key) ps"
  using assms
  by (auto simp: pb_Fetch_def Let_def split: prod.splits option.splits sum.splits if_splits)

lemma pb_Fetch_frame:
  "pb_namespace (snd (pb_Fetch E now p key)) = pb_namespace p"
  "pb_cfg (snd (pb_Fetch E now p key)) = pb_cfg p"
  by (simp_all add: pb_Fetch_def Let_def split: prod.split option.split sum.split)

section \<open>ADD_PROVIDER on the node\<close>

text \<open>The last of several successful stores, and what the earlier ones leave alone.\<close>

lemma store_providers_snoc:
  assumes "store_providers b w k (ais @ [a]) = (Inr r, w')"
  shows "\<exists>w0 v. store_providers b w k ais = (Inr None, w0) \<and> Store b w0 k (AnyAddrInfo a) = (Inr v, w')"
  using assms
proof (induction ais arbitrary: w)
  case Nil
  then show ?case by (auto split: prod.splits sum.splits)
next
  case (Cons x ais)
  then obtain v w1 where "Store b w k (AnyAddrInfo x) = (Inr v, w1)"
    "store_providers b w1 k (ais @ [a]) = (Inr r, w')"
    by (auto split: prod.splits sum.splits)
  then show ?case using Cons.IH [of w1] by auto
qed

definition same_setup ::
  "('m, 'ds, 'ab, 'c) amino_world \<Rightarrow> ('m, 'ds, 'ab, 'c) amino_world \<Rightarrow> bool" where
  "same_setup w w' \<longleftrightarrow>
     aw_now w' = aw_now w \<and> pb_namespace (aw_pb w') = pb_namespace (aw_pb w) \<and>
     pb_cfg (aw_pb w') = pb_cfg (aw_pb w)"

lemma same_setup_save:
  "same_setup w (save_pb w (snd (pb_Store E t (load_pb w) k v)))"
  using pb_Store_frame [of E t "load_pb w" k v] by (simp add: same_setup_def save_pb_def)

lemma store_providers_setup:
  "same_setup (fst w) (fst (snd (store_providers (traceWrapBackend ns (providers_backend E)) w k ais)))"
proof (induction ais arbitrary: w)
  case Nil
  then show ?case by (simp add: same_setup_def)
next
  case (Cons a ais)
  let ?b = "traceWrapBackend ns (providers_backend E)"
  obtain r w1 where s: "Store ?b w k (AnyAddrInfo a) = (r, w1)"
    by (cases "Store ?b w k (AnyAddrInfo a)")
  then have "fst w1 = save_pb (fst w) (snd (pb_Store E (aw_now (fst w)) (load_pb (fst w)) k (AnyAddrInfo a)))"
    using traced_providers_Store(2) [of ns E w k "AnyAddrInfo a"] by simp
  then have "same_setup (fst w) (fst w1)" using same_setup_save by metis
  then show ?case using Cons.IH [of w1] s by (cases r) (auto simp: same_setup_def)
qed

lemma add_provider_stores:
  assumes "amino_node E R Vi Vp D" and "handleAddProvider D w remote req = (Inr r, w1)"
  shows "\<exists>w0 a v p. same_setup (fst w) w0 \<and> ai_ID a = remote \<and>
           pb_Store E (aw_now w0) (load_pb w0) (msg_Key req) (AnyAddrInfo a) = (Inr v, p) \<and>
           fst w1 = save_pb w0 p"
proof -
  let ?b = "traceWrapBackend namespaceProviders (providers_backend E)"
  let ?ais = "ProviderAddrInfos (d_ma D) (Some req)"
  have run: "store_providers ?b w (msg_Key req) ?ais = (Inr r, w1)"
    and self: "\<forall>a \<in> set ?ais. ai_ID a = remote" and "?ais \<noteq> []"
    using assms(2) amino_providers [OF assms(1)]
    by (auto simp: handleAddProvider_def Let_def check_providers_Inr ProviderAddrInfos_def
        split: if_splits sum.splits)
  then obtain ais a where ais: "?ais = ais @ [a]" by (metis append_butlast_last_id)
  obtain w0 v where w0: "store_providers ?b w (msg_Key req) ais = (Inr None, w0)"
    "Store ?b w0 (msg_Key req) (AnyAddrInfo a) = (Inr v, w1)"
    using store_providers_snoc [OF run [unfolded ais]] by auto
  obtain v' p where p: "pb_Store E (aw_now (fst w0)) (load_pb (fst w0)) (msg_Key req) (AnyAddrInfo a) = (v', p)"
    by (cases "pb_Store E (aw_now (fst w0)) (load_pb (fst w0)) (msg_Key req) (AnyAddrInfo a)")
  have "v' = Inr v" "fst w1 = save_pb (fst w0) p"
    using traced_providers_Store [of namespaceProviders E w0 "msg_Key req" "AnyAddrInfo a"] w0(2) p by simp_all
  moreover have "same_setup (fst w) (fst w0)"
    using store_providers_setup [of w namespaceProviders E "msg_Key req" ais] w0(1) by simp
  ultimately show ?thesis using p self ais by auto
qed

lemma added_provider_found:
  assumes node: "amino_node E R Vi Vp D" and lib: "lib_laws E" and laws: "datastore_laws E content"
    and ns: "clean_part (pb_namespace (aw_pb (fst w)))"
    and add: "handleAddProvider D w remote req = (Inr r, w1)" and remote: "remote \<noteq> []"
    and now: "unix_nano_ok (aw_now (fst w))" "t - aw_now (fst w) \<le> ProvideValidity (pb_cfg (aw_pb (fst w)))"
      "minDuration \<le> ProvideValidity (pb_cfg (aw_pb (fst w)))"
      "ProvideValidity (pb_cfg (aw_pb (fst w))) < maxDuration"
    and miss: "fst (lru_Get E (pb_cache (aw_pb (fst w1)))
                 (newDatastoreKey E (pb_namespace (aw_pb (fst w))) [msg_Key req])) = None"
    and query: "ds_Query E (aw_ds (fst w1)) (newDatastoreKey E (pb_namespace (aw_pb (fst w))) [msg_Key req]) = Inr es"
      "\<forall>e \<in> set es. \<not> is_error_entry e"
    and get: "msg_Key req2 = msg_Key req"
      "handleGetProviders D ((fst w1)\<lparr>aw_now := t\<rparr>, snd w1) remote2 req2 = (r2, w2)"
  shows "\<exists>resp. r2 = Inr (Some resp) \<and> remote \<in> mp_Id ` set (msg_ProviderPeers resp)"
proof -
  obtain w0 a v p where s: "same_setup (fst w) w0" "ai_ID a = remote"
    "pb_Store E (aw_now w0) (load_pb w0) (msg_Key req) (AnyAddrInfo a) = (Inr v, p)" "fst w1 = save_pb w0 p"
    using add_provider_stores [OF node add] by blast
  have key: "msg_Key req \<noteq> []" "length (msg_Key req) \<le> 80"
    using add by (auto simp: handleAddProvider_def Let_def split: if_splits)
  have p: "pb_cache (aw_pb (fst w1)) = pb_cache p" "aw_ds (fst w1) = pb_datastore p" "load_pb (fst w1) = p"
    by (simp_all add: s(4)) (simp_all add: save_pb_def)
  have conf: "pb_namespace (load_pb w0) = pb_namespace (aw_pb (fst w))"
    "pb_cfg (load_pb w0) = pb_cfg (aw_pb (fst w))" "aw_now w0 = aw_now (fst w)"
    using s(1) by (simp_all add: same_setup_def)
  have "clean_part (pb_namespace (load_pb w0))" "ai_ID a \<noteq> []" "unix_nano_ok (aw_now w0)"
    "t - aw_now w0 \<le> pb_validity (load_pb w0)" "minDuration \<le> pb_validity (load_pb w0)"
    "pb_validity (load_pb w0) < maxDuration"
    "fst (lru_Get E (pb_cache p) (cache_key E (load_pb w0) (msg_Key req))) = None"
    "ds_Query E (pb_datastore p) (cache_key E (load_pb w0) (msg_Key req)) = Inr es"
    using ns remote now miss query(1) s(2) by (simp_all only: conf p simp_thms)
  then obtain out where out: "fst (pb_Fetch E t p (msg_Key req)) = Inr (AnyProviderSetPtr out)"
    "\<lparr>ai_ID = ai_ID a, ai_Addrs = AddressFilter (pb_cfg (load_pb w0)) (ab_Addrs E (pb_addrBook p) (ai_ID a))\<rparr>
       \<in> set (providers out)"
    using store_fetch [OF lib laws _ key(1) _ _ _ _ _ s(3) _ _ query(2)] by blast
  have "remote \<in> ai_ID ` set (providers out)"
    using out(2) s(2) by (metis addr_info.select_convs(1) imageI)
  then have "remote \<in> mp_Id ` set (map (FromAddrInfo (d_ma D)) (providers out))"
    by (simp add: image_image)
  then show ?thesis
    using get_providers_result [OF node _ _ get(2)] get(1) key out(1) p(3) by (auto simp: image_image)
qed

section \<open>Namespaces\<close>

lemma other_namespace:
  assumes "lib_laws L" and "key \<noteq> []" and "ns = namespaceIPNS \<or> ns = namespacePublicKey"
  shows "\<not> under namespaceProviders (newDatastoreKey L ns [key])"
proof -
  have "clean_part ns" using assms(3) by (auto simp: clean_part_def namespace_defs)
  from newDatastoreKey_eq [OF assms(1) this, of "[key]"] show ?thesis
    using assms(2,3) by (auto simp: under_def namespace_defs)
qed

lemma rb_Store_elsewhere:
  assumes "datastore_laws E content" and "rb_Store E now b key v = (r, b1)"
    and "k \<noteq> rb_key E b key"
  shows "content (rb_datastore b1) k = content (rb_datastore b) k"
proof (cases r)
  case (Inl e)
  then show ?thesis using rb_Store_Inl [OF assms(1)] assms(2) by fastforce
next
  case (Inr w)
  then show ?thesis using rb_Store_content [OF assms(1)] assms(2,3) by fastforce
qed

section \<open>A concrete node\<close>

definition slash_SplitKey :: "bytes \<Rightarrow> goerr + bytes \<times> bytes" where
  "slash_SplitKey k =
     (let r = drop 1 k; ns = takeWhile (\<lambda>c. c \<noteq> CHR ''/'') r
      in if take 1 k \<noteq> ''/'' \<or> ns = [] \<or> ns = r then Inl (Errorf ''invalid record keytype'')
         else Inr (ns, drop (length ns + 1) r))"

definition mem_amino :: "(bytes, mem_ds, mem_ab, mem_lru) amino_world" where
  "mem_amino = \<lparr>aw_now = 1000, aw_ds = [], aw_ab = [], aw_pb = mem_pb, aw_ipns = mem_rb,
     aw_pk = NewBackendPublicKey len_validator [] None\<rparr>"

definition mem_node :: "((bytes, mem_ds, mem_ab, mem_lru) amino_world traced, bytes, bytes) DHT" where
  "mem_node =
     \<lparr>d_self = ''self'', d_BucketSize = 20, d_hash = demo_hash, d_ma = demo_ma,
      d_NearestNodes = (\<lambda>w k n. []),
      d_PeerInfo = (\<lambda>w p. \<lparr>ai_ID = p, ai_Addrs = ab_Addrs mem_env (aw_ab (fst w)) p\<rparr>),
      d_NotifyConnectivity = (\<lambda>w p. w), d_SplitKey = slash_SplitKey,
      d_backends = wrap_backends (amino_backends mem_env mem_rec_env len_validator len_validator)\<rparr>"

lemma mem_node_amino: "amino_node mem_env mem_rec_env len_validator len_validator mem_node"
  by (simp add: amino_node_def mem_node_def)

definition add_req :: Message where
  "add_req = zero_Message\<lparr>msg_Type := 2, msg_Key := ''k'',
     msg_ProviderPeers := [\<lparr>mp_Id = ''p'', mp_Addrs = [''a''], mp_Connection = 0\<rparr>]\<rparr>"

lemma add_req_run:
  "\<exists>w1. handleAddProvider mem_node (mem_amino, []) ''p'' add_req = (Inr None, w1) \<and>
     pb_cache (aw_pb (fst w1)) = []"
proof -
  have "map_of (d_backends mem_node) namespaceProviders =
      Some (traceWrapBackend namespaceProviders (providers_backend mem_env))"
    by (rule amino_providers [OF mem_node_amino])
  moreover have "ProviderAddrInfos (d_ma mem_node) (Some add_req) = [\<lparr>ai_ID = ''p'', ai_Addrs = [''a'']\<rparr>]"
    by (simp add: ProviderAddrInfos_def peer_addr_info_def Addresses_def mem_node_def demo_ma_def add_req_def)
  ultimately show ?thesis
    by (simp add: handleAddProvider_def add_req_def traceWrapBackend_def tracedStore_def
        providers_backend_def pb_Store_def load_pb_def save_pb_def mem_amino_def Let_def)
qed

section \<open>Properties\<close>

text \<open>
  A peer that adds itself as a provider is returned by the next GET_PROVIDERS for the same
  key from any peer, as long as its record is within its validity and the key has not been cached
  since: request parsing, base32 keys, the datastore, the expiry record, the address book and the
  response put together.
\<close>
lemma add_then_get_providers:
  assumes node: "amino_node E R Vi Vp D" and lib: "lib_laws E" and laws: "datastore_laws E content"
    and ns: "clean_part (pb_namespace (aw_pb (fst w)))"
    and add: "handleAddProvider D w remote req = (Inr r, w1)" and remote: "remote \<noteq> []"
    and now: "unix_nano_ok (aw_now (fst w))" "t - aw_now (fst w) \<le> ProvideValidity (pb_cfg (aw_pb (fst w)))"
      "minDuration \<le> ProvideValidity (pb_cfg (aw_pb (fst w)))"
      "ProvideValidity (pb_cfg (aw_pb (fst w))) < maxDuration"
    and miss: "fst (lru_Get E (pb_cache (aw_pb (fst w1)))
                 (newDatastoreKey E (pb_namespace (aw_pb (fst w))) [msg_Key req])) = None"
    and query: "ds_Query E (aw_ds (fst w1)) (newDatastoreKey E (pb_namespace (aw_pb (fst w))) [msg_Key req]) = Inr es"
      "\<forall>e \<in> set es. \<not> is_error_entry e"
    and get: "msg_Key req2 = msg_Key req"
      "handleGetProviders D ((fst w1)\<lparr>aw_now := t\<rparr>, snd w1) remote2 req2 = (r2, w2)"
  shows "\<exists>resp. r2 = Inr (Some resp) \<and> remote \<in> mp_Id ` set (msg_ProviderPeers resp)"
  using added_provider_found assms by blast

lemma add_then_get_providers_witness:
  "\<exists>w1 resp. handleAddProvider mem_node (mem_amino, []) ''p'' add_req = (Inr None, w1) \<and>
     fst (handleGetProviders mem_node ((fst w1)\<lparr>aw_now := 2000\<rparr>, snd w1) ''q''
       (zero_Message\<lparr>msg_Type := 3, msg_Key := ''k''\<rparr>)) = Inr (Some resp) \<and>
     ''p'' \<in> mp_Id ` set (msg_ProviderPeers resp)"
proof -
  obtain w1 where w1: "handleAddProvider mem_node (mem_amino, []) ''p'' add_req = (Inr None, w1)"
    "pb_cache (aw_pb (fst w1)) = []"
    using add_req_run by blast
  obtain es where es: "mem_query (aw_ds (fst w1)) (newDatastoreKey mem_env ''providers'' [''k'']) = Inr es"
    "\<forall>e \<in> set es. \<not> is_error_entry e"
    using mem_query_ok by blast
  let ?get = "zero_Message\<lparr>msg_Type := 3, msg_Key := ''k''\<rparr>"
  obtain r2 w2 where g: "handleGetProviders mem_node ((fst w1)\<lparr>aw_now := 2000\<rparr>, snd w1) ''q'' ?get = (r2, w2)"
    by (cases "handleGetProviders mem_node ((fst w1)\<lparr>aw_now := 2000\<rparr>, snd w1) ''q'' ?get")
  have sel: "aw_pb mem_amino = mem_pb" "aw_now mem_amino = 1000" "msg_Key add_req = ''k''"
    by (simp_all add: mem_amino_def add_req_def)
  have "\<exists>resp. r2 = Inr (Some resp) \<and> ''p'' \<in> mp_Id ` set (msg_ProviderPeers resp)"
    by (rule add_then_get_providers [OF mem_node_amino mem_env_lib mem_env_laws _ w1(1) _ _ _ _ _ _ _ es(2) _ g])
       (simp_all add: sel w1(2) es(1) clean_part_def unix_nano_ok_def minDuration_def maxDuration_def
         Hour_def)
  then show ?thesis using w1(1) g by auto
qed

text \<open>
  C33: After a GET_PROVIDERS request that returned a provider, every further GET_PROVIDERS request
  for the same key fails, from whichever peer and at whatever time it comes, until the cache
  loses the entry: the cached value does not have the type that the handler expects.
\<close>
theorem repeated_get_providers_fails:
  assumes node: "amino_node E R Vi Vp D" and lru: "lru_laws E cached"
    and key: "msg_Key req \<noteq> []" "length (msg_Key req) \<le> 80" "msg_Key req2 = msg_Key req"
    and first: "handleGetProviders D w remote req = (Inr (Some resp), w1)" "msg_ProviderPeers resp \<noteq> []"
    and second: "handleGetProviders D ((fst w1)\<lparr>aw_now := t\<rparr>, snd w1) remote2 req2 = (r2, w2)"
  shows "r2 = Inl (Errorf ''expected *providerSet value type'')"
proof -
  let ?f = "pb_Fetch E (aw_now (fst w)) (load_pb (fst w)) (msg_Key req)"
  note res = get_providers_result [OF node key(1,2) first(1)]
  have w1: "fst w1 = save_pb (fst w) (snd ?f)" using res by blast
  obtain ps where ps: "fst ?f = Inr (AnyProviderSetPtr ps)"
    using res first(2) by (auto split: sum.splits any.splits if_splits)
  obtain c where "pb_cache (snd ?f) = lru_Add E c (cache_key E (load_pb (fst w)) (msg_Key req)) ps"
    using pb_Fetch_ptr_cached [OF ps] by blast
  then have "fst (lru_Get E (pb_cache (snd ?f)) (cache_key E (snd ?f) (msg_Key req))) = Some ps"
    using lru pb_Fetch_frame [of E "aw_now (fst w)" "load_pb (fst w)" "msg_Key req"]
    by (simp add: lru_laws_def)
  then have "fst (pb_Fetch E t (snd ?f) (msg_Key req)) = Inr (AnyProviderSet ps)"
    by (simp add: pb_Fetch_hit)
  then show ?thesis
    using get_providers_result [OF node, of req2 "((fst w1)\<lparr>aw_now := t\<rparr>, snd w1)" remote2 r2 w2]
      key second by (simp add: w1)
qed

lemma added_found_run:
  "\<exists>w1 resp w2. handleGetProviders mem_node w1 ''q'' (zero_Message\<lparr>msg_Type := 3, msg_Key := ''k''\<rparr>)
       = (Inr (Some resp), w2) \<and> msg_ProviderPeers resp \<noteq> []"
proof -
  obtain w1 where w1: "handleAddProvider mem_node (mem_amino, []) ''p'' add_req = (Inr None, w1)"
    "pb_cache (aw_pb (fst w1)) = []"
    using add_req_run by blast
  obtain es where es: "mem_query (aw_ds (fst w1)) (newDatastoreKey mem_env ''providers'' [''k'']) = Inr es"
    "\<forall>e \<in> set es. \<not> is_error_entry e"
    using mem_query_ok by blast
  let ?get = "zero_Message\<lparr>msg_Type := 3, msg_Key := ''k''\<rparr>"
  let ?w = "((fst w1)\<lparr>aw_now := 2000\<rparr>, snd w1)"
  obtain r2 w2 where g: "handleGetProviders mem_node ?w ''q'' ?get = (r2, w2)"
    by (cases "handleGetProviders mem_node ?w ''q'' ?get")
  have sel: "aw_pb mem_amino = mem_pb" "aw_now mem_amino = 1000" "msg_Key add_req = ''k''"
    by (simp_all add: mem_amino_def add_req_def)
  have "\<exists>resp. r2 = Inr (Some resp) \<and> ''p'' \<in> mp_Id ` set (msg_ProviderPeers resp)"
    by (rule added_provider_found [OF mem_node_amino mem_env_lib mem_env_laws _ w1(1) _ _ _ _ _ _ _ es(2) _ g])
       (simp_all add: sel w1(2) es(1) clean_part_def unix_nano_ok_def minDuration_def maxDuration_def
         Hour_def)
  then obtain resp where "r2 = Inr (Some resp)" "msg_ProviderPeers resp \<noteq> []" by fastforce
  then show ?thesis using g by blast
qed

lemma repeated_get_providers_fails_witness:
  "\<exists>w1. fst (handleGetProviders mem_node w1 ''r'' (zero_Message\<lparr>msg_Type := 3, msg_Key := ''k''\<rparr>))
     = Inl (Errorf ''expected *providerSet value type'')"
proof -
  let ?get = "zero_Message\<lparr>msg_Type := 3, msg_Key := ''k''\<rparr>"
  obtain w0 resp w1 where g: "handleGetProviders mem_node w0 ''q'' ?get = (Inr (Some resp), w1)"
    "msg_ProviderPeers resp \<noteq> []"
    using added_found_run by blast
  let ?w = "((fst w1)\<lparr>aw_now := 3000\<rparr>, snd w1)"
  obtain r2 w2 where h: "handleGetProviders mem_node ?w ''r'' ?get = (r2, w2)"
    by (cases "handleGetProviders mem_node ?w ''r'' ?get")
  have "r2 = Inl (Errorf ''expected *providerSet value type'')"
    by (rule repeated_get_providers_fails [OF mem_node_amino mem_env_lru _ _ _ g h]) simp_all
  then show ?thesis using h by (intro exI [of _ ?w]) simp
qed

text \<open>A record backend writes no key of the provider records.\<close>

lemma rb_Store_providers:
  assumes "lib_laws R" "datastore_laws R content" "path \<noteq> []"
    and "rb_namespace b = namespaceIPNS \<or> rb_namespace b = namespacePublicKey" and k: "under namespaceProviders k"
  shows "content (rb_datastore (snd (rb_Store R now b path v))) k = content (rb_datastore b) k"
proof -
  obtain r b1 where "rb_Store R now b path v = (r, b1)" by (rule prod.exhaust)
  moreover have "k \<noteq> rb_key R b path" using other_namespace [OF assms(1,3,4)] k by auto
  ultimately show ?thesis using rb_Store_elsewhere [OF assms(2)] by fastforce
qed

text \<open>
  Namespaces do not interfere: a PUT_VALUE request, whatever its key, leaves every provider
  record in the shared datastore as it is.
\<close>
lemma put_value_keeps_providers:
  fixes D :: "(('m, 'ds, 'ab, 'c) amino_world traced, 'm, 'b) DHT"
  assumes node: "amino_node E R Vi Vp D" and lib: "lib_laws R" and laws: "datastore_laws R content"
    and ns: "rb_namespace (aw_ipns (fst w)) = namespaceIPNS" "rb_namespace (aw_pk (fst w)) = namespacePublicKey"
    and put: "handlePutValue D w remote req = (r, w')"
    and k: "under namespaceProviders k"
  shows "content (aw_ds (fst w')) k = content (aw_ds (fst w)) k"
proof (cases "\<exists>rec ns path b. msg_Record req = Some rec \<and> d_SplitKey D (msg_Key req) = Inr (ns, path) \<and>
    path \<noteq> [] \<and> map_of (d_backends D) ns = Some b \<and>
    snd (Store b w path (AnyRecord rec)) = w'")
  case False
  then have "w' = w"
    using put by (auto simp: handlePutValue_def Let_def split: if_splits option.splits sum.splits prod.splits)
  then show ?thesis by simp
next
  case True
  then obtain rec ns path b where b: "d_SplitKey D (msg_Key req) = Inr (ns, path)" "path \<noteq> []"
    "map_of (d_backends D) ns = Some b" "snd (Store b w path (AnyRecord rec)) = w'"
    by blast
  then obtain be where be: "map_of (amino_backends E R Vi Vp) ns = Some be" "b = traceWrapBackend ns be"
    using node by (auto simp: amino_node_def map_of_wrap_backends)
  have w': "fst w' = snd (Store be (fst w) path (AnyRecord rec))"
    using b(4) by (auto simp: be(2) traceWrapBackend_def tracedStore_def split: prod.split)
  consider "be = ipns_backend R Vi" | "be = pk_backend R Vp" | "be = providers_backend E"
    using be(1) by (auto simp: amino_backends_def split: if_splits)
  then show ?thesis
  proof cases
    case 1
    have "content (rb_datastore (snd (rb_Store R (aw_now (fst w)) ((aw_ipns (fst w))\<lparr>rb_datastore := aw_ds (fst w)\<rparr>)
        path (AnyRecord rec :: 'm any)))) k = content (aw_ds (fst w)) k"
      using rb_Store_providers [OF lib laws b(2) _ k, where b = "(aw_ipns (fst w))\<lparr>rb_datastore := aw_ds (fst w)\<rparr>" and
          now = "aw_now (fst w)" and v = "AnyRecord rec :: 'm any"] ns(1) by simp
    then show ?thesis by (simp add: w' 1 ipns_backend_def split_beta)
  next
    case 2
    have "content (rb_datastore (snd (rb_Store R (aw_now (fst w)) ((aw_pk (fst w))\<lparr>rb_datastore := aw_ds (fst w)\<rparr>)
        path (AnyRecord rec :: 'm any)))) k = content (aw_ds (fst w)) k"
      using rb_Store_providers [OF lib laws b(2) _ k, where b = "(aw_pk (fst w))\<lparr>rb_datastore := aw_ds (fst w)\<rparr>" and
          now = "aw_now (fst w)" and v = "AnyRecord rec :: 'm any"] ns(2) by simp
    then show ?thesis by (simp add: w' 2 pk_backend_def split_beta)
  next
    case 3
    then show ?thesis
      by (simp add: w' 3 providers_backend_def pb_Store_def save_pb_def load_pb_def)
  qed
qed

lemma put_value_keeps_providers_witness:
  "\<exists>w'. map_of (aw_ds (fst w')) ''/providers/x'' = None \<and>
     w' = snd (handlePutValue mem_node (mem_amino, []) ''q''
       (zero_Message\<lparr>msg_Type := 0, msg_Key := ''/ipns/n'',
          msg_Record := Some \<lparr>rec_Key = ''/ipns/n'', rec_Value = ''v'', rec_TimeReceived = []\<rparr>\<rparr>))"
proof -
  let ?req = "zero_Message\<lparr>msg_Type := 0, msg_Key := ''/ipns/n'',
      msg_Record := Some \<lparr>rec_Key = ''/ipns/n'', rec_Value = ''v'', rec_TimeReceived = []\<rparr>\<rparr>"
  obtain r w' where h: "handlePutValue mem_node (mem_amino, []) ''q'' ?req = (r, w')"
    by (cases "handlePutValue mem_node (mem_amino, []) ''q'' ?req")
  have "map_of (aw_ds (fst w')) ''/providers/x'' = map_of (aw_ds (fst (mem_amino, [] :: span_event list))) ''/providers/x''"
    by (rule put_value_keeps_providers [OF mem_node_amino mem_rec_lib mem_rec_laws _ _ h])
       (simp_all add: mem_amino_def mem_rb_def NewBackendIPNS_def NewBackendPublicKey_def under_def
         namespaceProviders_def)
  then show ?thesis using h by (intro exI [of _ w']) (simp add: mem_amino_def)
qed

end
