(* ===== verification/CplUtil.thy ===== *)
theory CplUtil
  imports Keys
begin

unbundle bit_operations_syntax

text \<open>
  \<open>internal/cplutil\<close>: keys and peer identities whose hash starts with chosen bits. The program
  \<open>gen.go\<close> searches, by counting up, a preimage for each 16-bit prefix of a SHA-256 hash; the
  table it prints is the file \<open>cpl_prefixmap.go\<close>. Here the search is \<open>gen_loop\<close>, and
  the table the code looks things up in is an argument, so that the properties can say that it is
  the one that was searched. Random bytes are arguments too.
\<close>

section \<open>Bytes and words\<close>

definition BigEndian_Uint32 :: "bytes \<Rightarrow> 32 word" where
  "BigEndian_Uint32 b =
     ucast (char_byte (b ! 3)) OR push_bit 8 (ucast (char_byte (b ! 2))) OR
     push_bit 16 (ucast (char_byte (b ! 1))) OR push_bit 24 (ucast (char_byte (b ! 0)))"

definition BigEndian_PutUint32 :: "32 word \<Rightarrow> bytes" where
  "BigEndian_PutUint32 w =
     map byte_char [ucast (drop_bit 24 w), ucast (drop_bit 16 w), ucast (drop_bit 8 w), ucast w]"

text \<open>\<open>[32 + 2]byte\<close> with the code of the hash function, the length and the number.\<close>

definition multihash_id :: "32 word \<Rightarrow> bytes" where
  "multihash_id i = [byte_char 0x12, byte_char 32] @ BigEndian_PutUint32 i @ replicate 28 (byte_char 0)"

section \<open>The table\<close>

definition gen_prefix :: "(bytes \<Rightarrow> bytes) \<Rightarrow> 32 word \<Rightarrow> 16 word" where
  "gen_prefix sha256 i = ucast (drop_bit (32 - 16) (BigEndian_Uint32 (sha256 (multihash_id i))))"

text \<open>
  The loop of \<open>main\<close>: it may never end (the counter wraps around), hence the option. Arrays of
  length \<open>2 ^ 16\<close> are functions on 16-bit words.
\<close>

partial_function (option) gen_loop ::
  "(32 word \<Rightarrow> 16 word) \<Rightarrow> 32 word \<Rightarrow> (16 word \<Rightarrow> 32 word) \<Rightarrow> (16 word \<Rightarrow> bool) \<Rightarrow> nat
     \<Rightarrow> (16 word \<Rightarrow> 32 word) option" where
  "gen_loop hash i ids found cnt =
     (if cnt < 2 ^ 16
      then
        (let prefix = hash i
         in if \<not> found prefix
            then gen_loop hash (i + 1) (ids(prefix := i)) (found(prefix := True)) (cnt + 1)
            else gen_loop hash (i + 1) ids found cnt)
      else Some ids)"

definition gen_table :: "(bytes \<Rightarrow> bytes) \<Rightarrow> (16 word \<Rightarrow> 32 word) option" where
  "gen_table sha256 = gen_loop (gen_prefix sha256) 0 (\<lambda>_. 0) (\<lambda>_. False) 0"

section \<open>Peer identities by common prefix length\<close>

definition prefix_bits :: "(nat \<Rightarrow> bool) \<Rightarrow> nat \<Rightarrow> 16 word" where
  "prefix_bits b n = foldl (\<lambda>p i. p OR push_bit (15 - i) (of_bool (b i))) 0 [0..<n]"

text \<open>A shift by 16 or more gives 0, in Go as for \<open>push_bit\<close>.\<close>

definition prefix_cpl :: "(nat \<Rightarrow> bool) \<Rightarrow> int \<Rightarrow> 16 word \<Rightarrow> 16 word" where
  "prefix_cpl b cpl r =
     (let p = prefix_bits b (nat (cpl + 1));
          mask = push_bit (nat (15 - cpl)) 1;
          p = p XOR mask
      in if cpl < 15 then
           (let mask = push_bit (nat (15 - cpl)) (NOT 0)
            in (p AND mask) OR (r AND NOT mask))
         else p)"

definition GenRandPeerID ::
  "('b, 'z) hash_lib_scheme \<Rightarrow> (16 word \<Rightarrow> 32 word) \<Rightarrow> 'b Key \<Rightarrow> int \<Rightarrow> 16 word \<Rightarrow> goerr + peer_id" where
  "GenRandPeerID L keyPrefixMap k cpl r =
     (if cpl > 15 then Inl (Errorf ''cannot generate peer ID for Cpl greater than 15'')
      else Inr (multihash_id (keyPrefixMap (prefix_cpl (Bit L k) cpl r))))"

section \<open>Keys by prefix\<close>

definition maxPrefixBits :: nat where "maxPrefixBits = 16"

definition GenRandKeyForPrefix ::
  "('b, 'z) hash_lib_scheme \<Rightarrow> (16 word \<Rightarrow> 32 word) \<Rightarrow> string \<Rightarrow> goerr + 16 word \<Rightarrow> goerr + 'b Key" where
  "GenRandKeyForPrefix L keyPrefixMap pfx rand =
     (let l = length pfx
      in if l > maxPrefixBits then Inl (Errorf ''cannot generate key for prefix longer than 16 bits'')
         else
           (let p = foldl (\<lambda>p i. if pfx ! i = CHR ''1'' then p OR push_bit (15 - i) 1 else p) 0 [0..<l]
            in case (if l < maxPrefixBits then
                       (case rand of
                          Inl err \<Rightarrow> Inl (Wrapf ''read random bits'' err)
                        | Inr r \<Rightarrow>
                            (let mask = drop_bit l 0xFFFF
                             in Inr ((p AND NOT mask) OR (r AND mask))))
                     else Inr p) of
                 Inl err \<Rightarrow> Inl err
               | Inr p \<Rightarrow> Inr (NewKey L (multihash_id (keyPrefixMap p)))))"

section \<open>The laws of the libraries\<close>

text \<open>Bits of a hash, the most significant one of the first byte first.\<close>

definition hash_bit :: "bytes \<Rightarrow> nat \<Rightarrow> bool" where
  "hash_bit h i = bit (char_byte (h ! (i div 8))) (7 - i mod 8)"

definition bit256_laws :: "('b, 'z) hash_lib_scheme \<Rightarrow> bool" where
  "bit256_laws L \<longleftrightarrow>
     (\<forall>x. length (sha256_Sum256 L x) = 32) \<and>
     (\<forall>h i. length h = 32 \<longrightarrow> i < 256 \<longrightarrow> bit256_Bit L (bit256_NewKey L h) i = hash_bit h i) \<and>
     (\<forall>a b n. n < 256 \<longrightarrow> (\<forall>i < n. bit256_Bit L a i = bit256_Bit L b i) \<longrightarrow>
        bit256_Bit L a n \<noteq> bit256_Bit L b n \<longrightarrow> bit256_CommonPrefixLength L a b = n)"

section \<open>Bits\<close>

lemma less16_cases:
  assumes "(j::nat) < 16"
  obtains "j = 0" | "j = 1" | "j = 2" | "j = 3" | "j = 4" | "j = 5" | "j = 6" | "j = 7"
    | "j = 8" | "j = 9" | "j = 10" | "j = 11" | "j = 12" | "j = 13" | "j = 14" | "j = 15"
proof -
  have "j \<in> set [0..<16]" using assms by simp
  then show ?thesis using that by (auto simp: upt_rec)
qed

lemma word8_bit: "8 \<le> n \<Longrightarrow> \<not> bit (w :: 8 word) n"
  using bit_imp_le_length [of w n] by auto

lemma gen_prefix_bit:
  assumes "j < 16"
  shows "bit (gen_prefix sha i) (15 - j) = hash_bit (sha (multihash_id i)) j"
  using assms
  by (cases rule: less16_cases)
     (simp_all add: gen_prefix_def BigEndian_Uint32_def hash_bit_def bit_simps word8_bit)

lemma prefix_bits_bit:
  assumes "n \<le> 16" "j < 16"
  shows "bit (prefix_bits b n) (15 - j) \<longleftrightarrow> j < n \<and> b j"
  using assms(1)
proof (induction n)
  case 0
  then show ?case by (simp add: prefix_bits_def)
next
  case (Suc n)
  have "bit (push_bit (15 - n) (of_bool (b n)) :: 16 word) (15 - j) \<longleftrightarrow> j = n \<and> b n"
    using Suc.prems assms(2) by (cases "b n") (auto simp: bit_simps)
  moreover have "prefix_bits b (Suc n) = prefix_bits b n OR push_bit (15 - n) (of_bool (b n))"
    by (simp add: prefix_bits_def)
  ultimately show ?case using Suc by (auto simp: bit_or_iff less_Suc_eq)
qed

lemma prefix_cpl_bit:
  assumes "0 \<le> cpl" "cpl \<le> 15" "j \<le> nat cpl"
  shows "bit (prefix_cpl b cpl r) (15 - j) = (if j < nat cpl then b j else \<not> b j)"
proof -
  obtain c where c: "cpl = int c" using assms(1) by (metis nonneg_int_cases)
  have j: "j < 16" "j \<le> c" "c \<le> 15" using assms c by simp_all
  have m: "bit (2 ^ (15 - c) :: 16 word) (15 - j) \<longleftrightarrow> j = c"
    using j by (auto simp: bit_simps)
  have k: "bit (push_bit (15 - c) (NOT 0) :: 16 word) (15 - j)"
    using j by (auto simp: bit_simps)
  have "bit (prefix_bits b (Suc c) XOR push_bit (15 - c) 1) (15 - j) = (if j < c then b j else \<not> b j)"
    using j prefix_bits_bit [of "Suc c" j b] by (auto simp: bit_xor_iff m)
  moreover have "nat (15 - int c) = 15 - c" "nat (int c + 1) = Suc c" by simp_all
  ultimately show ?thesis
    using k j by (cases "c = 15") (simp_all add: prefix_cpl_def c Let_def bit_or_iff bit_and_iff bit_not_iff)
qed

lemma prefix_chars_bits:
  "foldl (\<lambda>p i. if s ! i = CHR ''1'' then p OR push_bit (15 - i) 1 else p) 0 [0..<n] =
     prefix_bits (\<lambda>i. s ! i = CHR ''1'') n"
proof (induction n)
  case (Suc n)
  then show ?case by (simp add: prefix_bits_def)
qed (simp add: prefix_bits_def)

section \<open>The search for the table\<close>

definition first_hit :: "(32 word \<Rightarrow> 16 word) \<Rightarrow> 16 word \<Rightarrow> 32 word \<Rightarrow> bool" where
  "first_hit hash p i \<longleftrightarrow> hash i = p \<and> (\<forall>k < i. hash k \<noteq> p)"

definition gen_inv ::
  "(32 word \<Rightarrow> 16 word) \<Rightarrow> nat \<Rightarrow> (16 word \<Rightarrow> 32 word) \<Rightarrow> (16 word \<Rightarrow> bool) \<Rightarrow> nat \<Rightarrow> bool" where
  "gen_inv hash n ids found cnt \<longleftrightarrow>
     (\<forall>p. found p \<longleftrightarrow> (\<exists>k. unat k < n \<and> hash k = p)) \<and>
     (\<forall>p. found p \<longrightarrow> first_hit hash p (ids p)) \<and> cnt = card {p. found p}"

lemma card_found: "card {p :: 16 word. found p} < 2 ^ 16 \<longleftrightarrow> (\<exists>p. \<not> found p)"
proof -
  have u: "card (UNIV :: 16 word set) = 2 ^ 16" by (simp add: card_word)
  show ?thesis
  proof
    assume "card {p. found p} < 2 ^ 16"
    then have "{p. found p} \<noteq> UNIV" using u by auto
    then show "\<exists>p. \<not> found p" by auto
  next
    assume "\<exists>p. \<not> found p"
    then have "{p. found p} \<subset> UNIV" by auto
    then have "card {p. found p} < card (UNIV :: 16 word set)" by (intro psubset_card_mono) simp_all
    then show "card {p. found p} < 2 ^ 16" using u by simp
  qed
qed

lemma gen_inv_step:
  assumes inv: "gen_inv hash n ids found cnt" and n: "n < 2 ^ 32"
  shows "if found (hash (word_of_nat n)) then gen_inv hash (Suc n) ids found cnt
         else gen_inv hash (Suc n) (ids(hash (word_of_nat n) := word_of_nat n))
                (found(hash (word_of_nat n) := True)) (cnt + 1)"
proof -
  let ?i = "word_of_nat n :: 32 word"
  have i: "unat ?i = n" using n by (simp add: unat_of_nat take_bit_eq_mod)
  have k: "unat k < Suc n \<longleftrightarrow> unat k < n \<or> k = ?i" for k :: "32 word"
    using i by (metis less_Suc_eq word_unat_eq_iff)
  have lt: "k < ?i \<longleftrightarrow> unat k < n" for k using i by (simp add: word_less_nat_alt)
  show ?thesis
  proof (cases "found (hash ?i)")
    case True
    then show ?thesis using inv by (auto simp: gen_inv_def k)
  next
    case False
    have "Collect (found(hash ?i := True)) = insert (hash ?i) (Collect found)" by auto
    moreover have "cnt = card (Collect found)" "hash ?i \<notin> Collect found"
      using False inv unfolding gen_inv_def by blast+
    ultimately have "card (Collect (found(hash ?i := True))) = Suc cnt" by simp
    moreover have "first_hit hash (hash ?i) ?i"
      using False inv by (auto simp: gen_inv_def first_hit_def lt)
    ultimately show ?thesis using False inv unfolding gen_inv_def by (auto simp: k)
  qed
qed

lemma gen_loop_finds:
  assumes "\<forall>p. \<exists>i. hash i = p" and "gen_inv hash n ids found cnt" "n \<le> 2 ^ 32"
  shows "\<exists>ids'. gen_loop hash (word_of_nat n) ids found cnt = Some ids' \<and> (\<forall>p. first_hit hash p (ids' p))"
  using assms(2,3)
proof (induction "2 ^ 32 - n" arbitrary: n ids found cnt rule: less_induct)
  case less
  show ?case
  proof (cases "cnt < 2 ^ 16")
    case False
    then have "\<forall>p. found p" using less.prems(1) card_found by (auto simp: gen_inv_def)
    then show ?thesis
      using False less.prems(1) by (subst gen_loop.simps) (simp add: gen_inv_def)
  next
    case True
    then obtain p where "\<not> found p" using less.prems(1) card_found by (auto simp: gen_inv_def)
    moreover obtain i where "hash i = p" using assms(1) by blast
    ultimately have "n \<le> unat i" using less.prems(1) by (auto simp: gen_inv_def not_less [symmetric])
    moreover have "unat i < 2 ^ 32" using unsigned_less [of i] by simp
    ultimately have n: "n < 2 ^ 32" by simp
    then have dec: "2 ^ 32 - Suc n < 2 ^ 32 - n" "Suc n \<le> 2 ^ 32" by simp_all
    then show ?thesis
      using True gen_inv_step [OF less.prems(1) n] less.hyps [OF dec(1) _ dec(2)]
      by (subst gen_loop.simps) (auto simp: Let_def add.commute split: if_splits)
  qed
qed

lemma gen_table_finds:
  assumes "\<forall>p. \<exists>i. gen_prefix sha256 i = p"
  shows "\<exists>ids. gen_table sha256 = Some ids \<and> (\<forall>p. first_hit (gen_prefix sha256) p (ids p))"
  using gen_loop_finds [OF assms, of 0 "\<lambda>_. 0" "\<lambda>_. False" 0]
  by (simp add: gen_table_def gen_inv_def)

end
