(* ===== verification/CplProps.thy ===== *)
theory CplProps
  imports CplUtil
begin

text \<open>
  The table search ends wherever the hash reaches every prefix and finds the first preimage of
  each; with that table the generated identities have exactly the common prefix length asked for,
  and the generated keys start with the prefix asked for.
\<close>

section \<open>Bits of a generated hash\<close>

definition table_ok :: "(bytes \<Rightarrow> bytes) \<Rightarrow> (16 word \<Rightarrow> 32 word) \<Rightarrow> bool" where
  "table_ok sha256 t \<longleftrightarrow> (\<forall>p. gen_prefix sha256 (t p) = p)"

lemma generated_bit:
  assumes "bit256_laws L" "table_ok (sha256_Sum256 L) t" "j < 16"
  shows "Bit L (NewKey L (multihash_id (t p))) j = bit p (15 - j)"
proof -
  have "gen_prefix (sha256_Sum256 L) (t p) = p" using assms(2) by (simp add: table_ok_def)
  from gen_prefix_bit [OF assms(3), of "sha256_Sum256 L" "t p", unfolded this]
  show ?thesis using assms(1,3) by (simp add: bit256_laws_def Bit_def NewKey_def)
qed

text \<open>The mask of the random bits leaves the given ones alone.\<close>

lemma keeps_bit:
  assumes "i < l" "l \<le> 16"
  shows "\<not> bit (drop_bit l 0xFFFF :: 16 word) (15 - i)"
proof -
  have "\<not> bit (drop_bit l w) (15 - i)" for w :: "16 word"
    using assms bit_imp_le_length [of w "l + (15 - i)"] by (auto simp: bit_drop_bit_eq)
  then show ?thesis .
qed

section \<open>A concrete library\<close>

text \<open>A hash that starts with the low half of the number, and keys that are hashes.\<close>

definition low_hash :: "bytes hash_lib" where
  "low_hash =
     \<lparr>sha256_Sum256 = (\<lambda>x. [x ! 4, x ! 5] @ replicate 30 (byte_char 0)), bit256_NewKey = (\<lambda>h. h),
      bit256_BitLen = (\<lambda>k. 256), bit256_Bit = hash_bit, bit256_Xor = (\<lambda>a b. a),
      bit256_CommonPrefixLength =
        (\<lambda>a b. length (takeWhile (\<lambda>i. hash_bit a i = hash_bit b i) [0..<256])),
      bit256_Compare = (\<lambda>a b. 0), bit256_HexString = (\<lambda>k. k)\<rparr>"

lemma takeWhile_first:
  assumes "\<forall>i < n. P i" "\<not> P n" "n < m"
  shows "length (takeWhile P [0..<m]) = n"
proof -
  have split: "[0..<m] = [0..<n] @ n # [Suc n..<m]"
    using assms(3) by (metis le_add1 less_imp_add_positive upt_add_eq_append upt_conv_Cons plus_nat.add_0 less_imp_le)
  have "takeWhile P ([0..<n] @ n # [Suc n..<m]) = [0..<n] @ takeWhile P (n # [Suc n..<m])"
    by (rule takeWhile_append2) (simp add: assms(1))
  then show ?thesis by (simp add: split assms(2))
qed

lemma low_hash_laws: "bit256_laws low_hash"
  by (simp add: bit256_laws_def low_hash_def takeWhile_first)

lemma low_hash_prefix: "gen_prefix (sha256_Sum256 low_hash) i = ucast i"
  by (rule bit_word_eqI)
     (auto simp: gen_prefix_def BigEndian_Uint32_def low_hash_def multihash_id_def BigEndian_PutUint32_def
       bit_simps word8_bit)

lemma low_hash_surj: "\<forall>p. \<exists>i. gen_prefix (sha256_Sum256 low_hash) i = p"
proof
  fix p :: "16 word"
  have "ucast (ucast p :: 32 word) = p" by (rule bit_word_eqI) (simp add: bit_simps)
  then show "\<exists>i. gen_prefix (sha256_Sum256 low_hash) i = p" by (metis low_hash_prefix)
qed

section \<open>Properties\<close>

text \<open>
  The search of \<open>gen.go\<close> ends, before its counter wraps around, if every 16-bit prefix is that
  of the hash of some number; the table then holds for every prefix the smallest such number.
\<close>
lemma gen_table_terminates:
  assumes "\<forall>p. \<exists>i. gen_prefix sha256 i = p"
  shows "\<exists>t. gen_table sha256 = Some t \<and>
           (\<forall>p. gen_prefix sha256 (t p) = p \<and> (\<forall>k < t p. gen_prefix sha256 k \<noteq> p))"
  using gen_table_finds [OF assms] by (auto simp: first_hit_def)

lemma gen_table_terminates_witness:
  "\<exists>t. gen_table (sha256_Sum256 low_hash) = Some t \<and> t 5 \<le> 5"
proof -
  obtain t where t: "gen_table (sha256_Sum256 low_hash) = Some t"
    "\<forall>k < t 5. gen_prefix (sha256_Sum256 low_hash) k \<noteq> 5"
    using gen_table_terminates [OF low_hash_surj] by blast
  then have "\<not> 5 < t 5" by (auto simp: low_hash_prefix)
  then show ?thesis using t(1) by (auto simp: not_less)
qed

text \<open>
  C21: With the searched table, the identity generated for a common prefix length from 0 to 15 has
  exactly that common prefix length with the given key, whatever the random bits; a larger length
  is an error.
\<close>
theorem gen_rand_peer_cpl:
  assumes laws: "bit256_laws L" and table: "\<forall>p. gen_prefix (sha256_Sum256 L) (t p) = p" and "0 \<le> cpl"
  shows "case GenRandPeerID L t k cpl r of
           Inr p \<Rightarrow> cpl \<le> 15 \<and> CommonPrefixLength L k (PeerID_Key L p) = nat cpl
         | Inl e \<Rightarrow> cpl > 15"
proof (cases "cpl > 15")
  case False
  let ?p = "prefix_cpl (Bit L k) cpl r"
  have ok: "table_ok (sha256_Sum256 L) t" using table by (simp add: table_ok_def)
  have bits: "Bit L (PeerID_Key L (multihash_id (t ?p))) j = (if j < nat cpl then Bit L k j else \<not> Bit L k j)"
    if "j \<le> nat cpl" for j
  proof -
    have "j < 16" using that False by linarith
    then show ?thesis
      using generated_bit [OF laws ok] prefix_cpl_bit [OF assms(3) _ that] False
      by (simp add: PeerID_Key_def)
  qed
  have cpl: "bit256_CommonPrefixLength L a b = n"
    if "n < 256" "\<forall>i < n. bit256_Bit L a i = bit256_Bit L b i" "bit256_Bit L a n \<noteq> bit256_Bit L b n" for a b n
    using laws that unfolding bit256_laws_def by blast
  have "nat cpl < 256" using False by linarith
  then have "CommonPrefixLength L k (PeerID_Key L (multihash_id (t ?p))) = nat cpl"
    unfolding CommonPrefixLength_def
    by (rule cpl) (use bits in \<open>simp_all add: Bit_def\<close>)
  then show ?thesis using False by (simp add: GenRandPeerID_def)
qed (simp add: GenRandPeerID_def)

lemma gen_rand_peer_cpl_witness:
  "\<exists>p. GenRandPeerID low_hash ucast (NewKey low_hash ''key with some bytes'') 5 0x1234 = Inr p \<and>
     CommonPrefixLength low_hash (NewKey low_hash ''key with some bytes'') (PeerID_Key low_hash p) = 5"
proof -
  have "\<forall>p. gen_prefix (sha256_Sum256 low_hash) (ucast p) = p"
    by (auto simp: low_hash_prefix intro!: bit_word_eqI simp: bit_simps)
  from gen_rand_peer_cpl [OF low_hash_laws this, of 5 "NewKey low_hash ''key with some bytes''" "0x1234"]
  show ?thesis by (auto split: sum.splits)
qed

text \<open>
  With the searched table, the key generated for a prefix of at most 16 binary digits starts
  with that prefix, and its message key is the preimage that hashes to it; a longer prefix is an
  error, and so is a failure of the random source unless all 16 bits are given.
\<close>
lemma gen_rand_key_prefix:
  assumes laws: "bit256_laws L" and table: "\<forall>p. gen_prefix (sha256_Sum256 L) (t p) = p"
    and digits: "set pfx \<subseteq> {CHR ''0'', CHR ''1''}"
  shows "case GenRandKeyForPrefix L t pfx rand of
           Inr k \<Rightarrow> length pfx \<le> 16 \<and> (\<forall>i < length pfx. Bit L k i \<longleftrightarrow> pfx ! i = CHR ''1'') \<and>
             NewKey L (MsgKey k) = k
         | Inl e \<Rightarrow> length pfx > 16 \<or> length pfx < 16 \<and> (\<exists>err. rand = Inl err)"
proof (cases "length pfx > 16")
  case True
  then show ?thesis by (simp add: GenRandKeyForPrefix_def maxPrefixBits_def)
next
  case False
  let ?l = "length pfx" and ?p = "prefix_bits (\<lambda>i. pfx ! i = CHR ''1'') (length pfx)"
  have ok: "table_ok (sha256_Sum256 L) t" using table by (simp add: table_ok_def)
  have start: "Bit L (NewKey L (multihash_id (t q))) i \<longleftrightarrow> pfx ! i = CHR ''1''"
    if "i < ?l" and "bit q (15 - i) = bit ?p (15 - i)" for q i
    using generated_bit [OF laws ok, of i q] prefix_bits_bit [of ?l i] that False by simp
  have masked: "bit ((?p AND NOT (drop_bit ?l 0xFFFF)) OR (r AND drop_bit ?l 0xFFFF)) (15 - i) = bit ?p (15 - i)"
    if "i < ?l" for r i
  proof -
    have "15 - i < 16" by linarith
    moreover have "\<not> bit (drop_bit ?l 0xFFFF :: 16 word) (15 - i)" using that False keeps_bit by simp
    ultimately show ?thesis by (simp add: bit_or_iff bit_and_iff bit_not_iff)
  qed
  show ?thesis
    using False start masked
    by (auto simp: GenRandKeyForPrefix_def maxPrefixBits_def Let_def prefix_chars_bits split: sum.split)
qed

lemma gen_rand_key_prefix_witness:
  "\<exists>k. GenRandKeyForPrefix low_hash ucast ''101'' (Inr 0x7777) = Inr k \<and>
     Bit low_hash k 0 \<and> \<not> Bit low_hash k 1 \<and> Bit low_hash k 2"
proof -
  have "\<forall>p. gen_prefix (sha256_Sum256 low_hash) (ucast p) = p"
    by (auto simp: low_hash_prefix intro!: bit_word_eqI simp: bit_simps)
  from gen_rand_key_prefix [OF low_hash_laws this, of "''101''" "Inr 0x7777"]
  show ?thesis by (fastforce split: sum.splits)
qed

end
