(* ===== verification/Keystore.thy ===== *)
theory Keystore
  imports Datastore Keys Instances
begin

text \<open>
  \<open>providerkeystore.go\<close>: the keys to reprovide, kept in a trie for the region survey and in the
  datastore for the next start. The trie (\<open>keystore.Trie\<close> of xorbie) is the record
  \<open>trie_lib\<close>; it is documented to be a set of keys that lists those under a prefix.
\<close>

section \<open>The keystore\<close>

record ('b, 't) trie_lib =
  tr_New :: 't
  tr_Add :: "'t \<Rightarrow> 'b Key \<Rightarrow> 't"
  tr_Remove :: "'t \<Rightarrow> 'b Key \<Rightarrow> 't"
  tr_KeysUnder :: "'t \<Rightarrow> string \<Rightarrow> 'b Key list"

record ('ds, 't) providerKeystore =
  ks_dstore :: 'ds
  ks_index :: 't

definition namespaceProvideSet :: bytes where "namespaceProvideSet = ''provideset''"

fun load_entries ::
  "('b, 'y) hash_lib_scheme \<Rightarrow> ('b, 't) trie_lib \<Rightarrow> entry list \<Rightarrow> 't \<Rightarrow> goerr + 't" where
  "load_entries H T [] idx = Inr idx"
| "load_entries H T ((k, Inl err) # es) idx = Inl (Wrapf ''read provide set entry'' err)"
| "load_entries H T ((k, Inr v) # es) idx = load_entries H T es (tr_Add T idx (NewKey H v))"

definition newProviderKeystore ::
  "('ds, 'tx, 'z) ds_env_scheme \<Rightarrow> ('b, 'y) hash_lib_scheme \<Rightarrow> ('b, 't) trie_lib \<Rightarrow> 'ds
     \<Rightarrow> goerr + ('ds, 't) providerKeystore" where
  "newProviderKeystore E H T dstore =
     (case ds_Query E dstore (''/'' @ namespaceProvideSet) of
        Inl err \<Rightarrow> Inl (Wrapf ''query provide set'' err)
      | Inr q \<Rightarrow>
          (case load_entries H T q (tr_New T) of
             Inl err \<Rightarrow> Inl err
           | Inr idx \<Rightarrow> Inr \<lparr>ks_dstore = dstore, ks_index = idx\<rparr>))"

definition ks_Add ::
  "('ds, 'tx, 'z) ds_env_scheme \<Rightarrow> ('b, 't) trie_lib \<Rightarrow> ('ds, 't) providerKeystore \<Rightarrow> 'b Key
     \<Rightarrow> goerr option \<times> ('ds, 't) providerKeystore" where
  "ks_Add E T ks k =
     (case ds_Put E (ks_dstore ks) (newDatastoreKey E namespaceProvideSet [MsgKey k]) (MsgKey k) of
        (Some err, d) \<Rightarrow> (Some (Wrapf ''put provide set entry'' err), ks\<lparr>ks_dstore := d\<rparr>)
      | (None, d) \<Rightarrow> (None, ks\<lparr>ks_dstore := d, ks_index := tr_Add T (ks_index ks) k\<rparr>))"

definition ks_Remove ::
  "('ds, 'tx, 'z) ds_env_scheme \<Rightarrow> ('b, 't) trie_lib \<Rightarrow> ('ds, 't) providerKeystore \<Rightarrow> 'b Key
     \<Rightarrow> goerr option \<times> ('ds, 't) providerKeystore" where
  "ks_Remove E T ks k =
     (case ds_Delete E (ks_dstore ks) (newDatastoreKey E namespaceProvideSet [MsgKey k]) of
        (Some err, d) \<Rightarrow> (Some (Wrapf ''delete provide set entry'' err), ks\<lparr>ks_dstore := d\<rparr>)
      | (None, d) \<Rightarrow> (None, ks\<lparr>ks_dstore := d, ks_index := tr_Remove T (ks_index ks) k\<rparr>))"

definition KeysUnder ::
  "('b, 't) trie_lib \<Rightarrow> ('ds, 't) providerKeystore \<Rightarrow> string \<Rightarrow> 'b Key list" where
  "KeysUnder T ks pfx = tr_KeysUnder T (ks_index ks) pfx"

section \<open>The set of a keystore\<close>

definition key_under :: "('b, 'y) hash_lib_scheme \<Rightarrow> string \<Rightarrow> 'b Key \<Rightarrow> bool" where
  "key_under H pfx k \<longleftrightarrow> (\<forall>i < length pfx. Bit H k i = (pfx ! i = CHR ''1''))"

definition trie_laws ::
  "('b, 'y) hash_lib_scheme \<Rightarrow> ('b, 't) trie_lib \<Rightarrow> ('t \<Rightarrow> 'b Key set) \<Rightarrow> bool" where
  "trie_laws H T keys \<longleftrightarrow>
     keys (tr_New T) = {} \<and> (\<forall>t k. keys (tr_Add T t k) = insert k (keys t)) \<and>
     (\<forall>t k. keys (tr_Remove T t k) = keys t - {k}) \<and>
     (\<forall>t pfx. set (tr_KeysUnder T t pfx) = {k \<in> keys t. key_under H pfx k})"

text \<open>The entries of the provide set in a datastore, by value.\<close>

definition stored :: "('ds \<Rightarrow> bytes \<rightharpoonup> bytes) \<Rightarrow> 'ds \<Rightarrow> bytes set" where
  "stored content d = {v. \<exists>k. under (''/'' @ namespaceProvideSet) k \<and> content d k = Some v}"

definition entries_ok :: "'z lib_scheme \<Rightarrow> ('ds \<Rightarrow> bytes \<rightharpoonup> bytes) \<Rightarrow> 'ds \<Rightarrow> bool" where
  "entries_ok L content d \<longleftrightarrow>
     (\<forall>k v. under (''/'' @ namespaceProvideSet) k \<longrightarrow> content d k = Some v \<longrightarrow>
        v \<noteq> [] \<and> k = newDatastoreKey L namespaceProvideSet [v])"

text \<open>
  The trie and the datastore agree on a key, except where the last call for it failed (\<open>F\<close>):
  they do there too if the datastore is one whose failed writes leave no trace.
\<close>

definition stored_keys ::
  "('b, 'y) hash_lib_scheme \<Rightarrow> ('ds \<Rightarrow> bytes \<rightharpoonup> bytes) \<Rightarrow> 'ds \<Rightarrow> 'b Key set" where
  "stored_keys H content d = NewKey H ` stored content d"

definition ks_ok ::
  "('ds, 'tx, 'z) ds_env_scheme \<Rightarrow> ('b, 'y) hash_lib_scheme \<Rightarrow> ('t \<Rightarrow> 'b Key set)
     \<Rightarrow> ('ds \<Rightarrow> bytes \<rightharpoonup> bytes) \<Rightarrow> 'b Key set \<Rightarrow> ('ds, 't) providerKeystore \<Rightarrow> bool" where
  "ks_ok E H keys content F ks \<longleftrightarrow>
     entries_ok E content (ks_dstore ks) \<and>
     (\<forall>k. k \<notin> F \<or> failed_writes_void E content \<longrightarrow>
        (k \<in> keys (ks_index ks) \<longleftrightarrow> k \<in> stored_keys H content (ks_dstore ks)))"

lemma clean_provideset: "clean_part namespaceProvideSet"
  by (simp add: clean_part_def namespaceProvideSet_def)

lemma provide_key:
  assumes "lib_laws L" "v \<noteq> []"
  shows "newDatastoreKey L namespaceProvideSet [v] = ''/'' @ namespaceProvideSet @ ''/'' @ b32_encode L v"
    and "under (''/'' @ namespaceProvideSet) (newDatastoreKey L namespaceProvideSet [v])"
  using newDatastoreKey_eq [OF assms(1) clean_provideset, of "[v]"] assms(2)
  by (simp_all add: under_def prefix_def)

lemma provide_key_inj:
  assumes "lib_laws L" "v \<noteq> []" "w \<noteq> []"
    and "newDatastoreKey L namespaceProvideSet [v] = newDatastoreKey L namespaceProvideSet [w]"
  shows "v = w"
proof -
  have "b32_encode L v = b32_encode L w"
    using assms(4) unfolding provide_key(1) [OF assms(1,2)] provide_key(1) [OF assms(1,3)] by simp
  then show ?thesis using b32_decode_encode [OF assms(1)] by (metis sum.inject(2))
qed

text \<open>Writing and deleting an entry.\<close>

lemma stored_put:
  assumes "lib_laws L" "entries_ok L content d" "v \<noteq> []"
    and "content d' = (content d)(newDatastoreKey L namespaceProvideSet [v] \<mapsto> v)"
  shows "entries_ok L content d'" "stored content d' = insert v (stored content d)"
proof -
  note key = provide_key(2) [OF assms(1,3)]
  show "entries_ok L content d'" using assms(2-4) by (auto simp: entries_ok_def split: if_splits)
  have "content d (newDatastoreKey L namespaceProvideSet [v]) = Some w \<Longrightarrow> w = v" for w
    using assms(2) key provide_key_inj [OF assms(1,3)] unfolding entries_ok_def by metis
  then show "stored content d' = insert v (stored content d)"
    using key by (auto simp: stored_def assms(4) split: if_splits) metis
qed

lemma stored_delete:
  assumes "lib_laws L" "entries_ok L content d" "v \<noteq> []"
    and "content d' = (content d)(newDatastoreKey L namespaceProvideSet [v] := None)"
  shows "entries_ok L content d'" "stored content d' = stored content d - {v}"
proof -
  note key = provide_key(2) [OF assms(1,3)]
  show "entries_ok L content d'" using assms(2,4) by (auto simp: entries_ok_def split: if_splits)
  have "content d (newDatastoreKey L namespaceProvideSet [v]) = Some w \<Longrightarrow> w = v" for w
    using assms(2) key provide_key_inj [OF assms(1,3)] unfolding entries_ok_def by metis
  moreover have "under (''/'' @ namespaceProvideSet) k \<Longrightarrow> content d k = Some v \<Longrightarrow>
      k = newDatastoreKey L namespaceProvideSet [v]" for k
    using assms(2) unfolding entries_ok_def by blast
  ultimately show "stored content d' = stored content d - {v}"
    by (fastforce simp: stored_def assms(4) split: if_splits)
qed

lemma stored_same:
  assumes "content d' = content d"
  shows "stored content d' = stored content d" "entries_ok L content d' \<longleftrightarrow> entries_ok L content d"
  using assms by (simp_all add: stored_def entries_ok_def)

lemma load_entries_keys:
  assumes "trie_laws H T keys" "load_entries H T es idx = Inr idx'"
  shows "keys idx' = keys idx \<union> NewKey H ` {v. \<exists>k. (k, Inr v) \<in> set es}"
    and "(k, r) \<in> set es \<Longrightarrow> \<exists>v. r = Inr v"
proof -
  have "keys idx' = keys idx \<union> NewKey H ` {v. \<exists>k. (k, Inr v) \<in> set es} \<and>
      (\<forall>(k, r) \<in> set es. \<exists>v. r = Inr v)"
    using assms(2)
  proof (induction es arbitrary: idx)
    case (Cons e es)
    obtain k r where e: "e = (k, r)" by (cases e)
    then obtain v where v: "r = Inr v" using Cons.prems by (cases r) auto
    have "keys idx' = keys (tr_Add T idx (NewKey H v)) \<union> NewKey H ` {v. \<exists>k. (k, Inr v) \<in> set es} \<and>
        (\<forall>(k, r) \<in> set es. \<exists>v. r = Inr v)"
      using Cons.IH [of "tr_Add T idx (NewKey H v)"] Cons.prems by (simp add: e v)
    then show ?case using assms(1) by (auto simp: e v trie_laws_def)
  qed simp
  then show "keys idx' = keys idx \<union> NewKey H ` {v. \<exists>k. (k, Inr v) \<in> set es}"
    "(k, r) \<in> set es \<Longrightarrow> \<exists>v. r = Inr v" by auto
qed

lemma newProviderKeystore_keys:
  assumes laws: "datastore_laws E content" "trie_laws H T keys"
    and new: "newProviderKeystore E H T d = Inr ks"
  shows "ks_dstore ks = d" "keys (ks_index ks) = NewKey H ` stored content d"
proof -
  from new obtain q idx where q: "ds_Query E d (''/'' @ namespaceProvideSet) = Inr q"
    and idx: "load_entries H T q (tr_New T) = Inr idx" and ks: "ks = \<lparr>ks_dstore = d, ks_index = idx\<rparr>"
    by (auto simp: newProviderKeystore_def split: sum.splits)
  have "{v. \<exists>k. (k, Inr v) \<in> set q} = stored content d"
  proof
    show "{v. \<exists>k. (k, Inr v) \<in> set q} \<subseteq> stored content d"
      using ds_Query_sound [OF laws(1) q] unfolding stored_def by blast
    show "stored content d \<subseteq> {v. \<exists>k. (k, Inr v) \<in> set q}"
      using ds_Query_complete [OF laws(1) q] load_entries_keys(2) [OF laws(2) idx]
      unfolding stored_def by fastforce
  qed
  then show "ks_dstore ks = d" "keys (ks_index ks) = NewKey H ` stored content d"
    using load_entries_keys(1) [OF laws(2) idx] laws(2) by (simp_all add: ks trie_laws_def)
qed

section \<open>Calls\<close>

datatype 'b ks_op = OpAdd "'b Key" | OpRemove "'b Key"

fun op_key :: "'b ks_op \<Rightarrow> 'b Key" where
  "op_key (OpAdd k) = k"
| "op_key (OpRemove k) = k"

fun ks_call ::
  "('ds, 'tx, 'z) ds_env_scheme \<Rightarrow> ('b, 't) trie_lib \<Rightarrow> ('ds, 't) providerKeystore \<Rightarrow> 'b ks_op
     \<Rightarrow> goerr option \<times> ('ds, 't) providerKeystore" where
  "ks_call E T ks (OpAdd k) = ks_Add E T ks k"
| "ks_call E T ks (OpRemove k) = ks_Remove E T ks k"

text \<open>What a call does to the set of keys, nothing if it failed, and to the keys whose last call failed.\<close>

fun op_effect :: "'b ks_op \<Rightarrow> goerr option \<Rightarrow> 'b Key set \<Rightarrow> 'b Key set" where
  "op_effect op (Some e) S = S"
| "op_effect (OpAdd k) None S = insert k S"
| "op_effect (OpRemove k) None S = S - {k}"

fun failed_keys :: "'b Key \<Rightarrow> goerr option \<Rightarrow> 'b Key set \<Rightarrow> 'b Key set" where
  "failed_keys k None F = F - {k}"
| "failed_keys k (Some e) F = insert k F"

definition proper_key :: "('b, 'y) hash_lib_scheme \<Rightarrow> 'b Key \<Rightarrow> bool" where
  "proper_key H k \<longleftrightarrow> MsgKey k \<noteq> [] \<and> k = NewKey H (MsgKey k)"

text \<open>What the write of a call does to the entries: a failed one may have taken effect.\<close>

definition entry_effect ::
  "('ds, 'tx, 'z) ds_env_scheme \<Rightarrow> ('ds \<Rightarrow> bytes \<rightharpoonup> bytes) \<Rightarrow> 'b ks_op \<Rightarrow> goerr option
     \<Rightarrow> 'b Key set \<Rightarrow> 'b Key set \<Rightarrow> bool" where
  "entry_effect E content op e st st' \<longleftrightarrow>
     st' = op_effect op None st \<and> (e = None \<or> \<not> failed_writes_void E content) \<or> e \<noteq> None \<and> st' = st"

lemma put_entry:
  assumes lib: "lib_laws E" and laws: "datastore_laws E content" and key: "proper_key H k"
    and ent: "entries_ok E content d"
    and put: "ds_Put E d (newDatastoreKey E namespaceProvideSet [MsgKey k]) (MsgKey k) = (e, d')"
  shows "entries_ok E content d'"
    and "entry_effect E content (OpAdd k) e (stored_keys H content d) (stored_keys H content d')"
proof -
  let ?k = "newDatastoreKey E namespaceProvideSet [MsgKey k]"
  have k: "MsgKey k \<noteq> []" "NewKey H (MsgKey k) = k" using key by (simp_all add: proper_key_def)
  have void: "content d' = content d" if "e \<noteq> None" "failed_writes_void E content"
    using that put unfolding failed_writes_void_def by blast
  consider (written) "content d' = (content d)(?k \<mapsto> MsgKey k)" "e = None \<or> \<not> failed_writes_void E content"
    | (same) "content d' = content d" "e \<noteq> None"
    using ds_Put_content [OF laws put] void by blast
  then have "entries_ok E content d' \<and>
      entry_effect E content (OpAdd k) e (stored_keys H content d) (stored_keys H content d')"
  proof cases
    case written
    show ?thesis using stored_put [OF lib ent k(1) written(1)] written(2) k(2)
      by (simp add: entry_effect_def stored_keys_def)
  next
    case same
    show ?thesis using stored_same(1) [OF same(1)] stored_same(2) [OF same(1), of E] ent same(2) by (simp add: entry_effect_def stored_keys_def)
  qed
  then show "entries_ok E content d'"
    "entry_effect E content (OpAdd k) e (stored_keys H content d) (stored_keys H content d')" by blast+
qed

lemma delete_entry:
  assumes lib: "lib_laws E" and laws: "datastore_laws E content" and key: "proper_key H k"
    and ent: "entries_ok E content d"
    and del: "ds_Delete E d (newDatastoreKey E namespaceProvideSet [MsgKey k]) = (e, d')"
  shows "entries_ok E content d'"
    and "entry_effect E content (OpRemove k) e (stored_keys H content d) (stored_keys H content d')"
proof -
  let ?k = "newDatastoreKey E namespaceProvideSet [MsgKey k]"
  have k: "MsgKey k \<noteq> []" "NewKey H (MsgKey k) = k" using key by (simp_all add: proper_key_def)
  have remove: "NewKey H ` (V - {MsgKey k}) = NewKey H ` V - {k}" for V
    using image_set_diff [of "NewKey H" V "{MsgKey k}"] k(2) by (simp add: inj_on_def NewKey_inject)
  have void: "content d' = content d" if "e \<noteq> None" "failed_writes_void E content"
    using that del unfolding failed_writes_void_def by blast
  consider (written) "content d' = (content d)(?k := None)" "e = None \<or> \<not> failed_writes_void E content"
    | (same) "content d' = content d" "e \<noteq> None"
    using ds_Delete_content [OF laws del] void by blast
  then have "entries_ok E content d' \<and>
      entry_effect E content (OpRemove k) e (stored_keys H content d) (stored_keys H content d')"
  proof cases
    case written
    show ?thesis using stored_delete [OF lib ent k(1) written(1)] written(2)
      by (simp add: entry_effect_def stored_keys_def remove)
  next
    case same
    show ?thesis using stored_same(1) [OF same(1)] stored_same(2) [OF same(1), of E] ent same(2) by (simp add: entry_effect_def stored_keys_def)
  qed
  then show "entries_ok E content d'"
    "entry_effect E content (OpRemove k) e (stored_keys H content d) (stored_keys H content d')" by blast+
qed

lemma entry_effect_agree:
  assumes "entry_effect E content op e st st'" "\<forall>j. j \<notin> F \<or> failed_writes_void E content \<longrightarrow> (j \<in> idx \<longleftrightarrow> j \<in> st)"
  shows "\<forall>j. j \<notin> failed_keys (op_key op) e F \<or> failed_writes_void E content \<longrightarrow> (j \<in> op_effect op e idx \<longleftrightarrow> j \<in> st')"
  using assms by (cases op; cases e) (auto simp: entry_effect_def)

lemma ks_Add_ok:
  assumes lib: "lib_laws E" and laws: "datastore_laws E content" "trie_laws H T keys"
    and ok: "ks_ok E H keys content F ks" and key: "proper_key H k"
    and call: "ks_Add E T ks k = (e, ks')"
  shows "ks_ok E H keys content (failed_keys k e F) ks'"
    and "keys (ks_index ks') = op_effect (OpAdd k) e (keys (ks_index ks))"
proof -
  let ?k = "newDatastoreKey E namespaceProvideSet [MsgKey k]"
  obtain r d' where put: "ds_Put E (ks_dstore ks) ?k (MsgKey k) = (r, d')"
    by (cases "ds_Put E (ks_dstore ks) ?k (MsgKey k)")
  have "entries_ok E content (ks_dstore ks)" using ok by (simp add: ks_ok_def)
  note eff = put_entry [OF lib laws(1) key this put]
  have r: "e = None \<longleftrightarrow> r = None" and d': "ks_dstore ks' = d'"
    using call by (auto simp: ks_Add_def put split: option.splits)
  show idx: "keys (ks_index ks') = op_effect (OpAdd k) e (keys (ks_index ks))"
    using call laws(2) by (auto simp: ks_Add_def put trie_laws_def split: option.splits)
  have "entry_effect E content (OpAdd k) e (stored_keys H content (ks_dstore ks)) (stored_keys H content d')"
    using eff(2) r by (simp add: entry_effect_def)
  from entry_effect_agree [OF this, of F "keys (ks_index ks)"] ok eff(1)
  show "ks_ok E H keys content (failed_keys k e F) ks'" by (simp add: ks_ok_def d' idx)
qed

lemma ks_Remove_ok:
  assumes lib: "lib_laws E" and laws: "datastore_laws E content" "trie_laws H T keys"
    and ok: "ks_ok E H keys content F ks" and key: "proper_key H k"
    and call: "ks_Remove E T ks k = (e, ks')"
  shows "ks_ok E H keys content (failed_keys k e F) ks'"
    and "keys (ks_index ks') = op_effect (OpRemove k) e (keys (ks_index ks))"
proof -
  let ?k = "newDatastoreKey E namespaceProvideSet [MsgKey k]"
  obtain r d' where del: "ds_Delete E (ks_dstore ks) ?k = (r, d')" by (cases "ds_Delete E (ks_dstore ks) ?k")
  have "entries_ok E content (ks_dstore ks)" using ok by (simp add: ks_ok_def)
  note eff = delete_entry [OF lib laws(1) key this del]
  have r: "e = None \<longleftrightarrow> r = None" and d': "ks_dstore ks' = d'"
    using call by (auto simp: ks_Remove_def del split: option.splits)
  show idx: "keys (ks_index ks') = op_effect (OpRemove k) e (keys (ks_index ks))"
    using call laws(2) by (auto simp: ks_Remove_def del trie_laws_def split: option.splits)
  have "entry_effect E content (OpRemove k) e (stored_keys H content (ks_dstore ks)) (stored_keys H content d')"
    using eff(2) r by (simp add: entry_effect_def)
  from entry_effect_agree [OF this, of F "keys (ks_index ks)"] ok eff(1)
  show "ks_ok E H keys content (failed_keys k e F) ks'" by (simp add: ks_ok_def d' idx)
qed

section \<open>A concrete keystore\<close>

text \<open>A trie as a list; hashing is the identity.\<close>

definition list_trie :: "(bytes, bytes Key list) trie_lib" where
  "list_trie =
     \<lparr>tr_New = [], tr_Add = (\<lambda>t k. List.insert k t), tr_Remove = (\<lambda>t k. removeAll k t),
      tr_KeysUnder = (\<lambda>t pfx. filter (\<lambda>k. \<forall>i < length pfx.
         bit (char_byte (key_key k ! (i div 8))) (7 - i mod 8) = (pfx ! i = CHR ''1'')) t)\<rparr>"

definition id_hash :: "bytes hash_lib" where
  "id_hash =
     \<lparr>sha256_Sum256 = (\<lambda>x. x), bit256_NewKey = (\<lambda>h. h), bit256_BitLen = (\<lambda>k. 256),
      bit256_Bit = (\<lambda>h i. bit (char_byte (h ! (i div 8))) (7 - i mod 8)), bit256_Xor = (\<lambda>a b. a),
      bit256_CommonPrefixLength = (\<lambda>a b. 0), bit256_Compare = (\<lambda>a b. 0), bit256_HexString = (\<lambda>k. k)\<rparr>"

lemma list_trie_laws: "trie_laws id_hash list_trie set"
  by (simp add: trie_laws_def list_trie_def key_under_def Bit_def id_hash_def)

lemma load_entries_total: "\<forall>(k, r) \<in> set es. \<exists>v. r = Inr v \<Longrightarrow> \<exists>idx'. load_entries H T es idx = Inr idx'"
  by (induction H T es idx rule: load_entries.induct) auto

lemma mem_load: "\<exists>ks. newProviderKeystore mem_env id_hash list_trie d = Inr ks"
proof -
  have "\<forall>(k, r) \<in> set (projr (mem_query d (''/'' @ namespaceProvideSet))). \<exists>v. r = Inr v"
    by (auto simp: mem_query_def)
  from load_entries_total [OF this, of id_hash list_trie "tr_New list_trie"]
  show ?thesis by (auto simp: newProviderKeystore_def mem_query_def split: sum.splits)
qed

end
