(* ===== verification/KeystoreRace.thy ===== *)
theory KeystoreRace
  imports Keystore
begin

text \<open>
  The keystore of provided keys under concurrency. \<open>Add\<close> and \<open>Remove\<close> write to the datastore and then to the
  index, without a lock over both, and \<open>Provide\<close> may be called by any number of goroutines. Here each call is split
  between the two writes, and any number of calls interleave. Index and datastore agree in the end but for keys for
  which an addition and a removal overlapped, and for keys for which a write failed.
\<close>

section \<open>The halves of the calls\<close>

fun ks_write ::
  "('ds, 'tx, 'z) ds_env_scheme \<Rightarrow> ('ds, 't) providerKeystore \<Rightarrow> 'b ks_op
     \<Rightarrow> goerr option \<times> ('ds, 't) providerKeystore" where
  "ks_write E ks (OpAdd k) =
     (case ds_Put E (ks_dstore ks) (newDatastoreKey E namespaceProvideSet [MsgKey k]) (MsgKey k) of
        (Some err, d) \<Rightarrow> (Some (Wrapf ''put provide set entry'' err), ks\<lparr>ks_dstore := d\<rparr>)
      | (None, d) \<Rightarrow> (None, ks\<lparr>ks_dstore := d\<rparr>))"
| "ks_write E ks (OpRemove k) =
     (case ds_Delete E (ks_dstore ks) (newDatastoreKey E namespaceProvideSet [MsgKey k]) of
        (Some err, d) \<Rightarrow> (Some (Wrapf ''delete provide set entry'' err), ks\<lparr>ks_dstore := d\<rparr>)
      | (None, d) \<Rightarrow> (None, ks\<lparr>ks_dstore := d\<rparr>))"

fun ks_update :: "('b, 't) trie_lib \<Rightarrow> ('ds, 't) providerKeystore \<Rightarrow> 'b ks_op \<Rightarrow> ('ds, 't) providerKeystore" where
  "ks_update T ks (OpAdd k) = ks\<lparr>ks_index := tr_Add T (ks_index ks) k\<rparr>"
| "ks_update T ks (OpRemove k) = ks\<lparr>ks_index := tr_Remove T (ks_index ks) k\<rparr>"

lemma ks_call_halves:
  "ks_call E T ks op =
     (case ks_write E ks op of (Some err, ks') \<Rightarrow> (Some err, ks') | (None, ks') \<Rightarrow> (None, ks_update T ks' op))"
  by (cases op) (auto simp: ks_Add_def ks_Remove_def split: prod.split option.split)

section \<open>The steps\<close>

definition opposite :: "'b ks_op \<Rightarrow> 'b ks_op \<Rightarrow> bool" where
  "opposite o' op \<longleftrightarrow> op_key o' = op_key op \<and> o' \<noteq> op"

definition on_key :: "'b Key \<Rightarrow> 'b ks_op list \<Rightarrow> 'b ks_op set" where
  "on_key k ops = {op \<in> set ops. op_key op = k}"

text \<open>
  The keys on which calls of both kinds overlapped: a call that begins when no other on its key is under way starts
  afresh.
\<close>

definition overlap :: "'b ks_op \<Rightarrow> 'b ks_op list \<Rightarrow> 'b Key set \<Rightarrow> 'b Key set" where
  "overlap op ops mixed =
     (if on_key (op_key op) ops = {} then mixed - {op_key op}
      else if \<exists>o' \<in> set ops. opposite o' op then insert (op_key op) mixed else mixed)"

text \<open>The keys for which a write failed and was not followed by a fresh one.\<close>

definition still_failed :: "'b ks_op \<Rightarrow> 'b ks_op list \<Rightarrow> 'b Key set \<Rightarrow> 'b Key set" where
  "still_failed op ops failed = (if on_key (op_key op) ops = {} then failed - {op_key op} else failed)"

text \<open>
  The keystore, the calls between their halves, the keys on which calls overlapped, those for which a write failed, and
  the calls that succeeded, in the order in which they did. \<open>A\<close> are the calls that goroutines make.
\<close>

type_synonym ('ds, 't, 'b) ks_state =
  "('ds, 't) providerKeystore \<times> 'b ks_op list \<times> 'b Key set \<times> 'b Key set \<times> 'b ks_op list"

inductive ks_step ::
  "('ds, 'tx, 'z) ds_env_scheme \<Rightarrow> ('b, 't) trie_lib \<Rightarrow> 'b ks_op set
     \<Rightarrow> ('ds, 't, 'b) ks_state \<Rightarrow> ('ds, 't, 'b) ks_state \<Rightarrow> bool"
  for E :: "('ds, 'tx, 'z) ds_env_scheme" and T :: "('b, 't) trie_lib" and A :: "'b ks_op set" where
  fails: "op \<in> A \<Longrightarrow> ks_write E ks op = (Some err, ks') \<Longrightarrow>
      ks_step E T A (ks, ops, mixed, failed, done) (ks', ops, mixed, insert (op_key op) failed, done)"
| written: "op \<in> A \<Longrightarrow> ks_write E ks op = (None, ks') \<Longrightarrow>
      ks_step E T A (ks, ops, mixed, failed, done) (ks', op # ops, overlap op ops mixed, still_failed op ops failed, done)"
| updated: "op \<in> set ops \<Longrightarrow>
      ks_step E T A (ks, ops, mixed, failed, done) (ks_update T ks op, remove1 op ops, mixed, failed, done @ [op])"

abbreviation ks_runs where "ks_runs E T A \<equiv> (ks_step E T A)\<^sup>*\<^sup>*"

lemma written':
  "op \<in> A \<Longrightarrow> ks_write E ks op = (None, ks') \<Longrightarrow> mixed' = overlap op ops mixed \<Longrightarrow>
     failed' = still_failed op ops failed \<Longrightarrow>
     ks_step E T A (ks, ops, mixed, failed, done) (ks', op # ops, mixed', failed', done)"
  using ks_step.written by metis

lemma updated':
  "op \<in> set ops \<Longrightarrow> ks' = ks_update T ks op \<Longrightarrow> ops' = remove1 op ops \<Longrightarrow> done' = done @ [op] \<Longrightarrow>
     ks_step E T A (ks, ops, mixed, failed, done) (ks', ops', mixed, failed, done')"
  using ks_step.updated by metis

lemma four_steps: "r a b \<Longrightarrow> r b c \<Longrightarrow> r c d \<Longrightarrow> r d e \<Longrightarrow> r\<^sup>*\<^sup>* a e"
  by (meson converse_rtranclp_into_rtranclp r_into_rtranclp)

text \<open>A call that runs alone is the call of \<open>Keystore\<close>.\<close>

lemma ks_call_alone:
  assumes "op \<in> A" "ks_call E T ks op = (e, ks')"
  shows "\<exists>mixed' failed'. mixed' \<subseteq> mixed \<and> failed' \<subseteq> insert (op_key op) failed \<and>
           ks_runs E T A (ks, [], mixed, failed, done)
             (ks', [], mixed', failed', if e = None then done @ [op] else done)"
proof (cases "fst (ks_write E ks op)")
  case None
  then obtain ks1 where w: "ks_write E ks op = (None, ks1)" by (metis prod.collapse)
  then have res: "e = None" "ks' = ks_update T ks1 op" using assms(2) by (simp_all add: ks_call_halves)
  let ?m = "overlap op [] mixed" and ?f = "still_failed op [] failed"
  have step1: "ks_step E T A (ks, [], mixed, failed, done) (ks1, [op], ?m, ?f, done)"
    by (rule written' [OF assms(1) w]) simp_all
  have step2: "ks_step E T A (ks1, [op], ?m, ?f, done) (ks_update T ks1 op, [], ?m, ?f, done @ [op])"
    by (rule updated' [of op]) simp_all
  have "ks_runs E T A (ks, [], mixed, failed, done) (ks', [], ?m, ?f, if e = None then done @ [op] else done)"
    using rtranclp.rtrancl_into_rtrancl [OF r_into_rtranclp [where r = "ks_step E T A", OF step1] step2] by (simp add: res)
  moreover have "?m \<subseteq> mixed" "?f \<subseteq> insert (op_key op) failed" by (auto simp: overlap_def still_failed_def on_key_def)
  ultimately show ?thesis by blast
next
  case (Some err)
  then obtain ks1 where w: "ks_write E ks op = (Some err, ks1)" by (metis prod.collapse)
  then have "e = Some err" "ks' = ks1" using assms(2) by (simp_all add: ks_call_halves)
  then show ?thesis
    using ks_step.fails [where T = T, OF assms(1) w, of "[]" mixed failed "done"] by auto
qed

section \<open>The invariant\<close>

text \<open>A key on which no calls of both kinds overlapped: what is under way on it agrees with the datastore.\<close>

definition key_agrees :: "'b Key set \<Rightarrow> 'b Key set \<Rightarrow> 'b ks_op list \<Rightarrow> 'b Key \<Rightarrow> bool" where
  "key_agrees idx st ops k \<longleftrightarrow>
     (if on_key k ops = {} then k \<in> idx \<longleftrightarrow> k \<in> st
      else on_key k ops = (if k \<in> st then {OpAdd k} else {OpRemove k}))"

definition done_set :: "'b Key set \<Rightarrow> 'b ks_op list \<Rightarrow> 'b Key set" where
  "done_set S ops = foldl (\<lambda>S op. op_effect op None S) S ops"

definition race_ok ::
  "('ds, 'tx, 'z) ds_env_scheme \<Rightarrow> ('b, 'y) hash_lib_scheme \<Rightarrow> ('t \<Rightarrow> 'b Key set) \<Rightarrow> ('ds \<Rightarrow> bytes \<rightharpoonup> bytes)
     \<Rightarrow> 'b ks_op set \<Rightarrow> 'b Key set \<Rightarrow> ('ds, 't, 'b) ks_state \<Rightarrow> bool" where
  "race_ok E H keys content A S s \<longleftrightarrow>
     (case s of (ks, ops, mixed, failed, done) \<Rightarrow>
        set ops \<subseteq> A \<and> entries_ok E content (ks_dstore ks) \<and> keys (ks_index ks) = done_set S done \<and>
        (\<forall>k. k \<notin> mixed \<longrightarrow> k \<notin> failed \<or> failed_writes_void E content \<longrightarrow>
           key_agrees (keys (ks_index ks)) (stored_keys H content (ks_dstore ks)) ops k) \<and>
        ((\<forall>o' \<in> A. \<forall>op \<in> A. \<not> opposite o' op) \<longrightarrow> mixed = {}))"

lemma opposite_kind: "op_key o' = op_key op \<Longrightarrow> opposite o' op \<or> o' = op"
  by (auto simp: opposite_def)

lemma ks_write_effect:
  assumes lib: "lib_laws E" and laws: "datastore_laws E content" and key: "proper_key H (op_key op)"
    and ent: "entries_ok E content (ks_dstore ks)" and w: "ks_write E ks op = (e, ks')"
  shows "ks_index ks' = ks_index ks" "entries_ok E content (ks_dstore ks')"
    "entry_effect E content op e (stored_keys H content (ks_dstore ks)) (stored_keys H content (ks_dstore ks'))"
proof -
  have "ks_index ks' = ks_index ks \<and> entries_ok E content (ks_dstore ks') \<and>
    entry_effect E content op e (stored_keys H content (ks_dstore ks)) (stored_keys H content (ks_dstore ks'))"
  proof (cases op)
    case (OpAdd j)
    obtain r d where put: "ds_Put E (ks_dstore ks) (newDatastoreKey E namespaceProvideSet [MsgKey j]) (MsgKey j) = (r, d)"
      by (rule prod.exhaust)
    have "e = None \<longleftrightarrow> r = None" "ks' = ks\<lparr>ks_dstore := d\<rparr>"
      using w by (auto simp: OpAdd put split: option.splits)
    then show ?thesis
      using put_entry [OF lib laws key [unfolded OpAdd op_key.simps] ent put] by (simp add: OpAdd entry_effect_def)
  next
    case (OpRemove j)
    obtain r d where del: "ds_Delete E (ks_dstore ks) (newDatastoreKey E namespaceProvideSet [MsgKey j]) = (r, d)"
      by (rule prod.exhaust)
    have "e = None \<longleftrightarrow> r = None" "ks' = ks\<lparr>ks_dstore := d\<rparr>"
      using w by (auto simp: OpRemove del split: option.splits)
    then show ?thesis
      using delete_entry [OF lib laws key [unfolded OpRemove op_key.simps] ent del] by (simp add: OpRemove entry_effect_def)
  qed
  then show "ks_index ks' = ks_index ks" "entries_ok E content (ks_dstore ks')"
    "entry_effect E content op e (stored_keys H content (ks_dstore ks)) (stored_keys H content (ks_dstore ks'))" by blast+
qed

lemma on_key_simps [simp]:
  "on_key k [] = {}" "on_key k (op # ops) = (if op_key op = k then insert op (on_key k ops) else on_key k ops)"
  by (auto simp: on_key_def)

lemma on_key_remove1:
  "on_key k (remove1 op ops) = on_key k ops \<or> op_key op = k \<and> on_key k (remove1 op ops) = on_key k ops - {op}"
proof (cases "op \<in> set (remove1 op ops)")
  case True
  then have "set (remove1 op ops) = set ops" by (metis insert_absorb insert_Diff_single in_set_remove1 set_remove1_subset subset_antisym subsetI)
  then show ?thesis by (simp add: on_key_def)
next
  case False
  then have "set (remove1 op ops) = set ops - {op}" using in_set_remove1 [of _ op ops] set_remove1_subset [of op ops] by blast
  then show ?thesis by (auto simp: on_key_def)
qed

lemma effect_other: "k \<noteq> op_key op \<Longrightarrow> k \<in> op_effect op e S \<longleftrightarrow> k \<in> S"
  by (cases op; cases e) auto

lemma effect_own: "op_key op \<in> op_effect op None S \<longleftrightarrow> op = OpAdd (op_key op)"
  by (cases op) auto

lemma kinds: "op = OpAdd (op_key op) \<or> op = OpRemove (op_key op)"
  by (cases op) auto

lemma agrees_failed:
  assumes "entry_effect E content op (Some err) st st'" "key_agrees idx st ops k"
    and "k \<noteq> op_key op \<or> failed_writes_void E content"
  shows "key_agrees idx st' ops k"
proof -
  have "k \<in> st' \<longleftrightarrow> k \<in> st"
    using assms(1,3) effect_other [of k op None st] by (auto simp: entry_effect_def)
  then show ?thesis using assms(2) by (simp add: key_agrees_def)
qed

lemma agrees_written:
  assumes agree: "k \<notin> mixed \<Longrightarrow> k \<notin> failed \<or> v \<Longrightarrow> key_agrees idx st ops k"
    and k: "k \<notin> overlap op ops mixed" "k \<notin> still_failed op ops failed \<or> v"
  shows "key_agrees idx (op_effect op None st) (op # ops) k"
proof (cases "k = op_key op")
  case False
  then have "k \<notin> mixed" "k \<notin> failed \<or> v" using k by (auto simp: overlap_def still_failed_def split: if_splits)
  then show ?thesis using agree False by (auto simp: key_agrees_def effect_other)
next
  case True
  show ?thesis
  proof (cases "on_key k ops = {}")
    case True
    then show ?thesis using \<open>k = op_key op\<close> kinds [of op] effect_own [of op st] by (auto simp: key_agrees_def)
  next
    case False
    then have "k \<notin> mixed" "\<forall>o' \<in> set ops. \<not> opposite o' op" using k \<open>k = op_key op\<close> by (auto simp: overlap_def split: if_splits)
    then have "on_key k ops = {op}" using False \<open>k = op_key op\<close> by (auto simp: on_key_def opposite_def)
    then show ?thesis using \<open>k = op_key op\<close> kinds [of op] effect_own [of op st] by (auto simp: key_agrees_def)
  qed
qed

lemma agrees_updated:
  assumes agree: "key_agrees idx st ops k" and op: "op \<in> set ops"
  shows "key_agrees (op_effect op None idx) st (remove1 op ops) k"
proof (cases "k = op_key op")
  case False
  then have "on_key k (remove1 op ops) = on_key k ops" using on_key_remove1 [of k op ops] by auto
  then show ?thesis using agree False by (simp add: key_agrees_def effect_other)
next
  case True
  then have "op \<in> on_key k ops" using op by (simp add: on_key_def)
  then have all: "on_key k ops = {op}" "k \<in> st \<longleftrightarrow> op = OpAdd k"
    using agree by (auto simp: key_agrees_def split: if_splits)
  then have "on_key k (remove1 op ops) = {op} \<or> on_key k (remove1 op ops) = {}" using on_key_remove1 [of k op ops] by auto
  then show ?thesis using all True kinds [of op] effect_own [of op idx] by (auto simp: key_agrees_def)
qed

lemma done_set_snoc [simp]: "done_set S [] = S" "done_set S (ops @ [op]) = op_effect op None (done_set S ops)"
  by (simp_all add: done_set_def)

lemma update_keys:
  assumes "trie_laws H T keys"
  shows "keys (ks_index (ks_update T ks op)) = op_effect op None (keys (ks_index ks))" "ks_dstore (ks_update T ks op) = ks_dstore ks"
  using assms by (cases op; simp add: trie_laws_def)+

lemma race_ok_step:
  assumes lib: "lib_laws E" and laws: "datastore_laws E content" "trie_laws H T keys"
    and proper: "\<forall>op \<in> A. proper_key H (op_key op)"
    and step: "ks_step E T A s s'" and ok: "race_ok E H keys content A S s"
  shows "race_ok E H keys content A S s'"
  using step
proof cases
  case (fails op ks err ks' ops mixed failed "done")
  have "proper_key H (op_key op)" "entries_ok E content (ks_dstore ks)" using proper fails(3) ok by (auto simp: race_ok_def fails(1))
  note eff = ks_write_effect [OF lib laws(1) this fails(4)]
  have "key_agrees (keys (ks_index ks)) (stored_keys H content (ks_dstore ks')) ops k"
    if "k \<notin> mixed" "k \<notin> insert (op_key op) failed \<or> failed_writes_void E content" for k
    by (rule agrees_failed [OF eff(3)]) (use ok that in \<open>auto simp: race_ok_def fails(1)\<close>)
  then show ?thesis using ok eff(1,2) by (auto simp: race_ok_def fails(1,2))
next
  case (written op ks ks' ops mixed failed "done")
  have "proper_key H (op_key op)" "entries_ok E content (ks_dstore ks)" using proper written(3) ok by (auto simp: race_ok_def written(1))
  note eff = ks_write_effect [OF lib laws(1) this written(4)]
  have st: "stored_keys H content (ks_dstore ks') = op_effect op None (stored_keys H content (ks_dstore ks))"
    using eff(3) by (simp add: entry_effect_def)
  have "key_agrees (keys (ks_index ks)) (op_effect op None (stored_keys H content (ks_dstore ks))) (op # ops) k"
    if "k \<notin> overlap op ops mixed" "k \<notin> still_failed op ops failed \<or> failed_writes_void E content" for k
    by (rule agrees_written [OF _ that]) (use ok in \<open>auto simp: race_ok_def written(1)\<close>)
  moreover have "overlap op ops mixed = {}" if "\<forall>o' \<in> A. \<forall>op \<in> A. \<not> opposite o' op"
    using that ok written(3) by (auto simp: race_ok_def written(1) overlap_def)
  ultimately show ?thesis using ok eff(1,2) st written(3) by (simp add: race_ok_def written(1,2))
next
  case (updated op ops ks mixed failed "done")
  have "set (remove1 op ops) \<subseteq> A" using ok set_remove1_subset [of op ops] by (auto simp: race_ok_def updated(1))
  moreover have "key_agrees (op_effect op None (keys (ks_index ks))) (stored_keys H content (ks_dstore ks)) (remove1 op ops) k"
    if "k \<notin> mixed" "k \<notin> failed \<or> failed_writes_void E content" for k
    by (rule agrees_updated [OF _ updated(3)]) (use ok that in \<open>auto simp: race_ok_def updated(1)\<close>)
  ultimately show ?thesis
    using ok by (simp add: race_ok_def updated(1,2) update_keys [OF laws(2)])
qed

lemma race_ok_runs:
  assumes "lib_laws E" "datastore_laws E content" "trie_laws H T keys" "\<forall>op \<in> A. proper_key H (op_key op)"
    and "ks_runs E T A s s'" "race_ok E H keys content A S s"
  shows "race_ok E H keys content A S s'"
  using assms(5,6) by (induction rule: rtranclp_induct) (auto intro: race_ok_step [OF assms(1-4)])

lemma race_ok_start:
  assumes laws: "datastore_laws E content" "trie_laws H T keys"
    and new: "newProviderKeystore E H T d = Inr ks" and entries: "entries_ok E content d"
  shows "race_ok E H keys content A (stored_keys H content d) (ks, [], {}, {}, [])"
  using newProviderKeystore_keys [OF laws new] entries by (simp add: race_ok_def key_agrees_def stored_keys_def)


section \<open>A race\<close>

text \<open>The writes of an addition and a removal in one order, their updates in the other.\<close>

lemma overlapping_add_remove:
  defines "k \<equiv> NewKey id_hash ''a''"
  defines "ks \<equiv> \<lparr>ks_dstore = [] :: mem_ds, ks_index = [] :: bytes Key list\<rparr>"
  shows "\<exists>ks' ks''.
     ks_runs mem_env list_trie {OpAdd k, OpRemove k} (ks, [], {}, {}, []) (ks', [], {k}, {}, [OpRemove k, OpAdd k]) \<and>
     newProviderKeystore mem_env id_hash list_trie (ks_dstore ks') = Inr ks'' \<and>
     KeysUnder list_trie ks' [] = [k] \<and> KeysUnder list_trie ks'' [] = []"
proof -
  let ?step = "ks_step mem_env list_trie {OpAdd k, OpRemove k}" and ?ks = "ks\<lparr>ks_index := [k]\<rparr>"
  obtain ks1 where add: "ks_write mem_env ks (OpAdd k) = (None, ks1)" and remove: "ks_write mem_env ks1 (OpRemove k) = (None, ks)"
    by (simp add: ks_def)
  have "?step (ks, [], {}, {}, []) (ks1, [OpAdd k], {}, {}, [])"
    by (rule written' [OF _ add]) (simp_all add: overlap_def still_failed_def)
  moreover have "?step (ks1, [OpAdd k], {}, {}, []) (ks, [OpRemove k, OpAdd k], {k}, {}, [])"
    by (rule written' [OF _ remove]) (simp_all add: overlap_def opposite_def still_failed_def)
  moreover have "?step (ks, [OpRemove k, OpAdd k], {k}, {}, []) (ks, [OpAdd k], {k}, {}, [OpRemove k])"
    by (rule updated' [where op = "OpRemove k"]) (simp_all add: ks_def list_trie_def)
  moreover have "?step (ks, [OpAdd k], {k}, {}, [OpRemove k]) (?ks, [], {k}, {}, [OpRemove k, OpAdd k])"
    by (rule updated' [where op = "OpAdd k"]) (simp_all add: ks_def list_trie_def)
  ultimately have "ks_runs mem_env list_trie {OpAdd k, OpRemove k} (ks, [], {}, {}, []) (?ks, [], {k}, {}, [OpRemove k, OpAdd k])"
    by (rule four_steps)
  moreover have "newProviderKeystore mem_env id_hash list_trie (ks_dstore ?ks) = Inr ks"
    by (simp add: ks_def newProviderKeystore_def mem_query_def list_trie_def AList.clearjunk.simps)
  moreover have "KeysUnder list_trie ?ks [] = [k]" "KeysUnder list_trie ks [] = []"
    by (simp_all add: KeysUnder_def ks_def list_trie_def)
  ultimately show ?thesis by blast
qed

section \<open>Properties\<close>

text \<open>
  C19: Any number of goroutines may add keys to a keystore and remove them at once: the index is the set of keys that
  the calls leave in the order of their updates, and a keystore opened later on the datastore lists the same keys but
  for those on which an addition and a removal overlapped and those for which a write failed. Without calls of both
  kinds on a key there are none of the first, and the second do not count if failed writes leave no trace.
\<close>
theorem concurrent_keystore:
  assumes laws: "lib_laws E" "datastore_laws E content" "trie_laws H T keys"
    and new: "newProviderKeystore E H T d = Inr ks" and entries: "entries_ok E content d"
    and proper: "\<forall>op \<in> A. proper_key H (op_key op)"
    and runs: "ks_runs E T A (ks, [], {}, {}, []) (ks', [], mixed, failed, calls)"
    and again: "newProviderKeystore E H T (ks_dstore ks') = Inr ks''"
  shows "(\<forall>pfx. set (KeysUnder T ks' pfx) = {k \<in> done_set (stored_keys H content d) calls. key_under H pfx k} \<and>
            set (KeysUnder T ks'' pfx) - mixed - failed = set (KeysUnder T ks' pfx) - mixed - failed \<and>
            (failed_writes_void E content \<longrightarrow>
               set (KeysUnder T ks'' pfx) - mixed = set (KeysUnder T ks' pfx) - mixed)) \<and>
         ((\<forall>o' \<in> A. \<forall>op \<in> A. \<not> opposite o' op) \<longrightarrow> mixed = {})"
proof -
  let ?S = "done_set (stored_keys H content d) calls"
  have ok: "race_ok E H keys content A (stored_keys H content d) (ks', [], mixed, failed, calls)"
    by (rule race_ok_runs [OF laws proper runs race_ok_start [OF laws(2,3) new entries]])
  have "keys (ks_index ks'') = stored_keys H content (ks_dstore ks')"
    using newProviderKeystore_keys(2) [OF laws(2,3) again] by (simp add: stored_keys_def)
  moreover have "keys (ks_index ks') = ?S" using ok by (simp add: race_ok_def)
  moreover have "k \<in> ?S \<longleftrightarrow> k \<in> stored_keys H content (ks_dstore ks')"
    if "k \<notin> mixed" "k \<notin> failed \<or> failed_writes_void E content" for k
    using ok that by (auto simp: race_ok_def key_agrees_def)
  ultimately show ?thesis using ok laws(3) by (auto simp: KeysUnder_def trie_laws_def race_ok_def)
qed

lemma concurrent_keystore_witness:
  "\<exists>(ks' :: (mem_ds, bytes Key list) providerKeystore) ks''.
     newProviderKeystore mem_env id_hash list_trie (ks_dstore ks') = Inr ks'' \<and>
     set (KeysUnder list_trie ks'' []) = {NewKey id_hash ''a'', NewKey id_hash ''b''}"
proof -
  let ?a = "NewKey id_hash ''a''" and ?b = "NewKey id_hash ''b''"
  let ?A = "{OpAdd ?a, OpAdd ?b}" and ?ks = "\<lparr>ks_dstore = [] :: mem_ds, ks_index = [] :: bytes Key list\<rparr>"
  let ?step = "ks_step mem_env list_trie ?A"
  have new: "newProviderKeystore mem_env id_hash list_trie [] = Inr ?ks"
    by (simp add: newProviderKeystore_def mem_query_def list_trie_def AList.clearjunk.simps)
  have ent: "entries_ok mem_env map_of []" by (simp add: entries_ok_def)
  have proper: "\<forall>op \<in> ?A. proper_key id_hash (op_key op)" by (simp add: proper_key_def)
  obtain ks1 where a: "ks_write mem_env ?ks (OpAdd ?a) = (None, ks1)" by simp
  obtain ks2 where b: "ks_write mem_env ks1 (OpAdd ?b) = (None, ks2)" by simp
  let ?ks' = "ks_update list_trie (ks_update list_trie ks2 (OpAdd ?a)) (OpAdd ?b)"
  have ab: "?a \<noteq> ?b" by (simp add: NewKey_inject)
  have "?step (?ks, [], {}, {}, []) (ks1, [OpAdd ?a], {}, {}, [])"
    by (rule written' [OF _ a]) (simp_all add: overlap_def still_failed_def)
  moreover have "?step (ks1, [OpAdd ?a], {}, {}, []) (ks2, [OpAdd ?b, OpAdd ?a], {}, {}, [])"
    by (rule written' [OF _ b]) (use ab in \<open>simp_all add: overlap_def still_failed_def\<close>)
  moreover have "?step (ks2, [OpAdd ?b, OpAdd ?a], {}, {}, []) (ks_update list_trie ks2 (OpAdd ?a), [OpAdd ?b], {}, {}, [OpAdd ?a])"
    by (rule updated' [where op = "OpAdd ?a"]) (use ab in simp_all)
  moreover have "?step (ks_update list_trie ks2 (OpAdd ?a), [OpAdd ?b], {}, {}, [OpAdd ?a]) (?ks', [], {}, {}, [OpAdd ?a, OpAdd ?b])"
    by (rule updated' [where op = "OpAdd ?b"]) simp_all
  ultimately have runs: "ks_runs mem_env list_trie ?A (?ks, [], {}, {}, []) (?ks', [], {}, {}, [OpAdd ?a, OpAdd ?b])"
    by (rule four_steps)
  obtain ks'' where again: "newProviderKeystore mem_env id_hash list_trie (ks_dstore ?ks') = Inr ks''"
    using mem_load [of "ks_dstore ?ks'"] by blast
  have "set (KeysUnder list_trie ks'' []) = {?a, ?b}"
    using concurrent_keystore [OF mem_env_lib mem_env_laws list_trie_laws new ent proper runs again]
    by (auto simp: key_under_def done_set_def stored_keys_def stored_def)
  then show ?thesis using again by blast
qed

end
