(* ===== verification/Router.thy ===== *)
theory Router
  imports Stream
begin

text \<open>
  \<open>router.go\<close>: sending a message to a peer and using its response. The host (its peerstore and
  connections) is a world with the functions of the record \<open>router\<close>; the outcomes of the calls on
  the stream are the record \<open>call_io\<close>. What the call does to the stream is recorded as a list
  of actions, because a stream that is opened has to be closed on every path; the metrics are
  recorded too. Tracing and the latency that is measured are left out.
\<close>

section \<open>The router\<close>

record ('w, 'm) router =
  r_self :: peer_id
  r_protocolID :: string
  r_ma :: "'m ma_lib"
  r_Addrs :: "'w \<Rightarrow> peer_id \<Rightarrow> 'm list"
  r_Connected :: "'w \<Rightarrow> peer_id \<Rightarrow> bool"
  r_AddAddrs :: "'w \<Rightarrow> peer_id \<Rightarrow> 'm list \<Rightarrow> int \<Rightarrow> 'w"
  r_Unmarshal :: "bytes \<Rightarrow> goerr + Message"
  r_Size :: "rec \<Rightarrow> nat"

record call_io =
  io_NewStream :: "goerr option"
  io_SetDeadline :: "goerr option"
  io_WriteMsg :: "goerr option"
  io_ReadMsg :: "goerr + bytes"

datatype stream_action = NewStream peer_id string | SetDeadline int | WriteMsg Message | ReadMsg | CloseStream

datatype sent_metric =
    SentMessages | SentMessageErrors | SentRequests | SentRequestErrors | SentBytes nat
  | OutboundRequestLatency

record 'w sent =
  sent_actions :: "stream_action list"
  sent_metrics :: "sent_metric list"
  sent_world :: 'w

definition ttl_Hour :: int where "ttl_Hour = 3600 * 1000000000"

definition addToPeerStore :: "('w, 'm) router \<Rightarrow> 'w \<Rightarrow> 'm addr_info \<Rightarrow> int \<Rightarrow> 'w" where
  "addToPeerStore r w ai ttl =
     (if ai_ID ai = r_self r \<or> r_Connected r w (ai_ID ai) then w
      else r_AddAddrs r w (ai_ID ai) (ai_Addrs ai) ttl)"

fun add_closer :: "('w, 'm) router \<Rightarrow> 'm addr_info list \<Rightarrow> 'w \<Rightarrow> 'w" where
  "add_closer r [] w = w"
| "add_closer r (info # infos) w = add_closer r infos (addToPeerStore r w info ttl_Hour)"

text \<open>
  The part of \<open>SendMessage\<close> from the moment the stream is open; the deferred \<open>Close\<close> runs
  in any case. A response of \<open>None\<close> is a nil message. \<open>ExpectResponse\<close> panics for a message
  type it does not know.
\<close>

definition exchange ::
  "('w, 'm) router \<Rightarrow> call_io \<Rightarrow> 'w \<Rightarrow> peer_id \<Rightarrow> Message \<Rightarrow> int
     \<Rightarrow> (goerr + Message option) may_panic \<times> 'w sent" where
  "exchange r io w to req deadline =
     (let opened = [NewStream to (r_protocolID r), SetDeadline deadline];
          out = (\<lambda>acts ms w. \<lparr>sent_actions = opened @ acts @ [CloseStream], sent_metrics = ms, sent_world = w\<rparr>)
      in case io_SetDeadline io of
           Some err \<Rightarrow> (Inr (Inl (Wrapf ''set stream deadline'' err)), out [] [] w)
         | None \<Rightarrow>
             (case ExpectResponse req of
                Inl panic \<Rightarrow> (Inl panic, out [] [] w)
              | Inr expect \<Rightarrow>
                  if \<not> expect then
                    (case io_WriteMsg io of
                       Some err \<Rightarrow>
                         (Inr (Inl (Wrapf ''write message'' err)),
                          out [WriteMsg req] [SentMessages, SentMessageErrors] w)
                     | None \<Rightarrow>
                         (Inr (Inr None),
                          out [WriteMsg req] [SentMessages, SentBytes (Message_Size (r_Size r) (Some req))] w))
                  else
                    (case io_WriteMsg io of
                       Some err \<Rightarrow>
                         (Inr (Inl (Wrapf ''write message'' err)),
                          out [WriteMsg req] [SentRequests, SentRequestErrors] w)
                     | None \<Rightarrow>
                         (let ms = [SentRequests, SentBytes (Message_Size (r_Size r) (Some req))];
                              acts = [WriteMsg req, ReadMsg]
                          in case io_ReadMsg io of
                               Inl err \<Rightarrow>
                                 (Inr (Inl (Wrapf ''read message'' err)), out acts (ms @ [SentRequestErrors]) w)
                             | Inr data \<Rightarrow>
                                 (case r_Unmarshal r data of
                                    Inl err \<Rightarrow> (Inr (Inl err), out acts (ms @ [SentRequestErrors]) w)
                                  | Inr protoResp \<Rightarrow>
                                      (Inr (Inr (Some protoResp)),
                                       out acts (ms @ [OutboundRequestLatency])
                                         (add_closer r (CloserPeersAddrInfos (r_ma r) (Some protoResp)) w)))))))"

definition SendMessage ::
  "('w, 'm) router \<Rightarrow> call_io \<Rightarrow> 'w \<Rightarrow> peer_id \<Rightarrow> Message \<Rightarrow> int
     \<Rightarrow> (goerr + Message option) may_panic \<times> 'w sent" where
  "SendMessage r io w to req deadline =
     (if length (r_Addrs r w to) = 0
      then (Inr (Inl (Errorf ''no address for peer'')),
            \<lparr>sent_actions = [], sent_metrics = [], sent_world = w\<rparr>)
      else
        (case io_NewStream io of
           Some err \<Rightarrow>
             (Inr (Inl (Wrapf ''stream creation'' err)),
              \<lparr>sent_actions = [], sent_metrics = [], sent_world = w\<rparr>)
         | None \<Rightarrow> exchange r io w to req deadline))"

definition GetClosestNodes ::
  "('w, 'm) router \<Rightarrow> call_io \<Rightarrow> 'w \<Rightarrow> peer_id \<Rightarrow> 'b Key \<Rightarrow> int
     \<Rightarrow> (goerr + peer_id list) may_panic \<times> 'w sent" where
  "GetClosestNodes r io w to target deadline =
     (let req = zero_Message\<lparr>msg_Type := Message_FIND_NODE, msg_Key := MsgKey target\<rparr>
      in case SendMessage r io w to req deadline of
           (Inl panic, s) \<Rightarrow> (Inl panic, s)
         | (Inr (Inl err), s) \<Rightarrow> (Inr (Inl err), s)
         | (Inr (Inr resp), s) \<Rightarrow> (Inr (Inr (CloserNodes resp)), s))"

section \<open>Addresses\<close>

text \<open>Adding addresses of a peer changes only what is known of that peer, and no connection.\<close>

definition peerstore_laws :: "('w, 'm) router \<Rightarrow> bool" where
  "peerstore_laws r \<longleftrightarrow>
     (\<forall>w p as ttl q. p \<noteq> q \<longrightarrow> r_Addrs r (r_AddAddrs r w p as ttl) q = r_Addrs r w q) \<and>
     (\<forall>w p as ttl. set (r_Addrs r (r_AddAddrs r w p as ttl) p) = set (r_Addrs r w p) \<union> set as) \<and>
     (\<forall>w p as ttl. r_Connected r (r_AddAddrs r w p as ttl) = r_Connected r w)"

text \<open>The addresses a response gives for a peer.\<close>

definition told :: "'m addr_info list \<Rightarrow> peer_id \<Rightarrow> 'm set" where
  "told infos p = \<Union> (set (map (set \<circ> ai_Addrs) (filter (\<lambda>a. ai_ID a = p) infos)))"

lemma addToPeerStore_Addrs:
  assumes "peerstore_laws r"
  shows "set (r_Addrs r (addToPeerStore r w ai ttl) p) =
           set (r_Addrs r w p) \<union>
           (if ai_ID ai = p \<and> p \<noteq> r_self r \<and> \<not> r_Connected r w p then set (ai_Addrs ai) else {})"
    and "r_Connected r (addToPeerStore r w ai ttl) = r_Connected r w"
  using assms by (cases "ai_ID ai = p"; auto simp: addToPeerStore_def peerstore_laws_def)+

lemma add_closer_Addrs:
  assumes "peerstore_laws r"
  shows "set (r_Addrs r (add_closer r infos w) p) =
           set (r_Addrs r w p) \<union>
           (if p \<noteq> r_self r \<and> \<not> r_Connected r w p then told infos p else {}) \<and>
         r_Connected r (add_closer r infos w) = r_Connected r w"
proof (induction infos arbitrary: w)
  case Nil
  then show ?case by (simp add: told_def)
next
  case (Cons a infos)
  note step = addToPeerStore_Addrs [OF assms, of w a ttl_Hour]
  have "told (a # infos) p = (if ai_ID a = p then set (ai_Addrs a) else {}) \<union> told infos p"
    by (auto simp: told_def)
  then show ?case using Cons.IH [of "addToPeerStore r w a ttl_Hour"] step by auto
qed

section \<open>The two ends of a stream\<close>

text \<open>
  What comes back when the bytes written by the router are served by the stream handler of the node
  \<open>D\<close>: the message it sent, or an error when it reset the stream or has sent nothing.
\<close>

definition answer_of ::
  "('v, 'n, 'b, 'z) DHT_scheme \<Rightarrow> (bytes \<Rightarrow> goerr + Message) \<Rightarrow> (Message \<Rightarrow> bytes) \<Rightarrow> 'v \<Rightarrow> peer_id
     \<Rightarrow> Message \<Rightarrow> (goerr + bytes) \<times> 'v" where
  "answer_of D unmarshal marshal v remote req =
     (case streamHandler D unmarshal remote None None
             [\<lparr>t_err = None, t_data = marshal req, t_deadline = None, t_write = None, t_flush = None\<rparr>]
             \<lparr>ss_world = v, ss_sent = [],
              ss_metrics = \<lparr>ReceivedMessages = 0, ReceivedMessageErrors = 0, ReceivedBytes = [],
                InboundRequestLatency = 0\<rparr>\<rparr> of
        (_, s) \<Rightarrow> ((case ss_sent s of [] \<Rightarrow> Inl (Errorf ''stream reset'') | m # _ \<Rightarrow> Inr (marshal m)), ss_world s))"

lemma answer_of_response:
  assumes "unmarshal (marshal req) = Inr req" "handleMsg D v remote req = (Inr (Some resp), v')"
  shows "answer_of D unmarshal marshal v remote req = (Inr (marshal resp), v')"
  using assms
  by (simp add: answer_of_def streamHandler_def handleNewStream_def streamReadMsg_def
      streamUnmarshalMsg_def streamWriteMsg_def writeMsg_def Let_def stream_loop.simps)

section \<open>A concrete router\<close>

text \<open>The world of the examples maps peers to addresses.\<close>

definition demo_router :: "(peer_id \<Rightarrow> bytes list, bytes) router" where
  "demo_router =
     \<lparr>r_self = ''remote'', r_protocolID = ''/p'', r_ma = demo_ma, r_Addrs = (\<lambda>w p. w p),
      r_Connected = (\<lambda>w p. False), r_AddAddrs = (\<lambda>w p as ttl. w(p := w p @ as)),
      r_Unmarshal = (\<lambda>b. if b = ''req'' then Inr (zero_Message\<lparr>msg_Type := 4, msg_Key := ''t''\<rparr>)
        else Inr (zero_Message\<lparr>msg_CloserPeers := [\<lparr>mp_Id = b, mp_Addrs = [''a''], mp_Connection = 0\<rparr>]\<rparr>)),
      r_Size = (\<lambda>r. 0)\<rparr>"

lemma demo_router_laws: "peerstore_laws demo_router"
  by (auto simp: peerstore_laws_def demo_router_def)

section \<open>Properties\<close>

text \<open>
  C37: Sending a message opens a stream exactly if an address of the peer is known and the host can
  open one; a stream that was opened is closed last, whatever fails and even if the message type is
  unknown and the code panics; the response is read exactly if the message was written and
  expects one. An error leaves the peerstore alone. A response adds the addresses it tells, but
  never for the node itself or for a peer it is connected to.
\<close>
theorem send_message_effect:
  assumes laws: "peerstore_laws r" and send: "SendMessage r io w to req deadline = (res, s)"
  shows "(sent_actions s \<noteq> [] \<longleftrightarrow> r_Addrs r w to \<noteq> [] \<and> io_NewStream io = None) \<and>
         (sent_actions s \<noteq> [] \<longrightarrow> hd (sent_actions s) = NewStream to (r_protocolID r) \<and>
            last (sent_actions s) = CloseStream \<and>
            (ReadMsg \<in> set (sent_actions s) \<longleftrightarrow>
               io_SetDeadline io = None \<and> ExpectResponse req = Inr True \<and> io_WriteMsg io = None)) \<and>
         (case res of
            Inr (Inr (Some resp)) \<Rightarrow>
              ReadMsg \<in> set (sent_actions s) \<and>
              (\<forall>p. set (r_Addrs r (sent_world s) p) = set (r_Addrs r w p) \<union>
                 (if p \<noteq> r_self r \<and> \<not> r_Connected r w p
                  then told (CloserPeersAddrInfos (r_ma r) (Some resp)) p else {}))
          | Inr (Inr None) \<Rightarrow> sent_world s = w \<and> ExpectResponse req = Inr False
          | Inr (Inl e) \<Rightarrow> sent_world s = w
          | Inl panic \<Rightarrow> sent_world s = w \<and> ExpectResponse req = Inl panic)"
  using send add_closer_Addrs [OF laws]
  by (auto simp: SendMessage_def exchange_def Let_def
      split: if_splits option.splits sum.splits)

lemma send_message_effect_witness:
  "\<exists>resp s. SendMessage demo_router \<lparr>io_NewStream = None, io_SetDeadline = None, io_WriteMsg = None, io_ReadMsg = Inr ''y''\<rparr>
      (\<lambda>p. [''a'']) ''x'' (zero_Message\<lparr>msg_Type := Message_FIND_NODE\<rparr>) 0 = (Inr (Inr (Some resp)), s) \<and>
     last (sent_actions s) = CloseStream"
proof -
  let ?io = "\<lparr>io_NewStream = None, io_SetDeadline = None, io_WriteMsg = None, io_ReadMsg = Inr ''y''\<rparr>"
  let ?req = "zero_Message\<lparr>msg_Type := Message_FIND_NODE\<rparr>" and ?w = "\<lambda>p. [''a'']"
  obtain res s where send: "SendMessage demo_router ?io ?w ''x'' ?req 0 = (res, s)"
    by (cases "SendMessage demo_router ?io ?w ''x'' ?req 0")
  then have "\<exists>resp. res = Inr (Inr (Some resp))"
    by (auto simp: SendMessage_def exchange_def demo_router_def ExpectResponse_def message_types Let_def)
  then obtain resp where resp: "res = Inr (Inr (Some resp))" by blast
  have "sent_actions s \<noteq> [] \<and> last (sent_actions s) = CloseStream"
    using send_message_effect [OF demo_router_laws send] by (simp add: demo_router_def)
  then show ?thesis using send resp by blast
qed

text \<open>
  C20: Asking another node for the nodes closest to a key, with the bytes of the request served
  by that node's stream handler, yields what its routing table says: itself if the key is its own
  identity, else its nearest nodes without itself, the asker and those without addresses, and
  the peer with that identity where its addresses are known. No peer is named twice, the
  asker never, and at most one more than the bucket size.
\<close>
theorem closest_nodes_over_the_wire:
  assumes D: "peerinfo_law D" "nearest_law D" "r_self r \<noteq> d_self D" "MsgKey target \<noteq> []"
    and req: "req = zero_Message\<lparr>msg_Type := Message_FIND_NODE, msg_Key := MsgKey target\<rparr>"
    and codec: "unmarshal (marshal req) = Inr req"
      "\<forall>m v'. handleMsg D v (r_self r) req = (Inr (Some m), v') \<longrightarrow> r_Unmarshal r (marshal m) = Inr m"
    and addrs: "r_Addrs r w (d_self D) \<noteq> []"
    and answer: "answer_of D unmarshal marshal v (r_self r) req = (data, v')"
    and io: "io = \<lparr>io_NewStream = None, io_SetDeadline = None, io_WriteMsg = None, io_ReadMsg = data\<rparr>"
  shows "\<exists>ids s. GetClosestNodes r io w (d_self D) target deadline = (Inr (Inr ids), s) \<and>
           distinct ids \<and> r_self r \<notin> set ids \<and> length ids \<le> d_BucketSize D + 1 \<and>
           (if MsgKey target = d_self D then ids = [d_self D]
            else set ids =
              {p. (p \<in> set (d_NearestNodes D v' (PeerID_Key (d_hash D) (MsgKey target)) (d_BucketSize D)) \<or>
                   p = MsgKey target) \<and>
                  p \<noteq> d_self D \<and> p \<noteq> r_self r \<and> ai_Addrs (d_PeerInfo D v' p) \<noteq> []})"
proof -
  have key: "msg_Key req = MsgKey target" "msg_Type req = 4" by (simp_all add: req Message_FIND_NODE_def)
  obtain resp v1 where h: "handleFindPeer D v (r_self r) req = (Inr resp, v1)"
    using find_node_accepts [of req D v "r_self r"] assms(4) key by auto
  let ?near = "filter (shareable D v1 (r_self r)) (d_NearestNodes D v1 (PeerID_Key (d_hash D) (MsgKey target)) (d_BucketSize D))"
  obtain m where m: "resp = Some m" "v1 = d_NotifyConnectivity D v (r_self r)"
    "CloserNodes (Some m) =
       (if MsgKey target = d_self D then [d_self D]
        else if ai_Addrs (d_PeerInfo D v1 (MsgKey target)) \<noteq> [] \<and> MsgKey target \<notin> set ?near \<and> MsgKey target \<noteq> r_self r
        then ?near @ [MsgKey target] else ?near)"
    using find_node_ids [OF D(1) h, unfolded key(1)] by auto
  have msg: "handleMsg D v (r_self r) req = (Inr (Some m), v1)"
    using h m(1) by (simp add: handleMsg_dispatch key)
  then have data: "data = Inr (marshal m)" "v' = v1"
    using answer answer_of_response [of unmarshal marshal, OF codec(1) msg] by simp_all
  have "\<exists>s. GetClosestNodes r io w (d_self D) target deadline = (Inr (Inr (CloserNodes (Some m))), s)"
    using addrs codec(2) msg data(1)
    by (simp add: GetClosestNodes_def SendMessage_def exchange_def io Let_def ExpectResponse_types key req [symmetric])
  moreover have near: "distinct ?near" "length ?near \<le> d_BucketSize D"
    using D(2) by (auto simp: nearest_law_def intro: order_trans [OF length_filter_le])
  ultimately show ?thesis
    using m(3) D(3) unfolding data(2) by (auto simp: shareable_def split: if_splits)
qed

lemma closest_nodes_over_the_wire_witness:
  "\<exists>r :: (unit, bytes) router. \<exists>io ids s.
     GetClosestNodes r io () ''self'' (NewKey demo_hash ''t'') 0 = (Inr (Inr ids), s) \<and> set ids = {''x'', ''y'', ''t''}"
proof -
  let ?target = "NewKey demo_hash ''t''"
  define req where "req = zero_Message\<lparr>msg_Type := Message_FIND_NODE, msg_Key := MsgKey ?target\<rparr>"
  define resp where "resp = the (projr (fst (handleMsg demo_dht 0 ''remote'' req)))"
  define r :: "(unit, bytes) router" where "r =
     \<lparr>r_self = ''remote'', r_protocolID = ''/p'', r_ma = demo_ma, r_Addrs = (\<lambda>w p. [''a'']),
      r_Connected = (\<lambda>w p. False), r_AddAddrs = (\<lambda>w p as ttl. w), r_Unmarshal = (\<lambda>b. Inr resp), r_Size = (\<lambda>r. 0)\<rparr>"
  let ?un = "\<lambda>b. Inr req :: goerr + Message" and ?mar = "\<lambda>m. []"
  obtain data v' where answer: "answer_of demo_dht ?un ?mar 0 (r_self r) req = (data, v')"
    by (cases "answer_of demo_dht ?un ?mar 0 (r_self r) req")
  define io where "io = \<lparr>io_NewStream = None, io_SetDeadline = None, io_WriteMsg = None, io_ReadMsg = data\<rparr>"
  obtain ids s where ids: "GetClosestNodes r io () (d_self demo_dht) ?target 0 = (Inr (Inr ids), s)" "set ids =
      {p. (p \<in> set (d_NearestNodes demo_dht v' (PeerID_Key (d_hash demo_dht) (MsgKey ?target)) (d_BucketSize demo_dht)) \<or>
           p = MsgKey ?target) \<and>
          p \<noteq> d_self demo_dht \<and> p \<noteq> r_self r \<and> ai_Addrs (d_PeerInfo demo_dht v' p) \<noteq> []}"
  proof -
    have 1: "r_self r \<noteq> d_self demo_dht" "MsgKey ?target \<noteq> []" "r_Addrs r () (d_self demo_dht) \<noteq> []"
      by (simp_all add: r_def)
    have 2: "\<forall>m v'. handleMsg demo_dht 0 (r_self r) req = (Inr (Some m), v') \<longrightarrow> r_Unmarshal r (?mar m) = Inr m"
      by (simp add: r_def resp_def)
    have 3: "MsgKey ?target \<noteq> d_self demo_dht" by simp
    show ?thesis
      using closest_nodes_over_the_wire [OF demo_laws 1(1,2) req_def refl 2 1(3) answer io_def, of 0] that
      unfolding if_not_P [OF 3] by blast
  qed
  have near: "d_NearestNodes demo_dht v' k 20 = [''x'', ''remote'', ''y'']" for k by (simp add: demo_dht_def)
  have "set ids = {''x'', ''y'', ''t''}"
    unfolding ids(2) by (simp add: near r_def) blast
  then show ?thesis using ids(1) by (intro exI [of _ r] exI [of _ io] exI [of _ ids] exI [of _ s]) simp
qed

end
