(* ===== verification/GcRace.thy ===== *)
theory GcRace
  imports ProvidersProps
begin

text \<open>
  The provider backend under concurrency. \<open>Store\<close> first marks the datastore key in the skip list
  and then writes the record; \<open>collectGarbage\<close> erases the list, queries the datastore, and then,
  for each entry of the snapshot, looks at the list and the expiry and deletes the record in a
  later step. Here both are split at these points, any number of stores and one collection
  interleave, and the steps are relations on the state. Run without interference they are the
  operations of \<open>ProvidersBackend\<close>.
\<close>

section \<open>The two halves of Store\<close>

record pending =
  st_dsKey :: bytes
  st_cacheKey :: bytes
  st_now :: int
  st_found :: bool

definition store_begin ::
  "('m, 'ds, 'tx, 'ab, 'c, 'z) prov_env_scheme \<Rightarrow> int \<Rightarrow> bytes \<Rightarrow> 'm addr_info
     \<Rightarrow> ('m, 'ds, 'ab, 'c) ProvidersBackend \<Rightarrow> pending \<times> ('m, 'ds, 'ab, 'c) ProvidersBackend" where
  "store_begin E now key addrInfo p =
     (let cacheKey = newDatastoreKey E (pb_namespace p) [key];
          dsKey = newDatastoreKey E (pb_namespace p) [key, ai_ID addrInfo];
          (hit, cache) = lru_Get E (pb_cache p) cacheKey;
          heap = (case hit of
                    Some provs \<Rightarrow> fst (addProvider (pb_heap p) provs addrInfo now)
                  | None \<Rightarrow> pb_heap p);
          book = ab_AddAddrs E (pb_addrBook p) (ai_ID addrInfo) (AddressFilter (pb_cfg p) (ai_Addrs addrInfo))
                   (AddressTTL (pb_cfg p))
      in (\<lparr>st_dsKey = dsKey, st_cacheKey = cacheKey, st_now = now, st_found = dsKey \<in> pb_gcSkip p\<rparr>,
          p\<lparr>pb_cache := cache, pb_heap := heap, pb_addrBook := book, pb_gcSkip := insert dsKey (pb_gcSkip p)\<rparr>))"

definition store_finish ::
  "('m, 'ds, 'tx, 'ab, 'c, 'z) prov_env_scheme \<Rightarrow> pending \<Rightarrow> ('m, 'ds, 'ab, 'c) ProvidersBackend
     \<Rightarrow> goerr option \<times> ('m, 'ds, 'ab, 'c) ProvidersBackend" where
  "store_finish E t p =
     (case ds_Put E (pb_datastore p) (st_dsKey t) (MarshalBinary \<lparr>expiry = st_now t\<rparr>) of
        (Some e, dstore) \<Rightarrow>
          (Some (Wrapf ''datastore put'' e),
           p\<lparr>pb_datastore := dstore, pb_cache := lru_Remove E (pb_cache p) (st_cacheKey t),
             pb_gcSkip := (if \<not> st_found t then pb_gcSkip p - {st_dsKey t} else pb_gcSkip p)\<rparr>)
      | (None, dstore) \<Rightarrow> (None, p\<lparr>pb_datastore := dstore\<rparr>))"

lemma pb_Store_halves:
  "pb_Store E now p key (AnyAddrInfo a) =
     (case store_begin E now key a p of (t, p1) \<Rightarrow>
        (case store_finish E t p1 of
           (Some e, p2) \<Rightarrow> (Inl e, p2)
         | (None, p2) \<Rightarrow> (Inr (AnyAddrInfo a), p2)))"
  by (auto simp: pb_Store_def store_begin_def store_finish_def Let_def split: prod.split option.split)

section \<open>The steps of a collection\<close>

text \<open>\<open>GcDoomed k n es\<close>: the entry \<open>k\<close> is to be deleted, and then \<open>n\<close> more times.\<close>

datatype gc_pc = GcIdle | GcErased | GcLoop "entry list" | GcDoomed bytes nat "entry list"

definition gc_erase ::
  "('m, 'ds, 'tx, 'ab, 'c, 'z) prov_env_scheme \<Rightarrow> ('m, 'ds, 'ab, 'c) ProvidersBackend
     \<Rightarrow> ('m, 'ds, 'ab, 'c) ProvidersBackend" where
  "gc_erase E p = p\<lparr>pb_cache := lru_Purge E (pb_cache p), pb_gcSkip := {}\<rparr>"

definition gc_query ::
  "('m, 'ds, 'tx, 'ab, 'c, 'z) prov_env_scheme \<Rightarrow> ('m, 'ds, 'ab, 'c) ProvidersBackend \<Rightarrow> gc_pc" where
  "gc_query E p =
     (case ds_Query E (pb_datastore p) (pb_namespace p) of Inl err \<Rightarrow> GcIdle | Inr es \<Rightarrow> GcLoop es)"

fun gc_check :: "('m, 'ds, 'ab, 'c) ProvidersBackend \<Rightarrow> int \<Rightarrow> entry \<Rightarrow> entry list \<Rightarrow> gc_pc" where
  "gc_check p now (k, Inl err) es = GcLoop es"
| "gc_check p now (k, Inr v) es =
     (if k \<in> pb_gcSkip p then GcLoop es
      else
        (case UnmarshalBinary v of
           Inl err \<Rightarrow> GcDoomed k 1 es
         | Inr rec \<Rightarrow>
             if time_Sub now (expiry rec) \<le> ProvideValidity (pb_cfg p) then GcLoop es else GcDoomed k 0 es))"

fun gc_deleted :: "bytes \<Rightarrow> nat \<Rightarrow> entry list \<Rightarrow> gc_pc" where
  "gc_deleted k 0 es = GcLoop es"
| "gc_deleted k (Suc n) es = GcDoomed k n es"

text \<open>
  The state: the backend, the stores that have marked but not written, where the collection is, and
  the stores that succeeded, with their time.
\<close>

type_synonym ('m, 'ds, 'ab, 'c) race = "('m, 'ds, 'ab, 'c) ProvidersBackend \<times> pending list \<times> gc_pc \<times> (bytes \<times> int) list"

inductive race_step ::
  "('m, 'ds, 'tx, 'ab, 'c, 'z) prov_env_scheme \<Rightarrow> ('m, 'ds, 'ab, 'c) race \<Rightarrow> ('m, 'ds, 'ab, 'c) race \<Rightarrow> bool"
  for E :: "('m, 'ds, 'tx, 'ab, 'c, 'z) prov_env_scheme" where
  mark: "store_begin E now key a p = (t, p') \<Longrightarrow> race_step E (p, ts, pc, log) (p', t # ts, pc, log)"
| put: "t \<in> set ts \<Longrightarrow> store_finish E t p = (e, p') \<Longrightarrow>
          race_step E (p, ts, pc, log)
            (p', remove1 t ts, pc, if e = None then (st_dsKey t, st_now t) # log else log)"
| erase: "race_step E (p, ts, GcIdle, log) (gc_erase E p, ts, GcErased, log)"
| query: "race_step E (p, ts, GcErased, log) (p, ts, gc_query E p, log)"
| check: "race_step E (p, ts, GcLoop (e # es), log) (p, ts, gc_check p now e es, log)"
| finished: "race_step E (p, ts, GcLoop [], log) (p, ts, GcIdle, log)"
| delete: "race_step E (p, ts, GcDoomed k n es, log)
             (p\<lparr>pb_datastore := pb_delete E (pb_datastore p) k\<rparr>, ts, gc_deleted k n es, log)"

abbreviation races_to where "races_to E \<equiv> (race_step E)\<^sup>*\<^sup>*"

lemmas steps_trans = converse_rtranclp_into_rtranclp [where r = "race_step E" for E]

section \<open>A collection without interference\<close>

lemma gc_steps:
  fixes E :: "('m, 'ds, 'tx, 'ab, 'c, 'z) prov_env_scheme"
  shows "races_to E (p, ts, GcLoop es, log)
     (p\<lparr>pb_datastore := gc_loop E (ProvideValidity (pb_cfg p)) (\<lambda>_. pb_gcSkip p) (\<lambda>_. now) i es (pb_datastore p)\<rparr>,
      ts, GcIdle, log)"
proof (induction es arbitrary: p i)
  case Nil
  then show ?case using race_step.finished [of E p ts log] by simp
next
  case (Cons e es)
  let ?skip = "\<lambda>_. pb_gcSkip p" and ?clk = "\<lambda>_. now" and ?v = "ProvideValidity (pb_cfg p)"
  let ?d = "gc_step E ?v (pb_gcSkip p) now e (pb_datastore p)"
  have del: "races_to E (q, ts, GcDoomed k 0 es, log) (q\<lparr>pb_datastore := pb_delete E (pb_datastore q) k\<rparr>, ts, GcLoop es, log)"
    for q :: "('m, 'ds, 'ab, 'c) ProvidersBackend" and k
    using r_into_rtranclp [of "race_step E", OF race_step.delete [of E q ts k 0 es log]] by simp
  have del2: "races_to E (q, ts, GcDoomed k 1 es, log)
      (q\<lparr>pb_datastore := pb_delete E (pb_delete E (pb_datastore q) k) k\<rparr>, ts, GcLoop es, log)"
    for q :: "('m, 'ds, 'ab, 'c) ProvidersBackend" and k
  proof -
    let ?q = "q\<lparr>pb_datastore := pb_delete E (pb_datastore q) k\<rparr>"
    have "race_step E (q, ts, GcDoomed k 1 es, log) (?q, ts, GcDoomed k 0 es, log)"
      using race_step.delete [of E q ts k 1 es log] by simp
    moreover have "races_to E (?q, ts, GcDoomed k 0 es, log)
        (q\<lparr>pb_datastore := pb_delete E (pb_delete E (pb_datastore q) k) k\<rparr>, ts, GcLoop es, log)"
      using del [of ?q k] by simp
    ultimately show ?thesis by (rule converse_rtranclp_into_rtranclp)
  qed
  have "races_to E (p, ts, gc_check p now e es, log) (p\<lparr>pb_datastore := ?d\<rparr>, ts, GcLoop es, log)"
    using del [of p "fst e"] del2 [of p "fst e"]
    by (cases e; cases "snd e") (auto simp: gc_step_def split: sum.split)
  with race_step.check have "races_to E (p, ts, GcLoop (e # es), log) (p\<lparr>pb_datastore := ?d\<rparr>, ts, GcLoop es, log)"
    by (rule converse_rtranclp_into_rtranclp)
  moreover have "races_to E (p\<lparr>pb_datastore := ?d\<rparr>, ts, GcLoop es, log)
      (p\<lparr>pb_datastore := gc_loop E ?v ?skip ?clk i (e # es) (pb_datastore p)\<rparr>, ts, GcIdle, log)"
    using Cons.IH [of "p\<lparr>pb_datastore := ?d\<rparr>" "Suc i"] by (simp add: gc_loop_step)
  ultimately show ?case by (rule rtranclp_trans)
qed

text \<open>Without interference a collection is \<open>collectGarbage\<close>.\<close>

lemma collection_steps:
  assumes "ds_Query E (pb_datastore p) (pb_namespace p) = Inr es"
  shows "races_to E (p, ts, GcIdle, log) (collectGarbage E (\<lambda>_. {}) (\<lambda>_. now) p, ts, GcIdle, log)"
proof -
  have "race_step E (p, ts, GcIdle, log) (gc_erase E p, ts, GcErased, log)" by (rule race_step.erase)
  moreover have "race_step E (gc_erase E p, ts, GcErased, log) (gc_erase E p, ts, GcLoop es, log)"
    using race_step.query [of E "gc_erase E p" ts log] assms by (simp add: gc_query_def gc_erase_def)
  moreover have "races_to E (gc_erase E p, ts, GcLoop es, log)
      (collectGarbage E (\<lambda>_. {}) (\<lambda>_. now) p, ts, GcIdle, log)"
    using gc_steps [of E "gc_erase E p" ts es log now 0] assms
    by (simp add: collectGarbage_def Let_def gc_erase_def)
  ultimately show ?thesis by (meson converse_rtranclp_into_rtranclp)
qed

section \<open>The mark protects\<close>

definition marked :: "bytes \<Rightarrow> ('m, 'ds, 'ab, 'c) race \<Rightarrow> bool" where
  "marked k s \<longleftrightarrow> (case s of (p, ts, pc, log) \<Rightarrow> k \<in> pb_gcSkip p)"

definition doomed :: "bytes \<Rightarrow> ('m, 'ds, 'ab, 'c) race \<Rightarrow> bool" where
  "doomed k s \<longleftrightarrow> (case s of (p, ts, pc, log) \<Rightarrow> \<exists>n es. pc = GcDoomed k n es)"

definition in_store :: "('ds \<Rightarrow> bytes \<rightharpoonup> bytes) \<Rightarrow> bytes \<Rightarrow> ('m, 'ds, 'ab, 'c) race \<Rightarrow> bool" where
  "in_store content k s \<longleftrightarrow> (case s of (p, ts, pc, log) \<Rightarrow> content (pb_datastore p) k \<noteq> None)"

lemmas race_defs = marked_def doomed_def in_store_def

lemma gc_check_doomed:
  "gc_check p now e es = GcDoomed k n es' \<Longrightarrow> k \<notin> pb_gcSkip p"
  by (cases e; cases "snd e") (auto split: if_splits sum.splits)

lemma gc_deleted_doomed: "gc_deleted k n es = GcDoomed j m es' \<Longrightarrow> j = k"
  by (cases n) auto

lemma gc_query_not_doomed: "gc_query E p \<noteq> GcDoomed k n es"
  by (simp add: gc_query_def split: sum.split)

lemma store_begin_keeps: "store_begin E now key a p = (t, p') \<Longrightarrow> pb_datastore p' = pb_datastore p"
  by (auto simp: store_begin_def Let_def split: prod.splits)

lemma store_finish_content:
  assumes "datastore_laws E content" "store_finish E t p = (e, p')"
  shows "content (pb_datastore p') =
           (content (pb_datastore p))(st_dsKey t \<mapsto> MarshalBinary \<lparr>expiry = st_now t\<rparr>) \<or>
         e \<noteq> None \<and> content (pb_datastore p') = content (pb_datastore p)"
proof -
  obtain r d where put: "ds_Put E (pb_datastore p) (st_dsKey t) (MarshalBinary \<lparr>expiry = st_now t\<rparr>) = (r, d)"
    by (rule prod.exhaust)
  then show ?thesis
    using ds_Put_content [OF assms(1) put] assms(2) by (cases r) (auto simp: store_finish_def)
qed

text \<open>A step keeps a record that is marked and not doomed; only an unmarked record gets doomed.\<close>

lemma race_step_keeps:
  assumes laws: "datastore_laws E content" and step: "race_step E s s'"
    and "\<not> doomed k s" "in_store content k s" "marked k s"
  shows "\<not> doomed k s'" "in_store content k s'"
proof -
  from step assms(3-5) have "\<not> doomed k s' \<and> in_store content k s'"
  proof (cases rule: race_step.cases)
    case (mark now key a p t p' ts pc log)
    then show ?thesis using assms(3-5) store_begin_keeps [OF mark(3)] by (auto simp: race_defs)
  next
    case (put t ts p e p' pc log)
    then show ?thesis using assms(3-5) store_finish_content [OF laws put(4)] by (auto simp: race_defs)
  next
    case (erase p ts log)
    then show ?thesis using assms(3-5) by (auto simp: race_defs gc_erase_def)
  next
    case (query p ts log)
    then show ?thesis using assms(3-5) by (auto simp: race_defs gc_query_not_doomed)
  next
    case (check p ts e es log now)
    then show ?thesis using assms(3-5) gc_check_doomed [of p now e es k] by (auto simp: race_defs)
  next
    case (finished p ts log)
    then show ?thesis using assms(3-5) by (auto simp: race_defs)
  next
    case (delete p ts j n es log)
    then have "j \<noteq> k" using assms(3) by (auto simp: race_defs)
    then show ?thesis
      using delete assms(3-5) delete_other [OF laws, of k j "pb_datastore p"] gc_deleted_doomed [of j n es k]
      by (auto simp: race_defs)
  qed
  then show "\<not> doomed k s'" "in_store content k s'" by blast+
qed

section \<open>Finishing\<close>

abbreviation pending :: "('m, 'ds, 'ab, 'c) race \<Rightarrow> pending list" where "pending s \<equiv> fst (snd s)"
abbreviation collector :: "('m, 'ds, 'ab, 'c) race \<Rightarrow> gc_pc" where "collector s \<equiv> fst (snd (snd s))"

text \<open>A step that neither begins a store nor a collection.\<close>

definition quiet_step ::
  "('m, 'ds, 'tx, 'ab, 'c, 'z) prov_env_scheme \<Rightarrow> ('m, 'ds, 'ab, 'c) race \<Rightarrow> ('m, 'ds, 'ab, 'c) race \<Rightarrow> bool" where
  "quiet_step E s s' \<longleftrightarrow> race_step E s s' \<and> length (pending s') \<le> length (pending s) \<and>
     \<not> (collector s = GcIdle \<and> collector s' = GcErased)"

text \<open>What is left to do; the query, whose answer may have any length, comes first.\<close>

definition is_erased :: "('m, 'ds, 'ab, 'c) race \<Rightarrow> nat" where
  "is_erased s = (if collector s = GcErased then 1 else 0)"

fun gc_work :: "gc_pc \<Rightarrow> nat" where
  "gc_work GcIdle = 0"
| "gc_work GcErased = 0"
| "gc_work (GcLoop es) = 1 + 4 * length es"
| "gc_work (GcDoomed k n es) = 2 + n + 4 * length es"

definition work :: "('m, 'ds, 'ab, 'c) race \<Rightarrow> nat" where
  "work s = length (pending s) + gc_work (collector s)"

lemma gc_check_work: "gc_work (gc_check p now e es) < gc_work (GcLoop (e # es))"
  by (cases e; cases "snd e") (auto split: sum.split)

lemma gc_check_not_erased: "gc_check p now e es \<noteq> GcErased"
  by (cases e; cases "snd e") (auto split: sum.split)

lemma gc_deleted_work: "gc_work (gc_deleted k n es) < gc_work (GcDoomed k n es)"
  by (cases n) auto

lemma gc_deleted_not_erased: "gc_deleted k n es \<noteq> GcErased"
  by (cases n) auto

lemma gc_query_not_erased: "gc_query E p \<noteq> GcErased"
  by (simp add: gc_query_def split: sum.split)

lemma quiet_step_decreases:
  assumes "quiet_step E s s'"
  shows "(s', s) \<in> measures [is_erased, work]"
proof -
  have "race_step E s s'" using assms by (simp add: quiet_step_def)
  then show ?thesis
  proof (cases rule: race_step.cases)
    case (put t ts p e p' pc log)
    moreover from this have "length (remove1 t ts) < length ts"
      by (metis length_pos_if_in_set length_remove1 diff_less zero_less_one)
    ultimately show ?thesis by (simp add: is_erased_def work_def)
  next
    case (check p ts e es log now)
    then show ?thesis using gc_check_work [of p now e es] gc_check_not_erased [of p now e es]
      by (simp add: is_erased_def work_def)
  next
    case (delete p ts k n es log)
    then show ?thesis using gc_deleted_work [of k n es] gc_deleted_not_erased [of k n es]
      by (simp add: is_erased_def work_def)
  qed (use assms in \<open>auto simp: quiet_step_def is_erased_def work_def gc_query_not_erased\<close>)
qed

text \<open>Where a collection is under way it can go on, whatever the clock shows.\<close>

lemma collector_goes_on:
  assumes "collector s \<noteq> GcIdle"
  shows "\<exists>s'. quiet_step E s s' \<and> pending s' = pending s \<and>
           (\<forall>e es. collector s = GcLoop (e # es) \<longrightarrow> collector s' = gc_check (fst s) now e es)"
proof -
  obtain p ts pc log where s: "s = (p, ts, pc, log)" by (cases s)
  show ?thesis
  proof (cases pc)
    case GcIdle
    then show ?thesis using assms s by simp
  next
    case GcErased
    then show ?thesis using s race_step.query [of E p ts log] by (auto simp: quiet_step_def)
  next
    case (GcLoop es)
    show ?thesis
    proof (cases es)
      case Nil
      then show ?thesis using s GcLoop race_step.finished [of E p ts log] by (auto simp: quiet_step_def)
    next
      case (Cons e es')
      then have "quiet_step E s (p, ts, gc_check p now e es', log)"
        using s GcLoop race_step.check [of E p ts e es' log now] by (simp add: quiet_step_def)
      then show ?thesis using s GcLoop Cons by fastforce
    qed
  next
    case (GcDoomed k n es)
    then show ?thesis using s race_step.delete [of E p ts k n es log] by (auto simp: quiet_step_def)
  qed
qed

lemma quiet_runs_end: "\<not> (\<exists>run. \<forall>i. quiet_step E (run i) (run (Suc i)))"
proof -
  have "(run (Suc i), run i) \<in> measures [is_erased, work]" if "\<forall>i. quiet_step E (run i) (run (Suc i))" for run i
    using that quiet_step_decreases by blast
  then show ?thesis
    using wf_measures [of "[is_erased, work]"] by (metis wf_iff_no_infinite_down_chain)
qed

section \<open>A dead record\<close>

text \<open>
  A step in which the clock shows \<open>T\<close> or later where it is read by the collection, and after which no store
  of \<open>k\<close> is under way.
\<close>

definition collect_step ::
  "('m, 'ds, 'tx, 'ab, 'c, 'z) prov_env_scheme \<Rightarrow> int \<Rightarrow> bytes \<Rightarrow> ('m, 'ds, 'ab, 'c) race \<Rightarrow> ('m, 'ds, 'ab, 'c) race \<Rightarrow> bool" where
  "collect_step E T k s s' \<longleftrightarrow>
     race_step E s s' \<and> (\<forall>t \<in> set (pending s'). st_dsKey t \<noteq> k) \<and>
     (\<forall>e es. collector s = GcLoop (e # es) \<longrightarrow> collector s' \<noteq> collector s \<longrightarrow>
        (\<exists>now \<ge> T. collector s' = gc_check (fst s) now e es))"

text \<open>The record is gone, or the collection still has it before it.\<close>

definition still_due :: "bytes \<Rightarrow> bytes \<Rightarrow> gc_pc \<Rightarrow> bool" where
  "still_due k v pc \<longleftrightarrow>
     (case pc of
        GcIdle \<Rightarrow> False
      | GcErased \<Rightarrow> True
      | GcLoop es \<Rightarrow> (k, Inr v) \<in> set es
      | GcDoomed j n es \<Rightarrow> j = k \<or> (k, Inr v) \<in> set es)"

definition due_inv ::
  "('ds \<Rightarrow> bytes \<rightharpoonup> bytes) \<Rightarrow> ('m, 'ds, 'ab, 'c) ProvidersBackend \<Rightarrow> bytes \<Rightarrow> bytes \<Rightarrow> ('m, 'ds, 'ab, 'c) race \<Rightarrow> bool" where
  "due_inv content p0 k v s \<longleftrightarrow>
     (case s of (p, ts, pc, log) \<Rightarrow>
        pb_namespace p = pb_namespace p0 \<and> pb_cfg p = pb_cfg p0 \<and> k \<notin> pb_gcSkip p \<and>
        (\<forall>t \<in> set ts. st_dsKey t \<noteq> k) \<and>
        (content (pb_datastore p) k = None \<or> content (pb_datastore p) k = Some v \<and> still_due k v pc))"

lemma store_begin_frame:
  "store_begin E now key a p = (t, p') \<Longrightarrow>
     pb_namespace p' = pb_namespace p \<and> pb_cfg p' = pb_cfg p \<and> pb_gcSkip p' = insert (st_dsKey t) (pb_gcSkip p)"
  by (auto simp: store_begin_def Let_def split: prod.splits)

lemma finish_keeps_setup:
  "store_finish E t p = (e, p') \<Longrightarrow>
     pb_namespace p' = pb_namespace p \<and> pb_cfg p' = pb_cfg p \<and> pb_gcSkip p' \<subseteq> pb_gcSkip p"
  by (auto simp: store_finish_def split: prod.splits option.splits if_splits)

lemma time_Sub_later: "T \<le> now \<Longrightarrow> time_Sub T t \<le> time_Sub now t"
  by (simp add: time_Sub_def)

definition dead_at :: "int \<Rightarrow> int \<Rightarrow> bytes \<Rightarrow> bool" where
  "dead_at T validity v \<longleftrightarrow> (\<forall>rec. UnmarshalBinary v = Inr rec \<longrightarrow> validity < time_Sub T (expiry rec))"

lemma gc_check_due:
  assumes "dead_at T (ProvideValidity (pb_cfg p)) v" "T \<le> now" "k \<notin> pb_gcSkip p" "(k, Inr v) \<in> set (e # es)"
  shows "still_due k v (gc_check p now e es)"
proof (cases "e = (k, Inr v)")
  case True
  show ?thesis
  proof (cases "UnmarshalBinary v")
    case (Inr rec)
    then have "\<not> time_Sub now (expiry rec) \<le> ProvideValidity (pb_cfg p)"
      using assms(1) time_Sub_later [OF assms(2), of "expiry rec"] by (auto simp: dead_at_def)
    then show ?thesis using True Inr assms(3) by (simp add: still_due_def)
  qed (use True assms(3) in \<open>simp add: still_due_def\<close>)
next
  case False
  then show ?thesis using assms(4)
    by (cases e; cases "snd e") (auto simp: still_due_def split: sum.split)
qed

lemma gc_query_due:
  assumes "datastore_laws E content" "\<forall>d q. \<exists>es. ds_Query E d q = Inr es \<and> (\<forall>e \<in> set es. \<not> is_error_entry e)"
    and "under (pb_namespace p) k" "content (pb_datastore p) k = Some v"
  shows "still_due k v (gc_query E p)"
proof -
  obtain es where es: "ds_Query E (pb_datastore p) (pb_namespace p) = Inr es" "\<forall>e \<in> set es. \<not> is_error_entry e"
    using assms(2) by blast
  then have "(k, Inr v) \<in> set es" using query_entries [OF assms(1) es] assms(3,4) by blast
  then show ?thesis using es(1) by (simp add: gc_query_def still_due_def)
qed

lemma due_inv_step:
  assumes laws: "datastore_laws E content" and delete: "\<forall>d k. fst (ds_Delete E d k) = None"
    and query: "\<forall>d q. \<exists>es. ds_Query E d q = Inr es \<and> (\<forall>e \<in> set es. \<not> is_error_entry e)"
    and dead: "under (pb_namespace p0) k" "dead_at T (ProvideValidity (pb_cfg p0)) v"
    and step: "collect_step E T k s s'" and inv: "due_inv content p0 k v s"
  shows "due_inv content p0 k v s'"
proof -
  have "race_step E s s'" and free: "\<forall>t \<in> set (pending s'). st_dsKey t \<noteq> k"
    using step by (simp_all add: collect_step_def)
  then show ?thesis
  proof (cases rule: race_step.cases)
    case (mark now key a p t p' ts pc log)
    then show ?thesis
      using inv free store_begin_frame [OF mark(3)] store_begin_keeps [OF mark(3)] by (auto simp: due_inv_def)
  next
    case (put t ts p e p' pc log)
    then have "st_dsKey t \<noteq> k" using inv by (auto simp: due_inv_def)
    then show ?thesis
      using inv free put(1,2) finish_keeps_setup [OF put(4)] store_finish_content [OF laws put(4)]
      by (auto simp: due_inv_def)
  next
    case (erase p ts log)
    then show ?thesis using inv by (auto simp: due_inv_def gc_erase_def still_due_def)
  next
    case (query p ts log)
    then show ?thesis using inv gc_query_due [OF laws assms(3), of p k v] dead(1) by (auto simp: due_inv_def)
  next
    case (check p ts e es log now)
    have "gc_check p now e es \<noteq> GcLoop (e # es)" using gc_check_work [of p now e es] by auto
    then obtain now' where "T \<le> now'" "gc_check p now e es = gc_check p now' e es"
      using step check by (auto simp: collect_step_def)
    then show ?thesis
      using inv check gc_check_due [of T p v now' k e es] dead(2) by (auto simp: due_inv_def still_due_def)
  next
    case (finished p ts log)
    then show ?thesis using inv by (auto simp: due_inv_def still_due_def)
  next
    case (delete p ts j n es log)
    have "content (pb_delete E (pb_datastore p) j) = (content (pb_datastore p))(j := None)"
      using ds_Delete_content [OF laws, of "pb_datastore p" j None "pb_delete E (pb_datastore p) j"] assms(2)
      by (simp add: pb_delete_def prod_eq_iff)
    then show ?thesis
      using inv delete(1,2) by (cases n) (auto simp: due_inv_def still_due_def)
  qed
qed

lemma due_inv_runs:
  assumes "datastore_laws E content" "\<forall>d k. fst (ds_Delete E d k) = None"
    and "\<forall>d q. \<exists>es. ds_Query E d q = Inr es \<and> (\<forall>e \<in> set es. \<not> is_error_entry e)"
    and "under (pb_namespace p0) k" "dead_at T (ProvideValidity (pb_cfg p0)) v"
    and "(collect_step E T k)\<^sup>*\<^sup>* s s'" "due_inv content p0 k v s"
  shows "due_inv content p0 k v s'"
  using assms(6,7) by (induction rule: rtranclp_induct) (auto intro: due_inv_step [OF assms(1-5)])

section \<open>A record that expires\<close>

definition old_key :: bytes where
  "old_key = newDatastoreKey mem_env ''providers'' [''k'', ''p'']"

definition old_record :: "(bytes, mem_ds, mem_ab, mem_lru) ProvidersBackend" where
  "old_record = mem_pb\<lparr>pb_datastore := [(old_key, MarshalBinary \<lparr>expiry = 0\<rparr>)]\<rparr>"

lemma old_key_under: "under ''providers'' old_key"
proof -
  have eq: "old_key = ''/providers/'' @ join_slash [pair_encode ''k'', pair_encode ''p'']"
    by (simp add: old_key_def newDatastoreKey_def)
  show ?thesis unfolding eq by (simp add: under_def)
qed

section \<open>Properties\<close>

text \<open>
  C13: However stores and collections interleave: a record that is in the datastore and whose
  key is in the skip list, while no deletion of it is under way, stays in the datastore as long as
  its key stays in the list.
\<close>
theorem marked_record_survives:
  assumes laws: "datastore_laws E content"
    and start: "\<not> doomed k s" "in_store content k s" "marked k s"
    and run: "(\<lambda>s s'. race_step E s s' \<and> marked k s')\<^sup>*\<^sup>* s s'"
  shows "in_store content k s' \<and> \<not> doomed k s'"
proof -
  from run have "in_store content k s' \<and> \<not> doomed k s' \<and> marked k s'"
  proof (induction rule: rtranclp_induct)
    case base
    then show ?case using start by simp
  next
    case (step s1 s2)
    then show ?case using race_step_keeps [OF laws, of s1 s2 k] by blast
  qed
  then show ?thesis by blast
qed

lemma marked_record_survives_witness:
  "in_store map_of old_key (old_record\<lparr>pb_gcSkip := {old_key}\<rparr>, [], GcLoop [], []) \<and>
   \<not> doomed old_key (old_record\<lparr>pb_gcSkip := {old_key}\<rparr>, [], GcIdle, [])"
proof -
  let ?p = "old_record\<lparr>pb_gcSkip := {old_key}\<rparr>"
  let ?e = "(old_key, Inr (MarshalBinary \<lparr>expiry = 0\<rparr>))"
  let ?R = "\<lambda>s s'. race_step mem_env s s' \<and> marked old_key s'"
  have 1: "?R (?p, [], GcLoop [?e], []) (?p, [], GcLoop [], [])"
    using race_step.check [of mem_env ?p "[]" ?e "[]" "[]" "61 * Hour"] by (simp add: marked_def)
  have 2: "?R (?p, [], GcLoop [], []) (?p, [], GcIdle, [])"
    using race_step.finished [of mem_env ?p "[]" "[]"] by (simp add: marked_def)
  have start: "\<not> doomed old_key (?p, [], GcLoop [?e], [])" "in_store map_of old_key (?p, [], GcLoop [?e], [])"
      "marked old_key (?p, [], GcLoop [?e], [])"
    by (simp_all add: race_defs old_record_def)
  have "?R\<^sup>*\<^sup>* (?p, [], GcLoop [?e], []) (?p, [], GcLoop [], [])" by (rule r_into_rtranclp [where r = ?R, OF 1])
  moreover from this have "?R\<^sup>*\<^sup>* (?p, [], GcLoop [?e], []) (?p, [], GcIdle, [])"
    using 2 by (rule rtranclp.rtrancl_into_rtrancl)
  ultimately show ?thesis
    using marked_record_survives [OF mem_env_laws start] by blast
qed

text \<open>
  C38: A collection gets rid of a dead record, however stores of other records interleave with it: of a record that
  cannot be read, or is past its validity at a time before the collection looks at it, nothing is left whenever the
  collection is over, if the key is not stored again and the datastore answers and deletes. And the collection
  gets there: it can take its next step wherever it is, and without further stores and collections
  there are finitely many of these.
\<close>
theorem dead_record_collected:
  assumes laws: "datastore_laws E content" and delete: "\<forall>d k. fst (ds_Delete E d k) = None"
    and query: "\<forall>d q. \<exists>es. ds_Query E d q = Inr es \<and> (\<forall>e \<in> set es. \<not> is_error_entry e)"
    and dead: "under (pb_namespace p) k" "content (pb_datastore p) k = Some v" "dead_at T (ProvideValidity (pb_cfg p)) v"
    and free: "\<forall>t \<in> set ts. st_dsKey t \<noteq> k"
    and run: "(collect_step E T k)\<^sup>*\<^sup>* (gc_erase E p, ts, GcErased, log) s"
  shows "(collector s = GcIdle \<longrightarrow> content (pb_datastore (fst s)) k = None) \<and>
         (collector s \<noteq> GcIdle \<longrightarrow> (\<exists>s'. collect_step E T k s s' \<and> quiet_step E s s')) \<and>
         \<not> (\<exists>run. run 0 = s \<and> (\<forall>i. quiet_step E (run i) (run (Suc i))))"
proof -
  have "due_inv content p k v (gc_erase E p, ts, GcErased, log)"
    using dead free by (simp add: due_inv_def gc_erase_def still_due_def)
  from due_inv_runs [OF laws delete query dead(1,3) run this] have inv: "due_inv content p k v s" .
  have "\<exists>s'. collect_step E T k s s' \<and> quiet_step E s s'" if busy: "collector s \<noteq> GcIdle"
  proof -
    obtain s' where s': "quiet_step E s s'" "pending s' = pending s"
      "\<forall>e es. collector s = GcLoop (e # es) \<longrightarrow> collector s' = gc_check (fst s) T e es"
      using collector_goes_on [OF busy, of E T] by blast
    moreover have "\<forall>t \<in> set (pending s). st_dsKey t \<noteq> k" using inv by (auto simp: due_inv_def)
    ultimately have "collect_step E T k s s'" by (auto simp: collect_step_def quiet_step_def)
    then show ?thesis using s'(1) by blast
  qed
  moreover have "collector s = GcIdle \<longrightarrow> content (pb_datastore (fst s)) k = None"
    using inv by (auto simp: due_inv_def still_due_def)
  ultimately show ?thesis using quiet_runs_end by blast
qed

lemma dead_record_collected_witness:
  "\<exists>p. races_to mem_env (gc_erase mem_env old_record, [], GcErased, []) (p, [], GcIdle, []) \<and>
     map_of (pb_datastore p) old_key = None"
proof -
  let ?p = "gc_erase mem_env old_record" and ?e = "(old_key, Inr (MarshalBinary \<lparr>expiry = 0\<rparr>))"
  let ?q = "?p\<lparr>pb_datastore := []\<rparr>" and ?step = "collect_step mem_env (61 * Hour) old_key"
  have dead: "dead_at (61 * Hour) (ProvideValidity (pb_cfg old_record)) (MarshalBinary \<lparr>expiry = 0\<rparr>)"
    using Unmarshal_Marshal [of "\<lparr>expiry = 0\<rparr>"]
    by (simp add: dead_at_def old_record_def unix_nano_ok_def time_Sub_def minDuration_def maxDuration_def
        Hour_def Minute_def)
  have "gc_query mem_env ?p = GcLoop [?e]"
    using old_key_under by (simp add: gc_query_def gc_erase_def old_record_def mem_query_def AList.clearjunk.simps)
  then have 1: "?step (?p, [], GcErased, []) (?p, [], GcLoop [?e], [])"
    using race_step.query [of mem_env ?p "[]" "[]"] by (simp add: collect_step_def)
  have "gc_check ?p (61 * Hour) ?e [] = GcDoomed old_key 0 []"
    using Unmarshal_Marshal [of "\<lparr>expiry = 0\<rparr>"]
    by (simp add: gc_erase_def old_record_def unix_nano_ok_def time_Sub_def minDuration_def maxDuration_def
        Hour_def Minute_def)
  then have 2: "?step (?p, [], GcLoop [?e], []) (?p, [], GcDoomed old_key 0 [], [])"
    using race_step.check [of mem_env ?p "[]" ?e "[]" "[]" "61 * Hour"] by (auto simp: collect_step_def)
  have 3: "?step (?p, [], GcDoomed old_key 0 [], []) (?q, [], GcLoop [], [])"
    using race_step.delete [of mem_env ?p "[]" old_key 0 "[]" "[]"]
    by (simp add: collect_step_def pb_delete_def gc_erase_def old_record_def)
  have 4: "?step (?q, [], GcLoop [], []) (?q, [], GcIdle, [])"
    using race_step.finished [of mem_env ?q "[]" "[]"] by (simp add: collect_step_def)
  have run: "?step\<^sup>*\<^sup>* (?p, [], GcErased, []) (?q, [], GcIdle, [])"
    using 1 2 3 4 by (meson converse_rtranclp_into_rtranclp r_into_rtranclp)
  then have "races_to mem_env (?p, [], GcErased, []) (?q, [], GcIdle, [])"
    by (rule mono_rtranclp [rule_format, rotated]) (simp add: collect_step_def)
  moreover have "\<forall>d k. fst (ds_Delete mem_env d k) = None" "under (pb_namespace old_record) old_key"
    "map_of (pb_datastore old_record) old_key = Some (MarshalBinary \<lparr>expiry = 0\<rparr>)"
    "\<forall>d q. \<exists>es. ds_Query mem_env d q = Inr es \<and> (\<forall>e \<in> set es. \<not> is_error_entry e)"
    using mem_query_ok old_key_under by (simp_all add: old_record_def)
  then have "map_of (pb_datastore ?q) old_key = None"
    using dead_record_collected [OF mem_env_laws _ _ _ _ dead _ run] by simp
  ultimately show ?thesis by blast
qed

text \<open>
  The skip list does not close the gap between the look at it and the deletion: a
  collection may delete a provider record that a store has just renewed and reported as stored. Here an
  expired record is renewed after it was checked, and at the end the datastore holds nothing for
  the provider.
\<close>
lemma renewed_record_lost:
  "\<exists>p. races_to mem_env (old_record, [], GcIdle, []) (p, [], GcLoop [], [(old_key, 61 * Hour)]) \<and>
     map_of (pb_datastore p) old_key = None"
proof -
  let ?K = old_key and ?rec = "\<lambda>t. MarshalBinary \<lparr>expiry = t\<rparr>"
  let ?p0 = "gc_erase mem_env old_record"
  let ?t = "\<lparr>st_dsKey = ?K, st_cacheKey = newDatastoreKey mem_env ''providers'' [''k''],
              st_now = 61 * Hour, st_found = False\<rparr>"
  let ?p1 = "snd (store_begin mem_env (61 * Hour) ''k'' \<lparr>ai_ID = ''p'', ai_Addrs = []\<rparr> ?p0)"
  let ?p2 = "?p1\<lparr>pb_datastore := [(?K, ?rec (61 * Hour))]\<rparr>"
  let ?p3 = "?p2\<lparr>pb_datastore := []\<rparr>"
  have 1: "race_step mem_env (old_record, [], GcIdle, []) (?p0, [], GcErased, [])"
    by (rule race_step.erase)
  have "gc_query mem_env ?p0 = GcLoop [(?K, Inr (?rec 0))]"
    using old_key_under by (simp add: gc_query_def gc_erase_def old_record_def mem_query_def AList.clearjunk.simps)
  then have 2: "race_step mem_env (?p0, [], GcErased, []) (?p0, [], GcLoop [(?K, Inr (?rec 0))], [])"
    using race_step.query [of mem_env ?p0 "[]" "[]"] by simp
  have "gc_check ?p0 (61 * Hour) (?K, Inr (?rec 0)) [] = GcDoomed ?K 0 []"
    using Unmarshal_Marshal [of "\<lparr>expiry = 0\<rparr>"]
    by (simp add: gc_erase_def old_record_def unix_nano_ok_def time_Sub_def minDuration_def maxDuration_def
        Hour_def Minute_def)
  then have 3: "race_step mem_env (?p0, [], GcLoop [(?K, Inr (?rec 0))], []) (?p0, [], GcDoomed ?K 0 [], [])"
    using race_step.check [of mem_env ?p0 "[]" "(?K, Inr (?rec 0))" "[]" "[]" "61 * Hour"] by simp
  have mk: "store_begin mem_env (61 * Hour) ''k'' \<lparr>ai_ID = ''p'', ai_Addrs = []\<rparr> ?p0 = (?t, ?p1)"
    by (simp add: store_begin_def Let_def gc_erase_def old_record_def old_key_def)
  have 4: "race_step mem_env (?p0, [], GcDoomed ?K 0 [], []) (?p1, [?t], GcDoomed ?K 0 [], [])"
    by (rule race_step.mark [OF mk])
  have "pb_datastore ?p1 = [(?K, ?rec 0)]"
    using store_begin_keeps [OF mk] by (simp add: gc_erase_def old_record_def)
  then have "store_finish mem_env ?t ?p1 = (None, ?p2)" by (simp add: store_finish_def)
  from race_step.put [OF _ this, of "[?t]" "GcDoomed ?K 0 []" "[]"]
  have 5: "race_step mem_env (?p1, [?t], GcDoomed ?K 0 [], []) (?p2, [], GcDoomed ?K 0 [], [(?K, 61 * Hour)])"
    by simp
  have 6: "race_step mem_env (?p2, [], GcDoomed ?K 0 [], [(?K, 61 * Hour)]) (?p3, [], GcLoop [], [(?K, 61 * Hour)])"
    using race_step.delete [of mem_env ?p2 "[]" ?K 0 "[]" "[(?K, 61 * Hour)]"] by (simp add: pb_delete_def)
  have "races_to mem_env (old_record, [], GcIdle, []) (?p3, [], GcLoop [], [(?K, 61 * Hour)])"
    by (rule steps_trans [OF 1 steps_trans [OF 2 steps_trans [OF 3 steps_trans [OF 4 steps_trans [OF 5
        r_into_rtranclp [where r = "race_step mem_env", OF 6]]]]]])
  moreover have "map_of (pb_datastore ?p3) ?K = None" by simp
  ultimately show ?thesis by blast
qed

end
