(* ===== verification/CacheTypes.thy ===== *)
theory CacheTypes
  imports ProvidersProps
begin

text \<open>
  The provider sets in the cache of the provider backend. A set is a list of providers and a reference to
  a map of times in a heap, because copies of the struct share the map. Over any history of stores, fetches and
  collections every set that is cached or handed out is well formed and no two cached sets share a map.
\<close>

section \<open>Well-formed sets\<close>

definition ps_wf :: "heap \<Rightarrow> 'm providerSet \<Rightarrow> bool" where
  "ps_wf h ps \<longleftrightarrow>
     ps_set ps < length h \<and> ai_ID ` set (providers ps) \<subseteq> dom (map_of (h ! ps_set ps)) \<and>
     distinct (map ai_ID (providers ps))"

definition heap_grows :: "heap \<Rightarrow> heap \<Rightarrow> bool" where
  "heap_grows h h' \<longleftrightarrow>
     length h \<le> length h' \<and> (\<forall>r < length h. dom (map_of (h ! r)) \<subseteq> dom (map_of (h' ! r)))"

lemma heap_grows_refl: "heap_grows h h"
  by (simp add: heap_grows_def)

lemma heap_grows_trans: "heap_grows h h' \<Longrightarrow> heap_grows h' h'' \<Longrightarrow> heap_grows h h''"
  unfolding heap_grows_def by (meson order_trans less_le_trans subset_trans)

lemma heap_grows_snoc: "heap_grows h (h @ [m])"
  by (simp add: heap_grows_def nth_append)

lemma ps_wf_grows: "ps_wf h ps \<Longrightarrow> heap_grows h h' \<Longrightarrow> ps_wf h' ps"
  unfolding ps_wf_def heap_grows_def by (meson less_le_trans subset_trans)

lemma ps_ok_wf: "ps_ok h ps \<Longrightarrow> ps_wf h ps"
  by (simp add: ps_ok_def ps_wf_def)

lemma addProvider_grows: "heap_grows h (fst (addProvider h ps a t))"
proof -
  have "dom (map_of (h ! r)) \<subseteq> dom (map_of (h[i := AList.update k t (h ! i)] ! r))" if "r < length h" for r i k
    using that by (cases "r = i") (auto simp: update_conv')
  then show ?thesis by (simp add: heap_grows_def addProvider_def Let_def)
qed

lemma fetch_loop_grows: "fetch_loop E cfg book now es (d, h, out) = (d', h', out') \<Longrightarrow> heap_grows h h'"
proof (induction es arbitrary: d h out)
  case Nil
  then show ?case by (simp add: heap_grows_refl)
next
  case (Cons e es)
  obtain k r where e: "e = (k, r)" by (cases e)
  show ?case
  proof (cases "\<exists>d1. fetch_loop E cfg book now es (d1, h, out) = (d', h', out')")
    case True
    then show ?thesis using Cons.IH by blast
  next
    case False
    then obtain a t where "fetch_loop E cfg book now es (d, addProvider h out a t) = (d', h', out')"
      using Cons.prems e by (cases r) (auto simp: Let_def split: sum.splits if_splits prod.splits)
    then have "heap_grows (fst (addProvider h out a t)) h'" using Cons.IH by (metis prod.collapse)
    then show ?thesis using addProvider_grows heap_grows_trans by blast
  qed
qed

section \<open>The cache\<close>

definition cache_wf ::
  "('c \<Rightarrow> bytes \<rightharpoonup> 'm providerSet) \<Rightarrow> ('m, 'ds, 'ab, 'c) ProvidersBackend \<Rightarrow> bool" where
  "cache_wf cached p \<longleftrightarrow>
     (\<forall>k ps. cached (pb_cache p) k = Some ps \<longrightarrow> ps_wf (pb_heap p) ps) \<and>
     (\<forall>k k' ps ps'. cached (pb_cache p) k = Some ps \<longrightarrow> cached (pb_cache p) k' = Some ps' \<longrightarrow>
        ps_set ps = ps_set ps' \<longrightarrow> k = k')"

lemma cache_wf_sub:
  assumes "cache_wf cached p" "heap_grows (pb_heap p) h"
    and "\<And>k ps. cached c k = Some ps \<Longrightarrow> cached (pb_cache p) k = Some ps"
  shows "cache_wf cached (p\<lparr>pb_cache := c, pb_heap := h\<rparr>)"
  using assms ps_wf_grows unfolding cache_wf_def by simp blast

lemma cache_wf_same:
  "cache_wf cached p \<Longrightarrow> pb_cache p' = pb_cache p \<Longrightarrow> pb_heap p' = pb_heap p \<Longrightarrow> cache_wf cached p'"
  by (simp add: cache_wf_def)

lemma lru_Remove_sub: "lru_laws E cached \<Longrightarrow> cached (lru_Remove E c k) j = Some v \<Longrightarrow> cached c j = Some v"
  unfolding lru_laws_def by (metis fun_upd_apply option.distinct(1))

lemma lru_Add_sub:
  assumes "lru_laws E cached" "cached (lru_Add E c k v) j = Some w"
  shows "(j = k \<and> w = v) \<or> cached c j = Some w"
proof (cases "j = k")
  case True
  then show ?thesis using assms unfolding lru_laws_def by (metis option.inject)
next
  case False
  then have "cached (lru_Add E c k v) j \<in> {None, cached c j}" using assms(1) unfolding lru_laws_def by blast
  then show ?thesis using assms(2) by simp
qed

lemma pb_Store_cache_wf:
  assumes lru: "lru_laws E cached" and wf: "cache_wf cached p"
  shows "cache_wf cached (snd (pb_Store E now p key v))"
proof (cases v)
  case (AnyAddrInfo a)
  let ?p' = "snd (pb_Store E now p key v)"
  obtain hit c where get: "lru_Get E (pb_cache p) (cache_key E p key) = (hit, c)" by (rule prod.exhaust)
  let ?h = "case hit of Some provs \<Rightarrow> fst (addProvider (pb_heap p) provs a now) | None \<Rightarrow> pb_heap p"
  obtain e d where put: "ds_Put E (pb_datastore p) (ds_key E p key (ai_ID a)) (MarshalBinary \<lparr>expiry = now\<rparr>) = (e, d)"
    by (rule prod.exhaust)
  have c: "cached c = cached (pb_cache p)" using lru_Get_cached(2) [OF lru] get by (metis snd_conv)
  have grows: "heap_grows (pb_heap p) ?h"
    by (simp add: addProvider_grows heap_grows_refl split: option.split)
  let ?c = "if e = None then c else lru_Remove E c (cache_key E p key)"
  have p': "pb_heap ?p' = ?h" "pb_cache ?p' = ?c"
    by (cases hit; cases e; simp add: pb_Store_def AnyAddrInfo Let_def get put)+
  have "cached ?c k = Some ps \<Longrightarrow> cached (pb_cache p) k = Some ps" for k ps
    using lru_Remove_sub [OF lru, of c "cache_key E p key" k ps] c by (cases "e = None") simp_all
  from cache_wf_sub [OF wf grows this] show ?thesis
    by (rule cache_wf_same) (simp_all only: p', simp_all)
qed (use wf in \<open>simp_all add: pb_Store_def\<close>)

text \<open>A new set, with a map of its own, in a cache that keeps or drops the sets it had.\<close>

lemma cache_wf_grown:
  assumes wf: "cache_wf cached p" and grows: "heap_grows (pb_heap p) (pb_heap p')"
    and out: "ps_wf (pb_heap p') out" "ps_set out = length (pb_heap p)"
    and new: "\<And>k ps. cached (pb_cache p') k = Some ps \<Longrightarrow> (k = q \<and> ps = out) \<or> cached (pb_cache p) k = Some ps"
  shows "cache_wf cached p'"
proof -
  have old: "ps_wf (pb_heap p') ps \<and> ps_set ps < length (pb_heap p)" if "cached (pb_cache p) k = Some ps" for k ps
  proof -
    have a: "ps_wf (pb_heap p) ps" using wf that unfolding cache_wf_def by blast
    from ps_wf_grows [OF a grows] a show ?thesis by (simp add: ps_wf_def)
  qed
  show ?thesis
    unfolding cache_wf_def
  proof (intro conjI allI impI)
    show "ps_wf (pb_heap p') ps" if "cached (pb_cache p') k = Some ps" for k ps
      using new [OF that] old out(1) by blast
    show "k = k'" if "cached (pb_cache p') k = Some ps" "cached (pb_cache p') k' = Some ps'"
        "ps_set ps = ps_set ps'" for k k' ps ps'
    proof -
      have "k = k'" if "cached (pb_cache p) k = Some ps" "cached (pb_cache p) k' = Some ps'"
        using wf that \<open>ps_set ps = ps_set ps'\<close> unfolding cache_wf_def by blast
      then show ?thesis
        using new [OF that(1)] new [OF that(2)] old [of k ps] old [of k' ps'] out(2) that(3) by auto
    qed
  qed
qed

lemma pb_Fetch_cache_wf:
  assumes lru: "lru_laws E cached" and wf: "cache_wf cached p"
    and fetch: "pb_Fetch E now p key = (r, p')"
  shows "cache_wf cached p'"
    and "r = Inr v \<Longrightarrow> \<exists>ps. (v = AnyProviderSet ps \<or> v = AnyProviderSetPtr ps) \<and> ps_wf (pb_heap p') ps"
proof -
  let ?q = "cache_key E p key"
  obtain hit c where get: "lru_Get E (pb_cache p) ?q = (hit, c)" by (rule prod.exhaust)
  have c: "cached c = cached (pb_cache p)" and hit: "hit = cached (pb_cache p) ?q"
    using lru_Get_cached [OF lru] get by (metis snd_conv, metis fst_conv)
  have base: "cache_wf cached (p\<lparr>pb_cache := c\<rparr>)" using wf by (simp add: cache_wf_def c)
  have "cache_wf cached p' \<and>
      (\<forall>v. r = Inr v \<longrightarrow> (\<exists>ps. (v = AnyProviderSet ps \<or> v = AnyProviderSetPtr ps) \<and> ps_wf (pb_heap p') ps))"
  proof (cases "hit = None \<and> (\<exists>es. ds_Query E (pb_datastore p) ?q = Inr es)")
    case False
    then consider ps where "hit = Some ps" | err where "hit = None" "ds_Query E (pb_datastore p) ?q = Inl err"
      by (metis not_None_eq obj_sumE)
    then show ?thesis
    proof cases
      case 1
      then have "ps_wf (pb_heap p) ps" using wf hit by (simp add: cache_wf_def)
      moreover have "r = Inr (AnyProviderSet ps)" "p' = p\<lparr>pb_cache := c\<rparr>"
        using fetch by (simp_all add: pb_Fetch_def Let_def get 1)
      ultimately show ?thesis using base by simp
    next
      case 2
      then have "r = Inl err" "p' = p\<lparr>pb_cache := c\<rparr>"
        using fetch by (simp_all add: pb_Fetch_def Let_def get)
      then show ?thesis using base by simp
    qed
  next
    case True
    then obtain es where es: "ds_Query E (pb_datastore p) ?q = Inr es" by blast
    obtain d h out where loop: "fetch_loop E (pb_cfg p) (pb_addrBook p) now es
        (pb_datastore p, pb_heap p @ [[]], \<lparr>providers = [], ps_set = length (pb_heap p)\<rparr>) = (d, h, out)"
      by (rule prod_cases3)
    have out: "ps_wf h out" "ps_set out = length (pb_heap p)"
      using fetch_loop_spec [OF ps_ok_new loop] by (auto intro: ps_ok_wf)
    have grows: "heap_grows (pb_heap p) h"
      using heap_grows_trans [OF heap_grows_snoc fetch_loop_grows [OF loop]] .
    have p': "pb_heap p' = h" "pb_cache p' = (if providers out = [] then c else lru_Add E c ?q out)"
        "r = (if providers out = [] then Inl ErrNotFound else Inr (AnyProviderSetPtr out))"
      using fetch True by (auto simp: pb_Fetch_def Let_def get es loop split: if_splits)
    have "cache_wf cached p'"
    proof (rule cache_wf_grown [OF wf])
      show "heap_grows (pb_heap p) (pb_heap p')" "ps_wf (pb_heap p') out" "ps_set out = length (pb_heap p)"
        using grows out by (simp_all add: p'(1))
      show "(k = ?q \<and> ps = out) \<or> cached (pb_cache p) k = Some ps" if "cached (pb_cache p') k = Some ps" for k ps
        using that lru_Add_sub [OF lru, of c ?q out k ps] c by (cases "providers out = []") (simp_all add: p'(2))
    qed
    then show ?thesis using out(1) by (simp add: p')
  qed
  then show "cache_wf cached p'"
    "r = Inr v \<Longrightarrow> \<exists>ps. (v = AnyProviderSet ps \<or> v = AnyProviderSetPtr ps) \<and> ps_wf (pb_heap p') ps"
    by blast+
qed

lemma collectGarbage_cache_wf:
  assumes "lru_laws E cached"
  shows "cache_wf cached (collectGarbage E skip clk p)"
proof -
  have "pb_cache (collectGarbage E skip clk p) = lru_Purge E (pb_cache p)"
    by (simp add: collectGarbage_def Let_def split: sum.split)
  then show ?thesis using assms by (simp add: cache_wf_def lru_laws_def)
qed

section \<open>Histories\<close>

datatype 'm pb_op = OpStore int bytes "'m any" | OpFetch int bytes | OpCollect "nat \<Rightarrow> bytes set" "nat \<Rightarrow> int"

fun pb_apply ::
  "('m, 'ds, 'tx, 'ab, 'c, 'z) prov_env_scheme \<Rightarrow> 'm pb_op \<Rightarrow> ('m, 'ds, 'ab, 'c) ProvidersBackend
     \<Rightarrow> ('m, 'ds, 'ab, 'c) ProvidersBackend" where
  "pb_apply E (OpStore now key v) p = snd (pb_Store E now p key v)"
| "pb_apply E (OpFetch now key) p = snd (pb_Fetch E now p key)"
| "pb_apply E (OpCollect skip clk) p = collectGarbage E skip clk p"

lemma pb_apply_cache_wf:
  assumes "lru_laws E cached" "cache_wf cached p"
  shows "cache_wf cached (pb_apply E opn p)"
proof (cases opn)
  case (OpFetch now key)
  obtain r p' where "pb_Fetch E now p key = (r, p')" by (rule prod.exhaust)
  then show ?thesis using pb_Fetch_cache_wf(1) [OF assms] by (simp add: OpFetch)
qed (simp_all add: pb_Store_cache_wf [OF assms] collectGarbage_cache_wf [OF assms(1)])

section \<open>Properties\<close>

text \<open>
  C24: Over any history of stores, fetches and collections, starting with an empty cache: every provider
  set in the cache names each provider once, knows the time of each and refers to a map that exists, no two
  cached sets share their map, and a fetch that succeeds returns such a set.
\<close>
theorem provider_sets_well_formed:
  assumes lru: "lru_laws E cached" and start: "\<forall>k. cached (pb_cache p0) k = None"
    and p: "p = fold (pb_apply E) ops p0" and fetch: "pb_Fetch E now p key = (r, p')"
  shows "cache_wf cached p \<and> cache_wf cached p' \<and>
     (\<forall>v. r = Inr v \<longrightarrow> (\<exists>ps. (v = AnyProviderSet ps \<or> v = AnyProviderSetPtr ps) \<and> ps_wf (pb_heap p') ps))"
proof -
  have "cache_wf cached p0" using start by (simp add: cache_wf_def)
  then have "cache_wf cached (fold (pb_apply E) ops p0)"
    by (induction ops arbitrary: p0) (simp_all add: pb_apply_cache_wf [OF lru])
  then have wf: "cache_wf cached p" by (simp add: p)
  show ?thesis using wf pb_Fetch_cache_wf [OF lru wf fetch] by blast
qed

lemma provider_sets_well_formed_witness:
  "cache_wf map_of (fold (pb_apply mem_env)
     [OpStore 0 ''k'' (AnyAddrInfo \<lparr>ai_ID = ''p'', ai_Addrs = []\<rparr>), OpFetch 1 ''k''] mem_pb)"
proof -
  have start: "\<forall>k. map_of (pb_cache mem_pb) k = None" by simp
  obtain r p' where "pb_Fetch mem_env 2 (fold (pb_apply mem_env)
     [OpStore 0 ''k'' (AnyAddrInfo \<lparr>ai_ID = ''p'', ai_Addrs = []\<rparr>), OpFetch 1 ''k''] mem_pb) ''k'' = (r, p')"
    by (rule prod.exhaust)
  from provider_sets_well_formed [OF mem_env_lru start refl this] show ?thesis by blast
qed

end
