(* ===== verification/FetchRace.thy ===== *)
theory FetchRace
  imports GcRace CacheTypes
begin

text \<open>
  \<open>Fetch\<close> of the provider backend under concurrency. A fetch looks into the cache, queries the
  datastore, goes through the snapshot that it got, and caches the set that it built; a store looks into the
  cache, writes to the map of the set that it found there, and goes on as in \<open>GcRace\<close>. Here both are split at these
  points, and any number of fetches and stores and the collection of \<open>GcRace\<close> interleave.

  A map of Go must not be written by two goroutines at once: the runtime ends the program when it sees that. So
  the write of a store to the map of a cached set has a beginning and an end, and beginning a write to a map that
  another goroutine writes is a step to \<open>Crashed\<close>.
\<close>

section \<open>The parts of Fetch and Store\<close>

definition fetch_lookup ::
  "('m, 'ds, 'tx, 'ab, 'c, 'z) prov_env_scheme \<Rightarrow> bytes \<Rightarrow> ('m, 'ds, 'ab, 'c) ProvidersBackend
     \<Rightarrow> 'm providerSet option \<times> ('m, 'ds, 'ab, 'c) ProvidersBackend" where
  "fetch_lookup E q p = (let (hit, cache) = lru_Get E (pb_cache p) q in (hit, p\<lparr>pb_cache := cache\<rparr>))"

definition fetch_start ::
  "('m, 'ds, 'ab, 'c) ProvidersBackend \<Rightarrow> 'm providerSet \<times> ('m, 'ds, 'ab, 'c) ProvidersBackend" where
  "fetch_start p = (\<lparr>providers = [], ps_set = length (pb_heap p)\<rparr>, p\<lparr>pb_heap := pb_heap p @ [[]]\<rparr>)"

definition fetch_entry ::
  "('m, 'ds, 'tx, 'ab, 'c, 'z) prov_env_scheme \<Rightarrow> int \<Rightarrow> entry
     \<Rightarrow> 'm providerSet \<times> ('m, 'ds, 'ab, 'c) ProvidersBackend
     \<Rightarrow> 'm providerSet \<times> ('m, 'ds, 'ab, 'c) ProvidersBackend" where
  "fetch_entry E now e = (\<lambda>(out, p).
     (let (d, h, out') = fetch_loop E (pb_cfg p) (pb_addrBook p) now [e] (pb_datastore p, pb_heap p, out)
      in (out', p\<lparr>pb_datastore := d, pb_heap := h\<rparr>)))"

definition fetch_end ::
  "('m, 'ds, 'tx, 'ab, 'c, 'z) prov_env_scheme \<Rightarrow> bytes \<Rightarrow> 'm providerSet \<Rightarrow> ('m, 'ds, 'ab, 'c) ProvidersBackend
     \<Rightarrow> (goerr + 'm any) \<times> ('m, 'ds, 'ab, 'c) ProvidersBackend" where
  "fetch_end E q out p =
     (if length (providers out) = 0 then (Inl ErrNotFound, p)
      else (Inr (AnyProviderSetPtr out), p\<lparr>pb_cache := lru_Add E (pb_cache p) q out\<rparr>))"

lemma fetch_loop_Cons:
  "fetch_loop E cfg book now (e # es) s = fetch_loop E cfg book now es (fetch_loop E cfg book now [e] s)"
  by (cases e; cases s; cases "snd e") (auto simp: Let_def split: sum.split prod.split)

lemma fetch_entry_eq:
  "fetch_entry E now e (out, p) =
     (case fetch_loop E (pb_cfg p) (pb_addrBook p) now [e] (pb_datastore p, pb_heap p, out) of
        (d, h, out') \<Rightarrow> (out', p\<lparr>pb_datastore := d, pb_heap := h\<rparr>))"
  by (simp add: fetch_entry_def)

lemma fetch_entries:
  "fold (fetch_entry E now) es (out, p) =
     (case fetch_loop E (pb_cfg p) (pb_addrBook p) now es (pb_datastore p, pb_heap p, out) of
        (d, h, out') \<Rightarrow> (out', p\<lparr>pb_datastore := d, pb_heap := h\<rparr>))"
proof (induction es arbitrary: out p)
  case Nil
  then show ?case by simp
next
  case (Cons e es)
  obtain d h out' where one: "fetch_loop E (pb_cfg p) (pb_addrBook p) now [e] (pb_datastore p, pb_heap p, out) = (d, h, out')"
    by (rule prod_cases3)
  then have "fetch_entry E now e (out, p) = (out', p\<lparr>pb_datastore := d, pb_heap := h\<rparr>)"
    by (simp add: fetch_entry_eq)
  then show ?case using one
    by (simp add: Cons fetch_loop_Cons [of E "pb_cfg p" "pb_addrBook p" now e es] split: prod.split)
qed

text \<open>One after the other the parts are \<open>Fetch\<close>.\<close>

lemma pb_Fetch_parts:
  "pb_Fetch E now p key =
     (let q = newDatastoreKey E (pb_namespace p) [key]
      in case fetch_lookup E q p of
           (Some cached, p1) \<Rightarrow> (Inr (AnyProviderSet cached), p1)
         | (None, p1) \<Rightarrow>
             (case ds_Query E (pb_datastore p1) q of
                Inl err \<Rightarrow> (Inl err, p1)
              | Inr es \<Rightarrow> (case fold (fetch_entry E now) es (fetch_start p1) of (out, p2) \<Rightarrow> fetch_end E q out p2)))"
  by (simp add: pb_Fetch_def fetch_lookup_def fetch_start_def fetch_end_def fetch_entries Let_def
      split: prod.split option.split sum.split)

definition store_mark ::
  "('m, 'ds, 'tx, 'ab, 'c, 'z) prov_env_scheme \<Rightarrow> int \<Rightarrow> bytes \<Rightarrow> 'm addr_info \<Rightarrow> 'm providerSet option
     \<Rightarrow> ('m, 'ds, 'ab, 'c) ProvidersBackend \<Rightarrow> pending \<times> ('m, 'ds, 'ab, 'c) ProvidersBackend" where
  "store_mark E now key addrInfo hit p =
     (let cacheKey = newDatastoreKey E (pb_namespace p) [key];
          dsKey = newDatastoreKey E (pb_namespace p) [key, ai_ID addrInfo];
          heap = (case hit of
                    Some provs \<Rightarrow> fst (addProvider (pb_heap p) provs addrInfo now)
                  | None \<Rightarrow> pb_heap p);
          book = ab_AddAddrs E (pb_addrBook p) (ai_ID addrInfo) (AddressFilter (pb_cfg p) (ai_Addrs addrInfo))
                   (AddressTTL (pb_cfg p))
      in (\<lparr>st_dsKey = dsKey, st_cacheKey = cacheKey, st_now = now, st_found = dsKey \<in> pb_gcSkip p\<rparr>,
          p\<lparr>pb_heap := heap, pb_addrBook := book, pb_gcSkip := insert dsKey (pb_gcSkip p)\<rparr>))"

lemma store_begin_parts:
  "store_begin E now key a p =
     (case fetch_lookup E (newDatastoreKey E (pb_namespace p) [key]) p of (hit, p1) \<Rightarrow> store_mark E now key a hit p1)"
  by (auto simp: store_begin_def fetch_lookup_def store_mark_def Let_def split: prod.split option.split)

section \<open>The steps\<close>

text \<open>
  A store after its look into the cache is \<open>Looked\<close>, in the middle of the write to the map of a cached set it is
  \<open>Writing\<close>, and with the key in the skip list it is \<open>Marked\<close>, and pending in the sense of \<open>GcRace\<close>. A fetch that found
  nothing in the cache is \<open>Missed\<close>; in its loop it has the key, the time that it read, the datastore that it
  queried, the entries that are left and the set built so far; in the end it has its result. Keys are those of the cache.
\<close>

datatype 'm storer =
  Looked int bytes "'m addr_info" bytes "'m providerSet option"
| Writing int bytes "'m addr_info" bytes "'m providerSet"
| Marked

datatype ('m, 'ds) fetcher =
  Missed bytes
| Looping bytes int 'ds "entry list" "'m providerSet"
| Answered bytes int 'ds "goerr + 'm any"

datatype map_conflict = StoreStore bytes bytes | FetchStore bytes bytes

datatype ('m, 'ds, 'ab, 'c) conc =
  Running "('m, 'ds, 'ab, 'c) race" "'m storer list" "('m, 'ds) fetcher list"
| Crashed map_conflict

definition writes :: "'m storer list \<Rightarrow> bytes \<Rightarrow> nat \<Rightarrow> bool" where
  "writes ws q r \<longleftrightarrow> (\<exists>now key a ps. Writing now key a q ps \<in> set ws \<and> ps_set ps = r)"

inductive conc_step ::
  "('m, 'ds, 'tx, 'ab, 'c, 'z) prov_env_scheme \<Rightarrow> ('m, 'ds, 'ab, 'c) conc \<Rightarrow> ('m, 'ds, 'ab, 'c) conc \<Rightarrow> bool"
  for E :: "('m, 'ds, 'tx, 'ab, 'c, 'z) prov_env_scheme" where
  other: "race_step E r r' \<Longrightarrow> length (pending r') \<le> length (pending r) \<Longrightarrow>
      conc_step E (Running r ws fs) (Running r' ws fs)"
| store_looks: "q = newDatastoreKey E (pb_namespace p) [key] \<Longrightarrow> fetch_lookup E q p = (hit, p') \<Longrightarrow>
      conc_step E (Running (p, ts, pc, log) ws fs) (Running (p', ts, pc, log) (ws @ [Looked now key a q hit]) fs)"
| store_writes: "i < length ws \<Longrightarrow> ws ! i = Looked now key a q (Some ps) \<Longrightarrow> (\<nexists>q'. writes ws q' (ps_set ps)) \<Longrightarrow>
      conc_step E (Running r ws fs) (Running r (ws[i := Writing now key a q ps]) fs)"
| store_crashes: "i < length ws \<Longrightarrow> ws ! i = Looked now key a q (Some ps) \<Longrightarrow> writes ws q' (ps_set ps) \<Longrightarrow>
      conc_step E (Running r ws fs) (Crashed (StoreStore q q'))"
| store_marks: "i < length ws \<Longrightarrow> ws ! i = Looked now key a q None \<Longrightarrow> store_mark E now key a None p = (t, p') \<Longrightarrow>
      conc_step E (Running (p, ts, pc, log) ws fs) (Running (p', t # ts, pc, log) (ws[i := Marked]) fs)"
| store_written: "i < length ws \<Longrightarrow> ws ! i = Writing now key a q ps \<Longrightarrow> store_mark E now key a (Some ps) p = (t, p') \<Longrightarrow>
      conc_step E (Running (p, ts, pc, log) ws fs) (Running (p', t # ts, pc, log) (ws[i := Marked]) fs)"
| fetch_hits: "q = newDatastoreKey E (pb_namespace p) [key] \<Longrightarrow> fetch_lookup E q p = (Some ps, p') \<Longrightarrow>
      conc_step E (Running (p, ts, pc, log) ws fs) (Running (p', ts, pc, log) ws fs)"
| fetch_misses: "q = newDatastoreKey E (pb_namespace p) [key] \<Longrightarrow> fetch_lookup E q p = (None, p') \<Longrightarrow>
      conc_step E (Running (p, ts, pc, log) ws fs) (Running (p', ts, pc, log) ws (fs @ [Missed q]))"
| fetch_fails: "i < length fs \<Longrightarrow> fs ! i = Missed q \<Longrightarrow> ds_Query E (pb_datastore p) q = Inl err \<Longrightarrow>
      conc_step E (Running (p, ts, pc, log) ws fs)
        (Running (p, ts, pc, log) ws (fs[i := Answered q now (pb_datastore p) (Inl err)]))"
| fetch_queries: "i < length fs \<Longrightarrow> fs ! i = Missed q \<Longrightarrow> ds_Query E (pb_datastore p) q = Inr es \<Longrightarrow>
      fetch_start p = (out, p') \<Longrightarrow>
      conc_step E (Running (p, ts, pc, log) ws fs)
        (Running (p', ts, pc, log) ws (fs[i := Looping q now (pb_datastore p) es out]))"
| fetch_reads: "i < length fs \<Longrightarrow> fs ! i = Looping q now d (e # es) out \<Longrightarrow> (\<nexists>q'. writes ws q' (ps_set out)) \<Longrightarrow>
      fetch_entry E now e (out, p) = (out', p') \<Longrightarrow>
      conc_step E (Running (p, ts, pc, log) ws fs) (Running (p', ts, pc, log) ws (fs[i := Looping q now d es out']))"
| fetch_crashes: "i < length fs \<Longrightarrow> fs ! i = Looping q now d (e # es) out \<Longrightarrow> writes ws q' (ps_set out) \<Longrightarrow>
      conc_step E (Running r ws fs) (Crashed (FetchStore q q'))"
| fetch_ends: "i < length fs \<Longrightarrow> fs ! i = Looping q now d [] out \<Longrightarrow> fetch_end E q out p = (res, p') \<Longrightarrow>
      conc_step E (Running (p, ts, pc, log) ws fs) (Running (p', ts, pc, log) ws (fs[i := Answered q now d res]))"

abbreviation conc_to where "conc_to E \<equiv> (conc_step E)\<^sup>*\<^sup>*"

section \<open>Who may write to which map\<close>

fun ref_of :: "('m, 'ds) fetcher \<Rightarrow> nat option" where
  "ref_of (Looping q now d es out) = Some (ps_set out)"
| "ref_of f = None"

fun held_by :: "'m storer \<Rightarrow> (bytes \<times> nat) option" where
  "held_by (Looked now key a q (Some ps)) = Some (q, ps_set ps)"
| "held_by (Writing now key a q ps) = Some (q, ps_set ps)"
| "held_by w = None"

text \<open>The maps of cached sets, and those that stores got from the cache, with the keys they were cached under.\<close>

definition shared ::
  "('c \<Rightarrow> bytes \<rightharpoonup> 'm providerSet) \<Rightarrow> 'c \<Rightarrow> 'm storer list \<Rightarrow> (bytes \<times> nat) set" where
  "shared cached c ws =
     {(q, r). (\<exists>ps. cached c q = Some ps \<and> ps_set ps = r) \<or> (\<exists>w \<in> set ws. held_by w = Some (q, r))}"

text \<open>
  A shared map is shared under one key only and belongs to no fetch in its loop; each of those has one of its own.
\<close>

definition owned :: "nat \<Rightarrow> (bytes \<times> nat) set \<Rightarrow> ('m, 'ds) fetcher list \<Rightarrow> bool" where
  "owned n S fs \<longleftrightarrow>
     (\<forall>q r. (q, r) \<in> S \<longrightarrow> r < n \<and> (\<forall>q'. (q', r) \<in> S \<longrightarrow> q' = q) \<and> Some r \<notin> ref_of ` set fs) \<and>
     (\<forall>i j r. i < length fs \<longrightarrow> j < length fs \<longrightarrow> ref_of (fs ! i) = Some r \<longrightarrow>
        r < n \<and> (ref_of (fs ! j) = Some r \<longrightarrow> i = j))"

lemma ownedD:
  assumes "owned n S fs"
  shows "(q, r) \<in> S \<Longrightarrow> (q', r) \<in> S \<Longrightarrow> q' = q"
    and "(q, r) \<in> S \<Longrightarrow> f \<in> set fs \<Longrightarrow> ref_of f \<noteq> Some r"
    and "f \<in> set fs \<Longrightarrow> ref_of f = Some r \<Longrightarrow> r < n"
    and "i < length fs \<Longrightarrow> j < length fs \<Longrightarrow> ref_of (fs ! i) = Some r \<Longrightarrow> ref_of (fs ! j) = Some r \<Longrightarrow> i = j"
proof -
  show "(q, r) \<in> S \<Longrightarrow> (q', r) \<in> S \<Longrightarrow> q' = q" using assms unfolding owned_def by blast
  show "(q, r) \<in> S \<Longrightarrow> f \<in> set fs \<Longrightarrow> ref_of f \<noteq> Some r" using assms unfolding owned_def by (metis image_eqI)
  show "f \<in> set fs \<Longrightarrow> ref_of f = Some r \<Longrightarrow> r < n" using assms unfolding owned_def by (metis in_set_conv_nth)
  show "i < length fs \<Longrightarrow> j < length fs \<Longrightarrow> ref_of (fs ! i) = Some r \<Longrightarrow> ref_of (fs ! j) = Some r \<Longrightarrow> i = j"
    using assms unfolding owned_def by blast
qed

lemma owned_shared: "owned n S fs \<Longrightarrow> S' \<subseteq> S \<Longrightarrow> owned n S' fs"
  unfolding owned_def by blast

lemma ref_of_updated: "Some r \<in> ref_of ` set (fs[i := f]) \<Longrightarrow> ref_of f = Some r \<or> Some r \<in> ref_of ` set fs"
  using set_update_subset_insert [of fs i f] by (auto simp: image_iff)

lemma owned_update:
  assumes "owned n S fs" "ref_of f = None \<or> i < length fs \<and> ref_of f = ref_of (fs ! i)"
  shows "owned n S (fs[i := f])"
proof -
  have "Some r \<in> ref_of ` set fs" if "Some r \<in> ref_of ` set (fs[i := f])" for r
    using ref_of_updated [OF that] assms(2) by (metis image_eqI nth_mem option.distinct(1))
  moreover have "ref_of (fs[i := f] ! j) = Some r \<Longrightarrow> j < length fs \<Longrightarrow> ref_of (fs ! j) = Some r" for j r
    using assms(2) by (cases "j = i") auto
  ultimately show ?thesis using assms(1) unfolding owned_def by (metis length_list_update)
qed

lemma owned_snoc: "owned n S fs \<Longrightarrow> ref_of f = None \<Longrightarrow> owned n S (fs @ [f])"
  unfolding owned_def by (auto simp: nth_append)

lemma owned_new:
  assumes own: "owned n S fs" and f: "ref_of f = Some n" and i: "i < length fs"
  shows "owned (Suc n) S (fs[i := f])"
proof -
  have "r < Suc n \<and> (\<forall>q'. (q', r) \<in> S \<longrightarrow> q' = q) \<and> Some r \<notin> ref_of ` set (fs[i := f])" if "(q, r) \<in> S" for q r
  proof -
    have r: "r < n" "\<forall>q'. (q', r) \<in> S \<longrightarrow> q' = q" "Some r \<notin> ref_of ` set fs"
      using own that unfolding owned_def by blast+
    then have "Some r \<notin> ref_of ` set (fs[i := f])" using ref_of_updated [of r fs i f] f by auto
    with r show ?thesis by simp
  qed
  moreover have "r < Suc n \<and> (ref_of (fs[i := f] ! k) = Some r \<longrightarrow> j = k)"
    if jk: "j < length fs" "k < length fs" and r: "ref_of (fs[i := f] ! j) = Some r" for j k r
  proof -
    have old: "r < n" if "ref_of (fs ! j) = Some r" "j < length fs" for j r
      using own that unfolding owned_def by blast
    have once: "ref_of (fs ! j) = Some r \<Longrightarrow> ref_of (fs ! k) = Some r \<Longrightarrow> j = k"
      using own jk unfolding owned_def by blast
    show ?thesis
      using r f i jk old [of j r] old [of k r] once by (cases "j = i"; cases "k = i") auto
  qed
  ultimately show ?thesis unfolding owned_def by simp
qed

text \<open>The set of a fetch gets shared when the fetch ends.\<close>

lemma owned_publish:
  assumes "owned n S fs" "i < length fs" "ref_of (fs ! i) = Some r" "ref_of f = None" "S' \<subseteq> insert (q, r) S"
  shows "owned n S' (fs[i := f])"
proof -
  have gone: "Some r \<notin> ref_of ` set (fs[i := f])"
  proof
    assume "Some r \<in> ref_of ` set (fs[i := f])"
    then obtain j where "j < length fs" "ref_of (fs[i := f] ! j) = Some r"
      by (metis imageE in_set_conv_nth length_list_update)
    moreover from this have "j \<noteq> i" using assms(2,4) by auto
    ultimately show False using assms(1,2,3) unfolding owned_def by (metis nth_list_update_neq)
  qed
  have new: "(q', r) \<notin> S" for q'
    using assms(1,2,3) unfolding owned_def by (metis image_eqI nth_mem)
  have n: "r < n" using assms(1,2,3) unfolding owned_def by blast
  have "owned n S (fs[i := f])" using owned_update assms(1,4) by blast
  then have "owned n (insert (q, r) S) (fs[i := f])" using gone new n unfolding owned_def by simp
  then show ?thesis using owned_shared assms(5) by blast
qed

section \<open>What a fetch answers\<close>

text \<open>
  The answer of a fetch on the datastore \<open>d\<close> at the time \<open>now\<close>: the providers of the live records that the query
  returns, each once.
\<close>

definition fetch_answers ::
  "('m, 'ds, 'tx, 'ab, 'c, 'z) prov_env_scheme \<Rightarrow> int \<Rightarrow> bytes \<Rightarrow> int \<Rightarrow> 'ds \<Rightarrow> goerr + 'm any \<Rightarrow> bool" where
  "fetch_answers E validity q now d res \<longleftrightarrow>
     (case ds_Query E d q of
        Inl err \<Rightarrow> res = Inl err
      | Inr es \<Rightarrow>
          if live_ids E validity now es = [] then res = Inl ErrNotFound
          else \<exists>ps. res = Inr (AnyProviderSetPtr ps) \<and>
                 map ai_ID (providers ps) = fresh_ids {} (live_ids E validity now es))"

fun fetcher_ok ::
  "('m, 'ds, 'tx, 'ab, 'c, 'z) prov_env_scheme \<Rightarrow> int \<Rightarrow> heap \<Rightarrow> ('m, 'ds) fetcher \<Rightarrow> bool" where
  "fetcher_ok E validity h (Missed q) = True"
| "fetcher_ok E validity h (Looping q now d es out) \<longleftrightarrow>
     ps_ok h out \<and>
     (\<exists>seen. ds_Query E d q = Inr (seen @ es) \<and>
        map ai_ID (providers out) = fresh_ids {} (live_ids E validity now seen))"
| "fetcher_ok E validity h (Answered q now d res) \<longleftrightarrow> fetch_answers E validity q now d res"

lemma fetcher_ok_frame:
  assumes "fetcher_ok E validity h f" "length h \<le> length h'" "\<And>r. ref_of f = Some r \<Longrightarrow> h' ! r = h ! r"
  shows "fetcher_ok E validity h' f"
  using assms by (cases f) (auto simp: ps_ok_def)

lemma fresh_ids_empty: "fresh_ids seen xs = [] \<longleftrightarrow> set xs \<subseteq> seen"
  using set_fresh_ids [of seen xs] by (metis Diff_eq_empty_iff set_empty)

lemma fresh_ids_snoc:
  "fresh_ids seen (xs @ [x]) = fresh_ids seen xs @ (if x \<in> seen \<union> set xs then [] else [x])"
  by (induction seen xs rule: fresh_ids.induct) (auto simp: insert_commute)

lemma live_ids_append: "live_ids E v now (xs @ ys) = live_ids E v now xs @ live_ids E v now ys"
  by (induction xs) (simp_all split: option.split)

lemma fetch_loop_one_frame:
  assumes "fetch_loop E cfg book now [e] (d, h, out) = (d', h', out')"
  shows "length h' = length h \<and> (\<forall>r. r \<noteq> ps_set out \<longrightarrow> h' ! r = h ! r)"
proof -
  have "h' = h \<or> (\<exists>a t. h' = fst (addProvider h out a t))"
    using assms by (cases e; cases "snd e") (auto simp: Let_def split: sum.splits if_splits prod.splits, metis fst_conv)
  then show ?thesis using addProvider_frame by metis
qed

lemma fetch_entry_frame:
  assumes "fetch_entry E now e (out, p) = (out', p')"
  shows "length (pb_heap p') = length (pb_heap p)" "r \<noteq> ps_set out \<Longrightarrow> pb_heap p' ! r = pb_heap p ! r"
    "pb_cache p' = pb_cache p" "pb_cfg p' = pb_cfg p"
proof -
  obtain d h out2 where loop:
      "fetch_loop E (pb_cfg p) (pb_addrBook p) now [e] (pb_datastore p, pb_heap p, out) = (d, h, out2)"
    by (rule prod_cases3)
  then have "p' = p\<lparr>pb_datastore := d, pb_heap := h\<rparr>" using assms by (simp add: fetch_entry_eq)
  then show "length (pb_heap p') = length (pb_heap p)" "r \<noteq> ps_set out \<Longrightarrow> pb_heap p' ! r = pb_heap p ! r"
    "pb_cache p' = pb_cache p" "pb_cfg p' = pb_cfg p"
    using fetch_loop_one_frame [OF loop] by simp_all
qed

lemma fetch_entry_ok:
  assumes ok: "fetcher_ok E (ProvideValidity (pb_cfg p)) (pb_heap p) (Looping q now d (e # es) out)"
    and entry: "fetch_entry E now e (out, p) = (out', p')"
  shows "fetcher_ok E (ProvideValidity (pb_cfg p)) (pb_heap p') (Looping q now d es out')" "ps_set out' = ps_set out"
proof -
  let ?v = "ProvideValidity (pb_cfg p)"
  obtain d2 h where loop:
      "fetch_loop E (pb_cfg p) (pb_addrBook p) now [e] (pb_datastore p, pb_heap p, out) = (d2, h, out')"
    and p': "p' = p\<lparr>pb_datastore := d2, pb_heap := h\<rparr>"
    using entry by (auto simp: fetch_entry_eq split: prod.splits)
  from ok obtain seen where ps: "ps_ok (pb_heap p) out" and query: "ds_Query E d q = Inr ((seen @ [e]) @ es)"
    and ids: "map ai_ID (providers out) = fresh_ids {} (live_ids E ?v now seen)"
    by auto
  note spec = fetch_loop_spec [OF ps loop]
  have "ai_ID ` set (providers out) = set (live_ids E ?v now seen)"
    unfolding set_map [symmetric] ids set_fresh_ids by simp
  then have "map ai_ID (providers out') = fresh_ids {} (live_ids E ?v now (seen @ [e]))"
    using spec ids by (simp add: live_ids_append fresh_ids_snoc comp_def split: option.split)
  with spec query show "fetcher_ok E ?v (pb_heap p') (Looping q now d es out')" by (auto simp: p')
  show "ps_set out' = ps_set out" using spec by simp
qed

lemma fetch_end_ok:
  assumes "fetcher_ok E validity h (Looping q now d [] out)" "fetch_end E q out p = (res, p')"
  shows "fetcher_ok E validity h' (Answered q now d res)"
proof -
  from assms(1) obtain es where "ds_Query E d q = Inr es"
    and "map ai_ID (providers out) = fresh_ids {} (live_ids E validity now es)"
    by auto
  moreover from this have "providers out = [] \<longleftrightarrow> live_ids E validity now es = []"
    by (metis fresh_ids_empty map_is_Nil_conv set_empty subset_empty)
  ultimately show ?thesis
    using assms(2) by (auto simp: fetch_answers_def fetch_end_def split: if_splits)
qed

section \<open>The invariant\<close>

definition conc_ok ::
  "('m, 'ds, 'tx, 'ab, 'c, 'z) prov_env_scheme \<Rightarrow> ('c \<Rightarrow> bytes \<rightharpoonup> 'm providerSet) \<Rightarrow> int
     \<Rightarrow> ('m, 'ds, 'ab, 'c) conc \<Rightarrow> bool" where
  "conc_ok E cached validity s \<longleftrightarrow>
     (case s of
        Crashed c \<Rightarrow> \<exists>q. c = StoreStore q q
      | Running (p, ts, pc, log) ws fs \<Rightarrow>
          ProvideValidity (pb_cfg p) = validity \<and>
          owned (length (pb_heap p)) (shared cached (pb_cache p) ws) fs \<and>
          (\<forall>f \<in> set fs. fetcher_ok E validity (pb_heap p) f))"

lemma conc_okI:
  assumes "ProvideValidity (pb_cfg p) = validity"
    and "owned (length (pb_heap p)) (shared cached (pb_cache p) ws) fs"
    and "\<And>f. f \<in> set fs \<Longrightarrow> fetcher_ok E validity (pb_heap p) f"
  shows "conc_ok E cached validity (Running (p, ts, pc, log) ws fs)"
  using assms by (simp add: conc_ok_def)

lemma conc_okD:
  assumes "conc_ok E cached validity (Running (p, ts, pc, log) ws fs)"
  shows "ProvideValidity (pb_cfg p) = validity"
    and "owned (length (pb_heap p)) (shared cached (pb_cache p) ws) fs"
    and "f \<in> set fs \<Longrightarrow> fetcher_ok E validity (pb_heap p) f"
  using assms by (simp_all add: conc_ok_def)

lemma fetch_lookup_eq:
  assumes "lru_laws E cached" "fetch_lookup E q p = (hit, p')"
  obtains c where "p' = p\<lparr>pb_cache := c\<rparr>" "cached c = cached (pb_cache p)" "hit = cached (pb_cache p) q"
  using assms(2) lru_Get_cached [OF assms(1), of "pb_cache p" q] that
  by (auto simp: fetch_lookup_def split: prod.splits)

lemma set_update_cases: "f \<in> set (xs[i := x]) \<Longrightarrow> f = x \<or> f \<in> set xs"
  using set_update_subset_insert [of xs i x] by blast

lemma shared_mono:
  assumes "\<And>q ps. cached c' q = Some ps \<Longrightarrow> cached c q = Some ps"
    and "\<And>w x. w \<in> set ws' \<Longrightarrow> held_by w = Some x \<Longrightarrow> x \<in> shared cached c ws"
  shows "shared cached c' ws' \<subseteq> shared cached c ws"
proof -
  have "(q, r) \<in> shared cached c ws" if "(q, r) \<in> shared cached c' ws'" for q r
    using that assms(1) [of q] assms(2) [of _ "(q, r)"] by (auto simp: shared_def)
  then show ?thesis by auto
qed

lemma held_shared: "w \<in> set ws \<Longrightarrow> held_by w = Some x \<Longrightarrow> x \<in> shared cached c ws"
  by (cases x) (auto simp: shared_def)

lemma writes_shared: "writes ws q r \<Longrightarrow> (q, r) \<in> shared cached c ws"
  unfolding writes_def using held_shared by force

section \<open>Every step keeps the invariant\<close>

text \<open>A step that writes at most to a shared map, and shares no more maps than before.\<close>

lemma conc_ok_shared_write:
  assumes ok: "conc_ok E cached validity (Running (p, ts, pc, log) ws fs)"
    and cfg: "pb_cfg p' = pb_cfg p"
    and sub: "shared cached (pb_cache p') ws' \<subseteq> shared cached (pb_cache p) ws"
    and len: "length (pb_heap p') = length (pb_heap p)"
    and heap: "\<And>r. pb_heap p' ! r = pb_heap p ! r \<or> (\<exists>q. (q, r) \<in> shared cached (pb_cache p) ws)"
  shows "conc_ok E cached validity (Running (p', ts', pc', log') ws' fs)"
proof (rule conc_okI)
  show "ProvideValidity (pb_cfg p') = validity" using conc_okD(1) [OF ok] cfg by simp
  show "owned (length (pb_heap p')) (shared cached (pb_cache p') ws') fs"
    using owned_shared [OF conc_okD(2) [OF ok] sub] len by simp
  show "fetcher_ok E validity (pb_heap p') f" if f: "f \<in> set fs" for f
  proof (rule fetcher_ok_frame [OF conc_okD(3) [OF ok f]])
    show "pb_heap p' ! r = pb_heap p ! r" if "ref_of f = Some r" for r
      using heap [of r] ownedD(2) [OF conc_okD(2) [OF ok] _ f] that by blast
  qed (simp add: len)
qed

lemma store_finish_frame:
  assumes "lru_laws E cached" "store_finish E t p = (e, p')"
  shows "pb_cfg p' = pb_cfg p \<and> pb_heap p' = pb_heap p \<and>
    (\<forall>q ps. cached (pb_cache p') q = Some ps \<longrightarrow> cached (pb_cache p) q = Some ps)"
proof -
  obtain e1 d where put: "ds_Put E (pb_datastore p) (st_dsKey t) (MarshalBinary \<lparr>expiry = st_now t\<rparr>) = (e1, d)"
    by (rule prod.exhaust)
  show ?thesis
  proof (cases e1)
    case None
    then show ?thesis using assms(2) put by (auto simp: store_finish_def)
  next
    case (Some err)
    then have "pb_cfg p' = pb_cfg p" "pb_heap p' = pb_heap p" "pb_cache p' = lru_Remove E (pb_cache p) (st_cacheKey t)"
      using assms(2) put by (auto simp: store_finish_def)
    then show ?thesis using lru_Remove_sub [OF assms(1), of "pb_cache p" "st_cacheKey t"] by metis
  qed
qed

lemma race_step_frame:
  assumes lru: "lru_laws E cached" and step: "race_step E (p, ts, pc, log) (p', ts', pc', log')"
    and quiet: "length ts' \<le> length ts"
  shows "pb_cfg p' = pb_cfg p \<and> pb_heap p' = pb_heap p \<and>
    (\<forall>q ps. cached (pb_cache p') q = Some ps \<longrightarrow> cached (pb_cache p) q = Some ps)"
  using step
proof (cases rule: race_step.cases)
  case (mark now key a t)
  then show ?thesis using quiet by simp
next
  case (put t e)
  then show ?thesis using store_finish_frame [OF lru] by blast
next
  case erase
  then show ?thesis using lru by (simp add: gc_erase_def lru_laws_def)
qed simp_all

lemma race_step_conc_ok:
  assumes lru: "lru_laws E cached" and ok: "conc_ok E cached validity (Running r ws fs)"
    and step: "race_step E r r'" and quiet: "length (pending r') \<le> length (pending r)"
  shows "conc_ok E cached validity (Running r' ws fs)"
proof -
  obtain p ts pc log where r: "r = (p, ts, pc, log)" by (cases r)
  obtain p' ts' pc' log' where r': "r' = (p', ts', pc', log')" by (cases r')
  have frame: "pb_cfg p' = pb_cfg p" "pb_heap p' = pb_heap p"
      "\<And>q ps. cached (pb_cache p') q = Some ps \<Longrightarrow> cached (pb_cache p) q = Some ps"
    using race_step_frame [OF lru, of p ts pc log p' ts' pc' log'] step quiet by (simp_all add: r r')
  show ?thesis
    unfolding r'
  proof (rule conc_ok_shared_write [OF ok [unfolded r] frame(1)])
    show "shared cached (pb_cache p') ws \<subseteq> shared cached (pb_cache p) ws"
      using frame(3) held_shared by (rule shared_mono)
  qed (simp_all add: frame(2))
qed

lemma store_mark_frame:
  assumes "store_mark E now key a hit p = (t, p')"
  shows "pb_cfg p' = pb_cfg p" "pb_cache p' = pb_cache p" "length (pb_heap p') = length (pb_heap p)"
    "pb_heap p' ! r = pb_heap p ! r \<or> (\<exists>ps. hit = Some ps \<and> r = ps_set ps)"
  using assms addProvider_frame(2) addProvider_frame(3) [of r _ "pb_heap p" a now]
  by (auto simp: store_mark_def Let_def split: option.splits)

lemma store_mark_conc_ok:
  assumes ok: "conc_ok E cached validity (Running (p, ts, pc, log) ws fs)"
    and i: "i < length ws" "\<And>ps. hit = Some ps \<Longrightarrow> held_by (ws ! i) = Some (q, ps_set ps)"
    and mark: "store_mark E now key a hit p = (t, p')"
  shows "conc_ok E cached validity (Running (p', t # ts, pc, log) (ws[i := Marked]) fs)"
proof (rule conc_ok_shared_write [OF ok])
  show "shared cached (pb_cache p') (ws[i := Marked]) \<subseteq> shared cached (pb_cache p) ws"
    by (rule shared_mono) (use store_mark_frame(2) [OF mark] in \<open>auto dest!: set_update_cases intro: held_shared\<close>)
  show "pb_heap p' ! r = pb_heap p ! r \<or> (\<exists>q. (q, r) \<in> shared cached (pb_cache p) ws)" for r
    using store_mark_frame(4) [OF mark, of r] i held_shared [OF nth_mem [OF i(1)]] by metis
qed (rule store_mark_frame [OF mark])+

text \<open>A look into the cache, after which one more store holds what it found, or one more fetch runs.\<close>

lemma lookup_conc_ok:
  assumes lru: "lru_laws E cached" and ok: "conc_ok E cached validity (Running (p, ts, pc, log) ws fs)"
    and look: "fetch_lookup E q p = (hit, p')"
    and ws: "ws' = ws \<or> ws' = ws @ [Looked now key a q hit]" and fs: "fs' = fs \<or> fs' = fs @ [Missed q]"
  shows "conc_ok E cached validity (Running (p', ts, pc, log) ws' fs')"
proof -
  obtain c where p': "p' = p\<lparr>pb_cache := c\<rparr>" and c: "cached c = cached (pb_cache p)" and hit: "hit = cached (pb_cache p) q"
    using lru look by (rule fetch_lookup_eq)
  note old = conc_okD [OF ok]
  have "shared cached c ws' \<subseteq> shared cached (pb_cache p) ws"
  proof (rule shared_mono)
    show "x \<in> shared cached (pb_cache p) ws" if w: "w \<in> set ws'" "held_by w = Some x" for w x
    proof (cases "w \<in> set ws")
      case True
      then show ?thesis using w(2) by (rule held_shared)
    next
      case False
      then have "held_by (Looked now key a q hit) = Some x" using ws w by auto
      then obtain ps where "hit = Some ps" "x = (q, ps_set ps)" by (cases hit) auto
      then show ?thesis using hit by (simp add: shared_def)
    qed
  qed (simp add: c)
  from owned_shared [OF old(2) this] have "owned (length (pb_heap p)) (shared cached c ws') fs'"
    using fs owned_snoc [of _ _ fs "Missed q"] by auto
  then show ?thesis using old(1,3) fs by (intro conc_okI) (auto simp: p')
qed

lemma queries_conc_ok:
  assumes ok: "conc_ok E cached validity (Running (p, ts, pc, log) ws fs)" and i: "i < length fs"
    and es: "ds_Query E d q = Inr es" and start: "fetch_start p = (out, p')"
  shows "conc_ok E cached validity (Running (p', ts, pc, log) ws (fs[i := Looping q now d es out]))"
proof -
  note old = conc_okD [OF ok]
  have out: "out = \<lparr>providers = [], ps_set = length (pb_heap p)\<rparr>" and p': "p' = p\<lparr>pb_heap := pb_heap p @ [[]]\<rparr>"
    using start by (simp_all add: fetch_start_def)
  have new: "fetcher_ok E validity (pb_heap p @ [[]]) (Looping q now d es out)"
    using ps_ok_new [of "pb_heap p"] es by (simp add: out)
  have kept: "fetcher_ok E validity (pb_heap p @ [[]]) f" if "f \<in> set fs" for f
  proof (rule fetcher_ok_frame [OF old(3) [OF that]])
    show "(pb_heap p @ [[]]) ! r = pb_heap p ! r" if "ref_of f = Some r" for r
    proof -
      have "r < length (pb_heap p)"
        using ownedD(3) [OF old(2)] \<open>f \<in> set fs\<close> that .
      then show ?thesis by (simp add: nth_append)
    qed
  qed simp
  show ?thesis
  proof (rule conc_okI)
    show "owned (length (pb_heap p')) (shared cached (pb_cache p') ws) (fs[i := Looping q now d es out])"
      using owned_new [OF old(2) _ i, of "Looping q now d es out"] by (simp add: p' out)
    show "fetcher_ok E validity (pb_heap p') f" if "f \<in> set (fs[i := Looping q now d es out])" for f
      using set_update_cases [OF that] new kept by (auto simp: p')
  qed (simp add: old(1) p')
qed

lemma reads_conc_ok:
  assumes ok: "conc_ok E cached validity (Running (p, ts, pc, log) ws fs)"
    and i: "i < length fs" "fs ! i = Looping q now d (e # es) out"
    and entry: "fetch_entry E now e (out, p) = (out', p')"
  shows "conc_ok E cached validity (Running (p', ts, pc, log) ws (fs[i := Looping q now d es out']))"
proof -
  note old = conc_okD [OF ok]
  have "fetcher_ok E (pb_validity p) (pb_heap p) (Looping q now d (e # es) out)"
    using old(3) [OF nth_mem [OF i(1)], unfolded i(2)] unfolding old(1) .
  note new = fetch_entry_ok [OF this entry]
  note frame = fetch_entry_frame [OF entry]
  let ?f = "Looping q now d es out'"
  have ref: "ref_of (fs ! i) = Some (ps_set out)" using i(2) by simp
  have own: "owned (length (pb_heap p)) (shared cached (pb_cache p) ws) (fs[i := ?f])"
    using owned_update [OF old(2), of ?f i] i(1) ref new(2) by simp
  have kept: "fetcher_ok E validity (pb_heap p') f" if j: "j < length fs" "fs ! j = f" "j \<noteq> i" for f j
  proof (rule fetcher_ok_frame)
    show "fetcher_ok E validity (pb_heap p) f" using old(3) [OF nth_mem [OF j(1)]] unfolding j(2) .
    show "pb_heap p' ! r = pb_heap p ! r" if "ref_of f = Some r" for r
    proof (rule frame(2))
      have "ref_of (fs ! j) = Some r" using that j(2) by simp
      then show "r \<noteq> ps_set out" using ownedD(4) [OF old(2) j(1) i(1), of r] ref j(3) by auto
    qed
  qed (simp add: frame(1))
  have "fetcher_ok E validity (pb_heap p') f" if "f \<in> set (fs[i := ?f])" for f
  proof -
    from that obtain j where j: "j < length fs" "fs[i := ?f] ! j = f"
      by (auto simp: in_set_conv_nth)
    show ?thesis
    proof (cases "j = i")
      case True
      then have "f = ?f" using j i(1) by simp
      then show ?thesis using new(1) unfolding old(1) by simp
    next
      case False
      have "fs ! j = f" using j(2) False by simp
      from kept [OF j(1) this False] show ?thesis .
    qed
  qed
  moreover have "owned (length (pb_heap p')) (shared cached (pb_cache p') ws) (fs[i := ?f])"
    using own frame(1,3) by simp
  moreover have "ProvideValidity (pb_cfg p') = validity" using old(1) frame(4) by simp
  ultimately show ?thesis by (intro conc_okI)
qed

lemma ends_conc_ok:
  assumes lru: "lru_laws E cached" and ok: "conc_ok E cached validity (Running (p, ts, pc, log) ws fs)"
    and i: "i < length fs" "fs ! i = Looping q now d [] out"
    and fend: "fetch_end E q out p = (res, p')"
  shows "conc_ok E cached validity (Running (p', ts, pc, log) ws (fs[i := Answered q now d res]))"
proof -
  note old = conc_okD [OF ok]
  have p': "pb_heap p' = pb_heap p" "pb_cfg p' = pb_cfg p" "pb_cache p' \<in> {pb_cache p, lru_Add E (pb_cache p) q out}"
    using fend by (auto simp: fetch_end_def split: if_splits)
  have "shared cached (pb_cache p') ws \<subseteq> insert (q, ps_set out) (shared cached (pb_cache p) ws)"
  proof -
    have "(q', r) \<in> insert (q, ps_set out) (shared cached (pb_cache p) ws)"
      if "(q', r) \<in> shared cached (pb_cache p') ws" for q' r
    proof -
      from that consider w where "w \<in> set ws" "held_by w = Some (q', r)"
        | ps where "cached (pb_cache p') q' = Some ps" "r = ps_set ps"
        unfolding shared_def by blast
      then show ?thesis
      proof cases
        case 1
        then show ?thesis by (intro insertI2 held_shared)
      next
        case 2
        then have "q' = q \<and> ps = out \<or> cached (pb_cache p) q' = Some ps"
          using p'(3) lru_Add_sub [OF lru, of "pb_cache p" q out q' ps] by auto
        then show ?thesis using 2(2) by (auto simp: shared_def)
      qed
    qed
    then show ?thesis by auto
  qed
  then have own: "owned (length (pb_heap p')) (shared cached (pb_cache p') ws) (fs[i := Answered q now d res])"
    using owned_publish [OF old(2) i(1), of "ps_set out" "Answered q now d res"] i(2) by (simp add: p'(1))
  have new: "fetcher_ok E validity (pb_heap p) (Answered q now d res)"
    using fetch_end_ok [OF _ fend] old(3) [OF nth_mem [OF i(1)]] i(2) by metis
  have ok': "fetcher_ok E validity (pb_heap p') f" if "f \<in> set (fs[i := Answered q now d res])" for f
    using set_update_cases [OF that] new old(3) p'(1) by auto
  show ?thesis by (rule conc_okI [OF _ own ok']) (simp add: old(1) p'(2))
qed

lemma conc_step_ok:
  assumes lru: "lru_laws E cached" and ok: "conc_ok E cached validity s" and step: "conc_step E s s'"
  shows "conc_ok E cached validity s'"
  using step
proof (cases rule: conc_step.cases)
  case (other r r' ws fs)
  then show ?thesis using race_step_conc_ok [OF lru, of validity r ws fs r'] ok by simp
next
  case (store_looks q p key hit p' ts pc log ws fs now a)
  then show ?thesis using lookup_conc_ok [OF lru, of validity p ts pc log ws fs q hit p'] ok by simp
next
  case (store_writes i ws now key a q ps r fs)
  obtain p ts pc log where r: "r = (p, ts, pc, log)" by (cases r)
  note ok' = ok [unfolded store_writes(1) r]
  have "shared cached (pb_cache p) (ws[i := Writing now key a q ps]) \<subseteq> shared cached (pb_cache p) ws"
  proof (rule shared_mono)
    fix w x assume "w \<in> set (ws[i := Writing now key a q ps])" "held_by w = Some x"
    moreover from this have "w = Writing now key a q ps \<or> w \<in> set ws" using set_update_cases by metis
    moreover have "(q, ps_set ps) \<in> shared cached (pb_cache p) ws"
      by (rule held_shared [OF nth_mem [OF store_writes(3)]]) (simp add: store_writes(4))
    ultimately show "x \<in> shared cached (pb_cache p) ws" using held_shared [of w ws x cached "pb_cache p"] by auto
  qed simp
  then show ?thesis unfolding store_writes(2) r by (rule conc_ok_shared_write [OF ok' refl]) simp_all
next
  case (store_crashes i ws now key a q ps q' r fs)
  obtain p ts pc log where r: "r = (p, ts, pc, log)" by (cases r)
  note own = conc_okD(2) [OF ok [unfolded store_crashes(1) r]]
  have "(q, ps_set ps) \<in> shared cached (pb_cache p) ws"
    by (rule held_shared [OF nth_mem [OF store_crashes(3)]]) (simp add: store_crashes(4))
  with own have "q' = q" using writes_shared [OF store_crashes(5), of cached "pb_cache p"] by (rule ownedD(1))
  then show ?thesis by (simp add: store_crashes(2) conc_ok_def)
next
  case (store_marks i ws now key a q p t p' ts pc log fs)
  then show ?thesis using store_mark_conc_ok [of E cached validity p ts pc log ws fs i None] ok by simp
next
  case (store_written i ws now key a q ps p t p' ts pc log fs)
  then show ?thesis using store_mark_conc_ok [of E cached validity p ts pc log ws fs i "Some ps" q] ok by simp
next
  case (fetch_hits q p key ps p' ts pc log ws fs)
  then show ?thesis using lookup_conc_ok [OF lru, of validity p ts pc log ws fs q "Some ps" p'] ok by simp
next
  case (fetch_misses q p key p' ts pc log ws fs)
  then show ?thesis using lookup_conc_ok [OF lru, of validity p ts pc log ws fs q None p'] ok by simp
next
  case (fetch_fails i fs q p err ts pc log ws now)
  note ok' = ok [unfolded fetch_fails(1)]
  let ?f = "Answered q now (pb_datastore p) (Inl err)"
  have own: "owned (length (pb_heap p)) (shared cached (pb_cache p) ws) (fs[i := ?f])"
    using owned_update [OF conc_okD(2) [OF ok']] by simp
  have "fetcher_ok E validity (pb_heap p) f" if "f \<in> set (fs[i := ?f])" for f
    using set_update_cases [OF that] conc_okD(3) [OF ok'] fetch_fails(5) by (auto simp: fetch_answers_def)
  with own show ?thesis unfolding fetch_fails(2) using conc_okD(1) [OF ok'] by (intro conc_okI)
next
  case (fetch_queries i fs q p es out p' ts pc log ws now)
  then show ?thesis using queries_conc_ok [of E cached validity p ts pc log ws fs i] ok by simp
next
  case (fetch_reads i fs q now d e es out ws p out' p' ts pc log)
  then show ?thesis using reads_conc_ok [of E cached validity p ts pc log ws fs i] ok by simp
next
  case (fetch_crashes i fs q now d e es out ws q' r)
  obtain p ts pc log where r: "r = (p, ts, pc, log)" by (cases r)
  note own = conc_okD(2) [OF ok [unfolded fetch_crashes(1) r]]
  have "Some (ps_set out) \<in> ref_of ` set fs"
    using fetch_crashes(3,4) by (metis image_eqI nth_mem ref_of.simps(1))
  then show ?thesis
    using own writes_shared [OF fetch_crashes(5), of cached "pb_cache p"] unfolding owned_def by blast
next
  case (fetch_ends i fs q now d out p res p' ts pc log ws)
  then show ?thesis using ends_conc_ok [OF lru, of validity p ts pc log ws fs i] ok by simp
qed

lemma conc_to_ok:
  assumes lru: "lru_laws E cached" and run: "conc_to E s s'" and ok: "conc_ok E cached validity s"
  shows "conc_ok E cached validity s'"
  using run ok by (induction rule: rtranclp_induct) (auto intro: conc_step_ok [OF lru])

lemma conc_start_ok:
  "\<forall>k. cached (pb_cache p) k = None \<Longrightarrow>
     conc_ok E cached (ProvideValidity (pb_cfg p)) (Running (p, [], GcIdle, []) [] [])"
  by (simp add: conc_ok_def owned_def shared_def)

section \<open>The fetch on its own\<close>

text \<open>Two results that are the same error, or name the same providers in the same order.\<close>

fun same_providers :: "goerr + 'm any \<Rightarrow> goerr + 'm any \<Rightarrow> bool" where
  "same_providers (Inl e) r = (r = Inl e)"
| "same_providers (Inr (AnyProviderSetPtr ps)) (Inr (AnyProviderSetPtr ps')) =
     (map ai_ID (providers ps) = map ai_ID (providers ps'))"
| "same_providers (Inr v) r = False"

lemma answers_same:
  assumes "fetch_answers E validity q now d r" "fetch_answers E validity q now d r'"
  shows "same_providers r r'"
  using assms by (auto simp: fetch_answers_def split: sum.splits if_splits)

lemma pb_Fetch_answers:
  assumes miss: "fst (lru_Get E (pb_cache p) (cache_key E p key)) = None"
  shows "fetch_answers E (pb_validity p) (cache_key E p key) now (pb_datastore p) (fst (pb_Fetch E now p key))"
proof (cases "ds_Query E (pb_datastore p) (cache_key E p key)")
  case (Inl err)
  then show ?thesis using miss by (auto simp: pb_Fetch_def fetch_answers_def Let_def split: prod.split)
next
  case (Inr es)
  then show ?thesis
    using pb_Fetch_miss [OF miss Inr refl, of now] fresh_ids_empty [of "{}" "live_ids E (pb_validity p) now es"]
    by (auto simp: fetch_answers_def comp_def split: if_splits)
qed

section \<open>Who deletes a record\<close>

lemma fetch_entry_deletes:
  assumes laws: "datastore_laws E content" and entry: "fetch_entry E now e (out, p) = (out', p')"
    and gone: "content (pb_datastore p) k \<noteq> None" "content (pb_datastore p') k = None"
  shows "fst e = k \<and> \<not> is_error_entry e \<and> entry_provider E (ProvideValidity (pb_cfg p)) now e = None"
proof -
  have "pb_datastore p' = pb_datastore p \<or>
      pb_datastore p' = pb_delete E (pb_datastore p) (fst e) \<and> \<not> is_error_entry e \<and>
      entry_provider E (ProvideValidity (pb_cfg p)) now e = None"
    using entry by (cases e; cases "snd e") (auto simp: fetch_entry_eq Let_def split: sum.splits if_splits prod.splits)
  then show ?thesis using gone delete_content [OF laws, of "pb_datastore p" "fst e" k] by auto
qed

lemma store_mark_datastore: "store_mark E now key a hit p = (t, p') \<Longrightarrow> pb_datastore p' = pb_datastore p"
  by (auto simp: store_mark_def Let_def)

lemma fetch_lookup_datastore: "fetch_lookup E q p = (hit, p') \<Longrightarrow> pb_datastore p' = pb_datastore p"
  by (auto simp: fetch_lookup_def split: prod.splits)

lemma fetch_end_datastore: "fetch_end E q out p = (res, p') \<Longrightarrow> pb_datastore p' = pb_datastore p"
  by (auto simp: fetch_end_def split: if_splits)

lemma race_step_vanished:
  assumes laws: "datastore_laws E content" and step: "race_step E (p, ts, pc, log) (p', ts', pc', log')"
    and gone: "content (pb_datastore p) k \<noteq> None" "content (pb_datastore p') k = None"
  shows "\<exists>n es. pc = GcDoomed k n es"
  using step
proof (cases rule: race_step.cases)
  case (mark now key a t)
  then have "store_begin E now key a p = (t, p')" by simp
  then show ?thesis using gone store_begin_keeps by metis
next
  case (put t e)
  then have "store_finish E t p = (e, p')" by simp
  from store_finish_content [OF laws this] show ?thesis using gone by (auto split: if_splits)
next
  case (delete j n es)
  then show ?thesis using gone delete_content [OF laws, of "pb_datastore p" j k] by auto
qed (use gone in \<open>simp_all add: gc_erase_def\<close>)

lemma conc_step_vanished:
  assumes laws: "datastore_laws E content"
    and step: "conc_step E (Running (p, ts, pc, log) ws fs) (Running (p', ts', pc', log') ws' fs')"
    and gone: "content (pb_datastore p) k \<noteq> None" "content (pb_datastore p') k = None"
  shows "(\<exists>n es. pc = GcDoomed k n es) \<or>
    (\<exists>q now d b es out. Looping q now d ((k, Inr b) # es) out \<in> set fs \<and>
       entry_provider E (ProvideValidity (pb_cfg p)) now (k, Inr b) = None)"
  using step
proof (cases rule: conc_step.cases)
  case other
  then show ?thesis using race_step_vanished [OF laws _ gone] by blast
next
  case (fetch_reads i q now d e es out out')
  then have entry: "fetch_entry E now e (out, p) = (out', p')" and f: "Looping q now d (e # es) out \<in> set fs"
    by (simp, metis nth_mem)
  from fetch_entry_deletes [OF laws entry gone]
  obtain b where "e = (k, Inr b)" "entry_provider E (ProvideValidity (pb_cfg p)) now (k, Inr b) = None"
    by (cases e; cases "snd e") auto
  then show ?thesis using f by blast
next
  case (store_marks i now key a q t)
  then show ?thesis using gone store_mark_datastore by metis
next
  case (store_written i now key a q ps t)
  then show ?thesis using gone store_mark_datastore by metis
qed (use gone in \<open>auto simp: fetch_start_def dest!: fetch_lookup_datastore fetch_end_datastore\<close>)

section \<open>Two runs\<close>

abbreviation k_key :: bytes where "k_key \<equiv> newDatastoreKey mem_env ''providers'' [''k'']"

abbreviation old_entry :: "bytes \<times> (goerr + bytes)" where
  "old_entry \<equiv> (old_key, Inr (MarshalBinary \<lparr>expiry = 0\<rparr>))"

lemma old_record_simps [simp]:
  "pb_namespace old_record = ''providers''" "pb_cache old_record = []" "pb_heap old_record = []"
  "pb_datastore old_record = [(old_key, MarshalBinary \<lparr>expiry = 0\<rparr>)]" "pb_addrBook old_record = []"
  "ProvideValidity (pb_cfg old_record) = 48 * Hour" "AddressFilter (pb_cfg old_record) = (\<lambda>as. as)"
  "pb_gcSkip old_record = {}"
  by (simp_all add: old_record_def)

lemma old_query: "mem_query [(old_key, b)] k_key = Inr [(old_key, Inr b)]"
  using newDatastoreKey_under [OF mem_env_lib, of "''providers''" "[''k'']" "''p''"]
  by (simp add: old_key_def mem_query_def clean_part_def AList.clearjunk.simps)

lemma old_lookup: "fetch_lookup mem_env q p = (map_of (pb_cache p) q, p)"
  by (simp add: fetch_lookup_def)

lemma old_Unmarshal: "UnmarshalBinary (MarshalBinary \<lparr>expiry = 0\<rparr>) = Inr \<lparr>expiry = 0\<rparr>"
  using Unmarshal_Marshal [of "\<lparr>expiry = 0\<rparr>"] by (simp add: unix_nano_ok_def)

lemma old_decode: "pair_decode (after_last_slash old_key) = Inr ''p''"
  using newDatastoreKey_last [OF mem_env_lib, of "''providers''" "[''k'']" "''p''"]
  by (simp add: old_key_def clean_part_def pair_decode_encode)

text \<open>The record of \<open>old_record\<close> is read while it is live, and deleted when it is expired.\<close>

lemma old_read:
  "pb_heap p = [[]] \<Longrightarrow> pb_addrBook p = [] \<Longrightarrow> pb_cfg p = pb_cfg old_record \<Longrightarrow>
   fetch_entry mem_env Hour old_entry (\<lparr>providers = [], ps_set = 0\<rparr>, p) =
     (\<lparr>providers = [\<lparr>ai_ID = ''p'', ai_Addrs = []\<rparr>], ps_set = 0\<rparr>, p\<lparr>pb_heap := [[(''p'', 0)]]\<rparr>)"
  by (simp add: fetch_entry_eq old_Unmarshal old_decode addProvider_def Let_def time_Sub_def minDuration_def
      maxDuration_def Hour_def Minute_def)

lemma old_delete:
  "pb_cfg p = pb_cfg old_record \<Longrightarrow>
   fetch_entry mem_env (61 * Hour) old_entry (out, p) = (out, p\<lparr>pb_datastore := AList.delete old_key (pb_datastore p)\<rparr>)"
  by (simp add: fetch_entry_eq old_Unmarshal pb_delete_def time_Sub_def minDuration_def
      maxDuration_def Hour_def Minute_def)

text \<open>A fetch of the live record runs alone; then it is in the cache.\<close>

abbreviation p_info :: "bytes addr_info" where "p_info \<equiv> \<lparr>ai_ID = ''p'', ai_Addrs = []\<rparr>"

definition p_set :: "bytes providerSet" where "p_set = \<lparr>providers = [p_info], ps_set = 0\<rparr>"

definition old_cached :: "(bytes, mem_ds, mem_ab, mem_lru) ProvidersBackend" where
  "old_cached = old_record\<lparr>pb_heap := [[(''p'', 0)]], pb_cache := [(k_key, p_set)]\<rparr>"

abbreviation old_answer :: "(bytes, mem_ds) fetcher" where
  "old_answer \<equiv> Answered k_key Hour [(old_key, MarshalBinary \<lparr>expiry = 0\<rparr>)] (Inr (AnyProviderSetPtr p_set))"

lemma run_cons: "conc_step E s s1 \<Longrightarrow> conc_to E s1 s2 \<Longrightarrow> conc_to E s s2"
  by (rule converse_rtranclp_into_rtranclp)

lemma old_run:
  "conc_to mem_env (Running (old_record, [], GcIdle, []) [] []) (Running (old_cached, [], GcIdle, []) [] [old_answer])"
proof -
  let ?p1 = "old_record\<lparr>pb_heap := [[]]\<rparr>" and ?p2 = "old_record\<lparr>pb_heap := [[(''p'', 0)]]\<rparr>"
  let ?out = "\<lparr>providers = [], ps_set = 0\<rparr> :: bytes providerSet" and ?d = "pb_datastore old_record"
  have 1: "conc_step mem_env (Running (old_record, [], GcIdle, []) [] [])
      (Running (old_record, [], GcIdle, []) [] ([] @ [Missed k_key]))"
    by (rule conc_step.fetch_misses [where key = "''k''"], (simp add: old_lookup)+)
  have 2: "conc_step mem_env (Running (old_record, [], GcIdle, []) [] [Missed k_key])
      (Running (?p1, [], GcIdle, []) [] ([Missed k_key][0 := Looping k_key Hour ?d [old_entry] ?out]))"
    by (rule conc_step.fetch_queries, (simp add: old_query fetch_start_def)+)
  have 3: "conc_step mem_env (Running (?p1, [], GcIdle, []) [] [Looping k_key Hour ?d [old_entry] ?out])
      (Running (?p2, [], GcIdle, []) [] ([Looping k_key Hour ?d [old_entry] ?out][0 := Looping k_key Hour ?d [] p_set]))"
    by (rule conc_step.fetch_reads, (simp add: old_read writes_def p_set_def)+)
  have 4: "conc_step mem_env (Running (?p2, [], GcIdle, []) [] [Looping k_key Hour ?d [] p_set])
      (Running (old_cached, [], GcIdle, []) [] ([Looping k_key Hour ?d [] p_set][0 := Answered k_key Hour ?d (Inr (AnyProviderSetPtr p_set))]))"
    by (rule conc_step.fetch_ends, (simp add: fetch_end_def p_set_def old_cached_def)+)
  show ?thesis
    using run_cons [OF 1 [simplified] run_cons [OF 2 [simplified] run_cons [OF 3 [simplified]
        r_into_rtranclp [where r = "conc_step mem_env", OF 4 [simplified]]]]] by simp
qed

text \<open>Two stores of one provider for the key that is cached.\<close>

lemma old_crash:
  "conc_to mem_env (Running (old_cached, [], GcIdle, []) [] [old_answer]) (Crashed (StoreStore k_key k_key))"
proof -
  let ?r = "(old_cached, [], GcIdle, []) :: (bytes, mem_ds, mem_ab, mem_lru) race"
  let ?l = "Looked Hour ''k'' p_info k_key (Some p_set)" and ?w = "Writing Hour ''k'' p_info k_key p_set"
  have look: "conc_step mem_env (Running ?r ws [old_answer]) (Running ?r (ws @ [?l]) [old_answer])" for ws
    by (rule conc_step.store_looks, (simp add: old_lookup old_cached_def)+)
  have 3: "conc_step mem_env (Running ?r [?l, ?l] [old_answer]) (Running ?r ([?l, ?l][0 := ?w]) [old_answer])"
    by (rule conc_step.store_writes, (simp add: writes_def)+)
  have 4: "conc_step mem_env (Running ?r [?w, ?l] [old_answer]) (Crashed (StoreStore k_key k_key))"
    by (rule conc_step.store_crashes [where i = 1], (simp add: writes_def)+)
  show ?thesis
    using run_cons [OF look [of "[]", simplified] run_cons [OF look [of "[?l]", simplified] run_cons [OF 3 [simplified]
        r_into_rtranclp [where r = "conc_step mem_env", OF 4]]]] .
qed

text \<open>
  A fetch queries the datastore when the record is expired, a store renews the record and reports success, and the
  fetch deletes it, although its key is in the skip list.
\<close>

definition old_written :: "(bytes, mem_ds, mem_ab, mem_lru) ProvidersBackend" where
  "old_written = old_record\<lparr>pb_heap := [[]], pb_addrBook := [(''p'', [])], pb_gcSkip := {old_key},
     pb_datastore := [(old_key, MarshalBinary \<lparr>expiry = 61 * Hour\<rparr>)]\<rparr>"

abbreviation old_loop :: "entry list \<Rightarrow> (bytes, mem_ds) fetcher" where
  "old_loop es \<equiv> Looping k_key (61 * Hour) [(old_key, MarshalBinary \<lparr>expiry = 0\<rparr>)] es \<lparr>providers = [], ps_set = 0\<rparr>"

lemma old_write_run:
  "conc_to mem_env (Running (old_record, [], GcIdle, []) [] [])
     (Running (old_written, [], GcIdle, [(old_key, 61 * Hour)]) [Marked] [old_loop [old_entry]])"
proof -
  let ?p1 = "old_record\<lparr>pb_heap := [[]]\<rparr>" and ?d = "pb_datastore old_record"
  let ?p2 = "?p1\<lparr>pb_addrBook := [(''p'', [])], pb_gcSkip := {old_key}\<rparr>"
  let ?f = "Looping k_key (61 * Hour) ?d [old_entry] (\<lparr>providers = [], ps_set = 0\<rparr> :: bytes providerSet)"
  let ?t = "\<lparr>st_dsKey = old_key, st_cacheKey = k_key, st_now = 61 * Hour, st_found = False\<rparr>"
  let ?l = "Looked (61 * Hour) ''k'' p_info k_key None"
  have 1: "conc_step mem_env (Running (old_record, [], GcIdle, []) [] [])
      (Running (old_record, [], GcIdle, []) [] ([] @ [Missed k_key]))"
    by (rule conc_step.fetch_misses [where key = "''k''"], (simp add: old_lookup)+)
  have 2: "conc_step mem_env (Running (old_record, [], GcIdle, []) [] [Missed k_key])
      (Running (?p1, [], GcIdle, []) [] ([Missed k_key][0 := ?f]))"
    by (rule conc_step.fetch_queries, (simp add: old_query fetch_start_def)+)
  have 3: "conc_step mem_env (Running (?p1, [], GcIdle, []) [] [?f]) (Running (?p1, [], GcIdle, []) ([] @ [?l]) [?f])"
    by (rule conc_step.store_looks, (simp add: old_lookup)+)
  have 4: "conc_step mem_env (Running (?p1, [], GcIdle, []) [?l] [?f]) (Running (?p2, [?t], GcIdle, []) ([?l][0 := Marked]) [?f])"
    by (rule conc_step.store_marks, (simp add: store_mark_def Let_def old_key_def)+)
  have "race_step mem_env (?p2, [?t], GcIdle, []) (old_written, remove1 ?t [?t], GcIdle,
      if None = (None :: goerr option) then (st_dsKey ?t, st_now ?t) # [] else [])"
    by (rule race_step.put) (simp_all add: store_finish_def old_written_def)
  then have 5: "conc_step mem_env (Running (?p2, [?t], GcIdle, []) [Marked] [?f])
      (Running (old_written, [], GcIdle, [(old_key, 61 * Hour)]) [Marked] [?f])"
    by (intro conc_step.other) simp_all
  show ?thesis
    using run_cons [OF 1 [simplified] run_cons [OF 2 [simplified] run_cons [OF 3 [simplified] run_cons [OF 4 [simplified]
      r_into_rtranclp [where r = "conc_step mem_env", OF 5 [simplified]]]]]] by simp
qed

lemma old_delete_step:
  "conc_step mem_env (Running (old_written, [], GcIdle, [(old_key, 61 * Hour)]) [Marked] [old_loop [old_entry]])
     (Running (old_written\<lparr>pb_datastore := []\<rparr>, [], GcIdle, [(old_key, 61 * Hour)]) [Marked]
        ([old_loop [old_entry]][0 := old_loop []]))"
  by (rule conc_step.fetch_reads, (simp add: old_delete writes_def old_written_def)+)

section \<open>Properties\<close>

text \<open>
  C14: However fetches, stores and collections interleave, from a start with an empty cache: a fetch that
  queries the datastore names exactly the providers, in the same order, that it would name if it ran alone on the
  datastore as it was at the moment of its query, or fails with the same error. No store and no other
  fetch disturbs the set that it builds.
\<close>
theorem concurrent_fetch_exact:
  assumes lru: "lru_laws E cached" and start: "\<forall>k. cached (pb_cache p0) k = None"
    and run: "conc_to E (Running (p0, [], GcIdle, []) [] []) (Running r ws fs)"
    and answer: "Answered (newDatastoreKey E (pb_namespace p0) [key]) now d res \<in> set fs"
  shows "same_providers res (fst (pb_Fetch E now (p0\<lparr>pb_datastore := d\<rparr>) key))"
proof (rule answers_same)
  let ?p = "p0\<lparr>pb_datastore := d\<rparr>"
  obtain p ts pc log where r: "r = (p, ts, pc, log)" by (cases r)
  have "conc_ok E cached (pb_validity p0) (Running r ws fs)"
    using conc_to_ok [OF lru run conc_start_ok [of cached p0, OF start]] .
  from conc_okD(3) [OF this [unfolded r] answer]
  show "fetch_answers E (pb_validity p0) (newDatastoreKey E (pb_namespace p0) [key]) now d res" by simp
  have "fst (lru_Get E (pb_cache ?p) (cache_key E ?p key)) = None"
    using lru_Get_cached(1) [OF lru] start by simp
  from pb_Fetch_answers [OF this, of now]
  show "fetch_answers E (pb_validity p0) (newDatastoreKey E (pb_namespace p0) [key]) now d (fst (pb_Fetch E now ?p key))"
    by simp
qed

lemma concurrent_fetch_exact_witness:
  "same_providers (Inr (AnyProviderSetPtr p_set))
     (fst (pb_Fetch mem_env Hour
       (old_record\<lparr>pb_datastore := [(old_key, MarshalBinary \<lparr>expiry = 0\<rparr>)]\<rparr>) ''k''))"
  using concurrent_fetch_exact [OF mem_env_lru _ old_run, of "''k''" Hour
      "[(old_key, MarshalBinary \<lparr>expiry = 0\<rparr>)]" "Inr (AnyProviderSetPtr p_set)"] by simp

text \<open>
  C15: The maps of provider sets have no lock, yet of all goroutines only two stores for the same key can write
  to one map at once: never a fetch, and never stores for different keys. Two stores for a cached key can, and
  then the runtime ends the program.
\<close>
theorem map_conflict_same_key:
  assumes lru: "lru_laws E cached" and start: "\<forall>k. cached (pb_cache p0) k = None"
    and run: "conc_to E (Running (p0, [], GcIdle, []) [] []) (Crashed c)"
  shows "(\<exists>q. c = StoreStore q q) \<and>
    conc_to mem_env (Running (old_record, [], GcIdle, []) [] []) (Crashed (StoreStore k_key k_key))"
proof
  show "\<exists>q. c = StoreStore q q"
    using conc_to_ok [OF lru run conc_start_ok [of cached p0, OF start]] by (simp add: conc_ok_def)
  show "conc_to mem_env (Running (old_record, [], GcIdle, []) [] []) (Crashed (StoreStore k_key k_key))"
    using old_run old_crash by (rule rtranclp_trans)
qed

lemma map_conflict_same_key_witness:
  "conc_to mem_env (Running (old_record, [], GcIdle, []) [] []) (Crashed (StoreStore k_key k_key))"
proof -
  have "conc_to mem_env (Running (old_record, [], GcIdle, []) [] []) (Crashed (StoreStore k_key k_key))"
    using old_run old_crash by (rule rtranclp_trans)
  from map_conflict_same_key [OF mem_env_lru _ this] show ?thesis by simp
qed

text \<open>
  A provider record that a store has just renewed, and reported as stored, can be deleted by a fetch that
  queried the datastore before, even though its key is in the skip list, which only the collection
  respects.
\<close>
lemma renewed_record_lost_by_fetch:
  "\<exists>p fs. conc_to mem_env (Running (old_record, [], GcIdle, []) [] [])
     (Running (p, [], GcIdle, [(old_key, 61 * Hour)]) [Marked] fs) \<and>
     old_key \<in> pb_gcSkip p \<and> map_of (pb_datastore p) old_key = None"
proof -
  let ?p = "old_written\<lparr>pb_datastore := []\<rparr>" and ?fs = "[old_loop [old_entry]][0 := old_loop []]"
  show ?thesis
  proof (rule exI [of _ ?p], rule exI [of _ ?fs], intro conjI)
    show "conc_to mem_env (Running (old_record, [], GcIdle, []) [] [])
        (Running (?p, [], GcIdle, [(old_key, 61 * Hour)]) [Marked] ?fs)"
      using old_write_run old_delete_step by (rule rtranclp.rtrancl_into_rtrancl)
    show "old_key \<in> pb_gcSkip ?p" "map_of (pb_datastore ?p) old_key = None"
      by (simp_all add: old_written_def)
  qed
qed

text \<open>
  C16: A provider record only vanishes if the collection has doomed it or if it was expired or unreadable when
  a fetch that is still in its loop queried the datastore: whatever interleaves, no goroutine deletes a record
  of which it did not see such a version. (The version that vanishes may be a newer one.)
\<close>
theorem vanished_record:
  assumes laws: "datastore_laws E content" and lru: "lru_laws E cached"
    and start: "\<forall>k. cached (pb_cache p0) k = None"
    and run: "conc_to E (Running (p0, [], GcIdle, []) [] []) (Running (p, ts, pc, log) ws fs)"
    and step: "conc_step E (Running (p, ts, pc, log) ws fs) (Running (p', ts', pc', log') ws' fs')"
    and gone: "content (pb_datastore p) k \<noteq> None" "content (pb_datastore p') k = None"
  shows "(\<exists>n es. pc = GcDoomed k n es) \<or>
    (\<exists>q now d b es out. Looping q now d ((k, Inr b) # es) out \<in> set fs \<and> under q k \<and> content d k = Some b \<and>
       (\<forall>i. \<not> live_record E (ProvideValidity (pb_cfg p0)) now k b i))"
proof -
  note ok = conc_to_ok [OF lru run conc_start_ok [of cached p0, OF start]]
  from conc_step_vanished [OF laws step gone] consider n es where "pc = GcDoomed k n es"
    | q now d b es out where "Looping q now d ((k, Inr b) # es) out \<in> set fs"
        "entry_provider E (ProvideValidity (pb_cfg p)) now (k, Inr b) = None"
    by blast
  then show ?thesis
  proof cases
    case 2
    from conc_okD(3) [OF ok 2(1)] obtain seen where "ds_Query E d q = Inr (seen @ (k, Inr b) # es)" by auto
    from ds_Query_sound [OF laws this, of k b] have "under q k \<and> content d k = Some b" by simp
    moreover have "\<forall>i. \<not> live_record E (ProvideValidity (pb_cfg p0)) now k b i"
      using 2(2) conc_okD(1) [OF ok] entry_provider_Some [of E "pb_validity p" now k "Inr b"]
      by (auto simp: live_record_def)
    ultimately show ?thesis using 2(1) by blast
  qed blast
qed

lemma vanished_record_witness:
  "\<forall>i. \<not> live_record mem_env (48 * Hour) (61 * Hour) old_key (MarshalBinary \<lparr>expiry = 0\<rparr>) i"
proof -
  have gone: "map_of (pb_datastore old_written) old_key \<noteq> None"
    "map_of (pb_datastore (old_written\<lparr>pb_datastore := []\<rparr>)) old_key = None"
    by (simp_all add: old_written_def)
  have start: "\<forall>k. map_of (pb_cache old_record) k = None" by simp
  show ?thesis
    using vanished_record [where content = map_of and cached = map_of and k = old_key,
        OF mem_env_laws mem_env_lru start old_write_run old_delete_step gone]
    by simp
qed

end
