(* ===== verification/Routing.thy ===== *)
theory Routing
  imports HandlerProps
begin

text \<open>
  The lookups of \<open>routing.go\<close>. The coordinator (\<open>d.kad\<close>, the xorbie library) runs the
  queries: it is given a callback and calls it for each node that responds, in the order in which
  they respond. Here a query is the list of its responses (\<open>visit\<close>) and the error it would
  end with; \<open>run_query\<close> is what the library documents about callbacks: the first error a
  callback returns ends the query, and \<open>ErrSkipRemaining\<close> ends it without an error.

  The record \<open>Node\<close> extends \<open>DHT\<close> by the parts of the coordinator, the host and the
  record library that the lookups use. A channel is the list of the values sent on it; the
  result of applying the routing options is an argument. Contexts are cancelled where the code
  waits for them: the argument \<open>accept\<close> says whether the next send goes through.
\<close>

section \<open>Queries\<close>

type_synonym visit = "peer_id \<times> Message option"
type_synonym query = "visit list \<times> goerr option"

fun run_query :: "('s \<Rightarrow> visit \<Rightarrow> goerr option \<times> 's) \<Rightarrow> visit list \<Rightarrow> goerr option \<Rightarrow> 's \<Rightarrow> goerr option \<times> 's" where
  "run_query fn [] qerr s = (qerr, s)"
| "run_query fn (v # vs) qerr s =
     (case fn s v of
        (None, s') \<Rightarrow> run_query fn vs qerr s'
      | (Some e, s') \<Rightarrow> if errors_Is e ErrSkipRemaining then (None, s') else (Some e, s'))"

text \<open>A property that every callback keeps holds after the query.\<close>

lemma run_query_inv:
  assumes "P s" and "\<And>s v e s'. P s \<Longrightarrow> fn s v = (e, s') \<Longrightarrow> P s'"
    and "run_query fn vs qerr s = (e, s')"
  shows "P s'"
  using assms(1,3)
proof (induction vs arbitrary: s)
  case (Cons v vs)
  obtain r s1 where r: "fn s v = (r, s1)" by (cases "fn s v")
  then have "P s1" using assms(2) Cons.prems(1) by blast
  then show ?case using Cons r by (cases r) (auto split: if_splits)
qed simp

record cid =
  cid_Defined :: bool
  cid_Hash :: bytes

record ropts =
  ro_Offline :: bool
  ro_quorum :: "int option"        \<comment> \<open>\<open>opts.Other[quorumOptionKey{}]\<close>\<close>

record ('w, 'm, 'b) Node = "('w, 'm, 'b) DHT" +
  n_Connected :: "'w \<Rightarrow> peer_id \<Rightarrow> bool"
  n_HostAddrs :: "'m list"
  n_QueryClosest :: "'w \<Rightarrow> 'b Key \<Rightarrow> nat \<Rightarrow> query \<times> 'w"
  n_QueryMessage :: "'w \<Rightarrow> Message \<Rightarrow> nat \<Rightarrow> query \<times> 'w"
  n_Publish :: "'w \<Rightarrow> Message \<Rightarrow> (goerr + nat) \<times> 'w"   \<comment> \<open>\<open>stats.StoreSuccess\<close>\<close>
  n_provideKeys_Add :: "('w \<Rightarrow> 'b Key \<Rightarrow> goerr option \<times> 'w) option"
  n_MakePutRecord :: "bytes \<Rightarrow> bytes \<Rightarrow> rec"
  n_Format_now :: "'w \<Rightarrow> string"
  n_DefaultQuorum :: int

section \<open>FindPeer\<close>

definition find_peer_fn ::
  "peer_id \<Rightarrow> peer_id \<times> peer_id list \<Rightarrow> visit \<Rightarrow> goerr option \<times> peer_id \<times> peer_id list" where
  "find_peer_fn pid s v =
     (case (s, v) of ((foundPeer, onVisit), (visited, msg)) \<Rightarrow>
        if visited = pid then (Some ErrSkipRemaining, (visited, onVisit @ [visited]))
        else (None, (foundPeer, onVisit @ [visited])))"

text \<open>The result, the nodes reported to \<open>onVisit\<close>, and the new world.\<close>

definition FindPeerProgress ::
  "('w, 'm, 'b, 'z) Node_scheme \<Rightarrow> 'w \<Rightarrow> peer_id \<Rightarrow> (goerr + 'm addr_info) \<times> peer_id list \<times> 'w" where
  "FindPeerProgress N w pid =
     (let addrInfo = d_PeerInfo N w pid
      in if n_Connected N w pid \<and> ai_ID addrInfo \<noteq> [] \<and> length (ai_Addrs addrInfo) > 0
         then (Inr addrInfo, [], w)
         else
           (case n_QueryClosest N w (PeerID_Key (d_hash N) pid) 20 of ((visits, qerr), w') \<Rightarrow>
              (case run_query (find_peer_fn pid) visits qerr ([], []) of
                 (Some err, (foundPeer, log)) \<Rightarrow> (Inl (Wrapf ''failed to run query'' err), log, w')
               | (None, (foundPeer, log)) \<Rightarrow>
                   if foundPeer = [] then (Inl (Errorf ''peer record not found''), log, w')
                   else (Inr (d_PeerInfo N w' foundPeer), log, w'))))"

definition FindPeer ::
  "('w, 'm, 'b, 'z) Node_scheme \<Rightarrow> 'w \<Rightarrow> peer_id \<Rightarrow> (goerr + 'm addr_info) \<times> 'w" where
  "FindPeer N w pid = (case FindPeerProgress N w pid of (r, _, w') \<Rightarrow> (r, w'))"

section \<open>Provide\<close>

definition provideRecord :: "('w, 'm, 'b, 'z) Node_scheme \<Rightarrow> 'b Key \<Rightarrow> Message" where
  "provideRecord N k =
     zero_Message\<lparr>msg_Type := Message_ADD_PROVIDER, msg_Key := MsgKey k,
       msg_ProviderPeers := [FromAddrInfo (d_ma N) \<lparr>ai_ID = d_self N, ai_Addrs = n_HostAddrs N\<rparr>]\<rparr>"

definition provideOnce ::
  "('w, 'm, 'b, 'z) Node_scheme \<Rightarrow> 'w \<Rightarrow> cid \<Rightarrow> bool \<Rightarrow> goerr option \<times> 'w" where
  "provideOnce N w c brdcst =
     (case map_of (d_backends N) namespaceProviders of
        None \<Rightarrow> (Some ErrNotSupported, w)
      | Some b \<Rightarrow>
          if \<not> cid_Defined c then (Some (Errorf ''invalid cid: undefined''), w)
          else
            (case Store b w (cid_Hash c) (AnyAddrInfo \<lparr>ai_ID = d_self N, ai_Addrs = []\<rparr>) of
               (Inl err, w') \<Rightarrow> (Some (Wrapf ''storing own provider record'' err), w')
             | (Inr _, w') \<Rightarrow>
                 if \<not> brdcst then (None, w')
                 else
                   (case n_Publish N w' (provideRecord N (NewKey (d_hash N) (cid_Hash c))) of
                      (Inl err, w'') \<Rightarrow> (Some (Wrapf ''publish error'' err), w'')
                    | (Inr StoreSuccess, w'') \<Rightarrow>
                        if StoreSuccess = 0 then (Some (Errorf ''no peers stored the provider record''), w'')
                        else (None, w''))))"

definition Provide ::
  "('w, 'm, 'b, 'z) Node_scheme \<Rightarrow> 'w \<Rightarrow> cid \<Rightarrow> bool \<Rightarrow> goerr option \<times> 'w" where
  "Provide N w c brdcst =
     (if \<not> cid_Defined c then (Some (Errorf ''invalid cid: undefined''), w)
      else
        (case n_provideKeys_Add N of
           None \<Rightarrow> provideOnce N w c brdcst
         | Some add \<Rightarrow>
             (case add w (NewKey (d_hash N) (cid_Hash c)) of
                (Some err, w') \<Rightarrow> (Some (Wrapf ''register provide'' err), w')
              | (None, w') \<Rightarrow> provideOnce N w' c brdcst)))"

definition ProvideOnce ::
  "('w, 'm, 'b, 'z) Node_scheme \<Rightarrow> 'w \<Rightarrow> cid \<Rightarrow> bool \<Rightarrow> goerr option \<times> 'w" where
  "ProvideOnce N w c brdcst = provideOnce N w c brdcst"

section \<open>FindProviders\<close>

text \<open>
  The closure \<open>add\<close>, and \<open>slices.ContainsFunc\<close> with it: the providers are added until one of
  them completes the requested count.
\<close>

definition add_provider ::
  "int \<Rightarrow> peer_id list \<times> 'm addr_info list \<Rightarrow> 'm addr_info \<Rightarrow> bool \<times> peer_id list \<times> 'm addr_info list" where
  "add_provider cnt s p =
     (case s of (seen, provs) \<Rightarrow>
        if ai_ID p \<in> set seen then (False, (seen, provs))
        else (cnt > 0 \<and> int (length (provs @ [p])) \<ge> cnt, (ai_ID p # seen, provs @ [p])))"

fun contains_add ::
  "int \<Rightarrow> 'm addr_info list \<Rightarrow> peer_id list \<times> 'm addr_info list \<Rightarrow> bool \<times> peer_id list \<times> 'm addr_info list" where
  "contains_add cnt [] s = (False, s)"
| "contains_add cnt (p # ps) s =
     (case add_provider cnt s p of (done, s') \<Rightarrow> if done then (True, s') else contains_add cnt ps s')"

definition find_providers_fn ::
  "'m ma_lib \<Rightarrow> int \<Rightarrow> (peer_id list \<times> 'm addr_info list) \<times> peer_id list \<Rightarrow> visit
     \<Rightarrow> goerr option \<times> (peer_id list \<times> 'm addr_info list) \<times> peer_id list" where
  "find_providers_fn L cnt s v =
     (case (s, v) of ((st, onVisit), (pid, resp)) \<Rightarrow>
        (case contains_add cnt (ProviderAddrInfos L resp) st of (done, st') \<Rightarrow>
           (if done then Some ErrSkipRemaining else None, (st', onVisit @ [pid]))))"

definition FindProvidersProgress ::
  "('w, 'm, 'b, 'z) Node_scheme \<Rightarrow> 'w \<Rightarrow> cid \<Rightarrow> int \<Rightarrow> (goerr + 'm addr_info list) \<times> peer_id list \<times> 'w" where
  "FindProvidersProgress N w c cnt =
     (case map_of (d_backends N) namespaceProviders of
        None \<Rightarrow> (Inl ErrNotSupported, [], w)
      | Some b \<Rightarrow>
          if \<not> cid_Defined c then (Inl (Errorf ''invalid cid: undefined''), [], w)
          else
            (let (fetched, w1) = Fetch b w (cid_Hash c);
                 stored = (case fetched of
                    Inl err \<Rightarrow> if \<not> errors_Is err ErrNotFound
                               then Inl (Wrapf ''fetch providers from store'' err)
                               else Inr (AnyProviderSetPtr \<lparr>providers = [], ps_set = 0\<rparr>)
                  | Inr v \<Rightarrow> Inr v)
             in case stored of
                  Inl e \<Rightarrow> (Inl e, [], w1)
                | Inr (AnyProviderSetPtr ps) \<Rightarrow>
                    (case contains_add cnt (providers ps) ([], []) of (done, st) \<Rightarrow>
                       if done then (Inr (snd st), [], w1)
                       else
                         (let msg = zero_Message\<lparr>msg_Type := Message_GET_PROVIDERS, msg_Key := cid_Hash c\<rparr>
                          in case n_QueryMessage N w1 msg (d_BucketSize N) of ((visits, qerr), w2) \<Rightarrow>
                               (case run_query (find_providers_fn (d_ma N) cnt) visits qerr (st, []) of
                                  (Some err, (st', log)) \<Rightarrow>
                                    (Inl (Wrapf ''failed to run query'' err), log, w2)
                                | (None, (st', log)) \<Rightarrow> (Inr (snd st'), log, w2))))
                | Inr _ \<Rightarrow> (Inl (Errorf ''stored value is not a provider set''), [], w1)))"

definition FindProviders ::
  "('w, 'm, 'b, 'z) Node_scheme \<Rightarrow> 'w \<Rightarrow> cid \<Rightarrow> int \<Rightarrow> (goerr + 'm addr_info list) \<times> 'w" where
  "FindProviders N w c cnt = (case FindProvidersProgress N w c cnt of (r, _, w') \<Rightarrow> (r, w'))"

text \<open>
  The asynchronous variant sends on a channel. \<open>accept i\<close> tells whether the \<open>i\<close>-th send
  goes through before the context is done. The local providers are sent even if they are
  duplicates, those of the network only once.
\<close>

fun send_local ::
  "(nat \<Rightarrow> bool) \<Rightarrow> int \<Rightarrow> 'm addr_info list \<Rightarrow> peer_id list \<times> 'm addr_info list
     \<Rightarrow> bool \<times> peer_id list \<times> 'm addr_info list" where
  "send_local accept cnt [] s = (False, s)"
| "send_local accept cnt (p # ps) (seen, out) =
     (let seen' = List.insert (ai_ID p) seen
      in if \<not> accept (length out) then (True, (seen', out))
         else if cnt \<noteq> 0 \<and> int (length seen') = cnt then (True, (seen', out @ [p]))
         else send_local accept cnt ps (seen', out @ [p]))"

fun send_found ::
  "(nat \<Rightarrow> bool) \<Rightarrow> int \<Rightarrow> 'm addr_info list \<Rightarrow> peer_id list \<times> 'm addr_info list
     \<Rightarrow> goerr option \<times> peer_id list \<times> 'm addr_info list" where
  "send_found accept cnt [] s = (None, s)"
| "send_found accept cnt (p # ps) (seen, out) =
     (if ai_ID p \<in> set seen then send_found accept cnt ps (seen, out)
      else
        (let seen' = List.insert (ai_ID p) seen
         in if \<not> accept (length out) then (Some ErrSkipRemaining, (seen', out))
            else if cnt \<noteq> 0 \<and> int (length seen') = cnt
            then (Some ErrSkipRemaining, (seen', out @ [p]))
            else send_found accept cnt ps (seen', out @ [p])))"

text \<open>What \<open>FindProvidersAsync\<close> sends before it closes the channel.\<close>

definition findProvidersAsyncRoutine ::
  "('w, 'm, 'b, 'z) Node_scheme \<Rightarrow> (nat \<Rightarrow> bool) \<Rightarrow> 'w \<Rightarrow> cid \<Rightarrow> int \<Rightarrow> 'm addr_info list \<times> 'w" where
  "findProvidersAsyncRoutine N accept w c cnt =
     (case map_of (d_backends N) namespaceProviders of
        None \<Rightarrow> ([], w)
      | Some b \<Rightarrow>
          if \<not> cid_Defined c then ([], w)
          else
            (let (fetched, w1) = Fetch b w (cid_Hash c)
             in case (case fetched of
                        Inl err \<Rightarrow> if errors_Is err ErrNotFound
                                   then AnyProviderSetPtr \<lparr>providers = [], ps_set = 0\<rparr> else AnyNil
                      | Inr v \<Rightarrow> v) of
                  AnyProviderSetPtr ps \<Rightarrow>
                    (case send_local accept cnt (providers ps) ([], []) of (stop, (seen, out)) \<Rightarrow>
                       if stop then (out, w1)
                       else
                         (let msg = zero_Message\<lparr>msg_Type := Message_GET_PROVIDERS, msg_Key := cid_Hash c\<rparr>
                          in case n_QueryMessage N w1 msg (d_BucketSize N) of ((visits, qerr), w2) \<Rightarrow>
                               (case run_query
                                      (\<lambda>s (pid, resp). send_found accept cnt (ProviderAddrInfos (d_ma N) resp) s)
                                      visits qerr (seen, out) of
                                  (_, (_, out')) \<Rightarrow> (out', w2))))
                | _ \<Rightarrow> ([], w1)))"

section \<open>PutValue\<close>

definition putValueLocal ::
  "('w, 'm, 'b, 'z) Node_scheme \<Rightarrow> 'w \<Rightarrow> bytes \<Rightarrow> bytes \<Rightarrow> goerr option \<times> 'w" where
  "putValueLocal N w key val =
     (case d_SplitKey N key of
        Inl err \<Rightarrow> (Some (Wrapf ''splitting key'' err), w)
      | Inr (ns, path) \<Rightarrow>
          (case map_of (d_backends N) ns of
             None \<Rightarrow> (Some ErrNotSupported, w)
           | Some b \<Rightarrow>
               (case Store b w path
                       (AnyRecord ((n_MakePutRecord N key val)\<lparr>rec_TimeReceived := n_Format_now N w\<rparr>)) of
                  (Inl err, w') \<Rightarrow> (Some (Wrapf ''store record locally'' err), w')
                | (Inr _, w') \<Rightarrow> (None, w'))))"

definition PutValue ::
  "('w, 'm, 'b, 'z) Node_scheme \<Rightarrow> 'w \<Rightarrow> bytes \<Rightarrow> bytes \<Rightarrow> goerr + ropts \<Rightarrow> goerr option \<times> 'w" where
  "PutValue N w keyStr val opts =
     (case opts of
        Inl err \<Rightarrow> (Some (Wrapf ''apply routing options'' err), w)
      | Inr rOpt \<Rightarrow>
          (case putValueLocal N w keyStr val of
             (Some err, w') \<Rightarrow> (Some (Wrapf ''put value locally'' err), w')
           | (None, w') \<Rightarrow>
               if ro_Offline rOpt then (None, w')
               else
                 (let msg = zero_Message\<lparr>msg_Type := Message_PUT_VALUE, msg_Key := keyStr,
                        msg_Record := Some (n_MakePutRecord N keyStr val)\<rparr>
                  in case n_Publish N w' msg of
                       (Inl err, w'') \<Rightarrow> (Some (Wrapf ''publish error'' err), w'')
                     | (Inr StoreSuccess, w'') \<Rightarrow>
                         if StoreSuccess = 0 then (Some (Errorf ''no peers stored the record''), w'')
                         else (None, w''))))"

definition verifyStoredRecord :: "Message \<Rightarrow> Message option \<Rightarrow> goerr option" where
  "verifyStoredRecord req resp =
     (let val = (\<lambda>m. case msg_Record m of None \<Rightarrow> [] | Some r \<Rightarrow> rec_Value r)
      in if msg_Type req \<noteq> Message_PUT_VALUE then None
         else
           (case resp of
              None \<Rightarrow> Some (Errorf ''no response to PUT_VALUE'')
            | Some resp \<Rightarrow>
                if val resp \<noteq> val req then Some (Errorf ''record not stored correctly'') else None))"

section \<open>SearchValue\<close>

text \<open>
  The state of the callback of \<open>searchValueRoutine\<close>. A nil value and an empty value are both
  the empty list: unmarshalling gives nil for an empty value of a record. The quorum set is kept in the order of
  insertion; the map of the code is iterated in an unspecified order.
\<close>

record search_state =
  sv_best :: bytes
  sv_fixupPeers :: "peer_id list"
  sv_quorumPeers :: "peer_id list"
  sv_out :: "bytes list"

definition search_fn ::
  "(bytes \<Rightarrow> 'm any list \<Rightarrow> goerr + int) \<Rightarrow> bytes \<Rightarrow> bytes \<Rightarrow> int \<Rightarrow> search_state \<Rightarrow> visit
     \<Rightarrow> goerr option \<times> search_state" where
  "search_fn validate path routing_key quorum s v =
     (case v of (pid, resp) \<Rightarrow>
        (case (case resp of None \<Rightarrow> None | Some m \<Rightarrow> msg_Record m) of
           None \<Rightarrow> (None, s)
         | Some rec \<Rightarrow>
             if routing_key \<noteq> rec_Key rec then (None, s)
             else
               (let idx = idx_of (validate path [AnyBytes (sv_best s), AnyBytes (rec_Value rec)]);
                    check = (\<lambda>s. (if int (length (sv_quorumPeers s)) = quorum
                                  then Some ErrSkipRemaining else None, s))
                in if idx = 0 then
                     check (if sv_best s = rec_Value rec
                            then s\<lparr>sv_quorumPeers := List.insert pid (sv_quorumPeers s)\<rparr> else s)
                   else if idx = 1 then
                     check (s\<lparr>sv_fixupPeers := sv_fixupPeers s @ sv_quorumPeers s,
                              sv_quorumPeers := [pid], sv_best := rec_Value rec,
                              sv_out := sv_out s @ [rec_Value rec]\<rparr>)
                   else if idx = -1 then (None, s)
                   else check s)))"

definition getQuorum :: "('w, 'm, 'b, 'z) Node_scheme \<Rightarrow> ropts \<Rightarrow> int" where
  "getQuorum N opts = (case ro_quorum opts of Some q \<Rightarrow> q | None \<Rightarrow> n_DefaultQuorum N)"

definition RoutingQuorum :: "int \<Rightarrow> ropts \<Rightarrow> goerr + ropts" where
  "RoutingQuorum n opts =
     (if n < 0 then Inl (Errorf ''quorum must not be negative'') else Inr (opts\<lparr>ro_quorum := Some n\<rparr>))"

text \<open>
  The values that are sent, and the record that is published to the stale peers (\<open>PublishStatic\<close>),
  if any.
\<close>

definition searchValueRoutine ::
  "('w, 'm, 'b, 'z) Node_scheme \<Rightarrow> 'w \<Rightarrow> ('w, 'm) Backend \<Rightarrow> bytes \<Rightarrow> bytes \<Rightarrow> ropts
     \<Rightarrow> bytes list \<times> (Message \<times> peer_id list) option \<times> 'w" where
  "searchValueRoutine N w backend ns path ropt =
     (let routing_key = newRoutingKey ns path;
          req = zero_Message\<lparr>msg_Type := Message_GET_VALUE, msg_Key := routing_key\<rparr>
      in case n_QueryMessage N w req (d_BucketSize N) of ((visits, qerr), w') \<Rightarrow>
           (case run_query (search_fn (Validate backend) path routing_key (getQuorum N ropt)) visits qerr
                   \<lparr>sv_best = [], sv_fixupPeers = [], sv_quorumPeers = [], sv_out = []\<rparr> of
              (Some err, s) \<Rightarrow> (sv_out s, None, w')
            | (None, s) \<Rightarrow>
                if length (sv_fixupPeers s) = 0 then (sv_out s, None, w')
                else
                  (sv_out s,
                   Some (zero_Message\<lparr>msg_Type := Message_PUT_VALUE, msg_Key := routing_key,
                           msg_Record := Some (n_MakePutRecord N routing_key (sv_best s))\<rparr>,
                         sv_fixupPeers s), w')))"

definition SearchValue ::
  "('w, 'm, 'b, 'z) Node_scheme \<Rightarrow> 'w \<Rightarrow> bytes \<Rightarrow> goerr + ropts
     \<Rightarrow> (goerr + bytes list) \<times> (Message \<times> peer_id list) option \<times> 'w" where
  "SearchValue N w keyStr opts =
     (case opts of
        Inl err \<Rightarrow> (Inl (Wrapf ''apply routing options'' err), None, w)
      | Inr rOpt \<Rightarrow>
          (case d_SplitKey N keyStr of
             Inl err \<Rightarrow> (Inl (Wrapf ''splitting key'' err), None, w)
           | Inr (ns, path) \<Rightarrow>
               (case map_of (d_backends N) ns of
                  None \<Rightarrow> (Inl ErrNotSupported, None, w)
                | Some b \<Rightarrow>
                    (case Fetch b w path of
                       (Inl err, w') \<Rightarrow>
                         if \<not> errors_Is err ErrNotFound then (Inl (Wrapf ''fetch from backend'' err), None, w')
                         else if ro_Offline rOpt then (Inl ErrRoutingNotFound, None, w')
                         else (case searchValueRoutine N w' b ns path rOpt of (out, fix, w'') \<Rightarrow> (Inr out, fix, w''))
                     | (Inr (AnyRecord rec), w') \<Rightarrow>
                         if ro_Offline rOpt then (Inr [rec_Value rec], None, w')
                         else
                           (case searchValueRoutine N w' b ns path rOpt of
                              (out, fix, w'') \<Rightarrow> (Inr (rec_Value rec # out), fix, w''))
                     | (Inr _, w') \<Rightarrow> (Inl (Errorf ''expected *recpb.Record from backend''), None, w')))))"

text \<open>\<open>ctx_err\<close> is \<open>ctx.Err()\<close> after the channel was drained.\<close>

definition GetValue ::
  "('w, 'm, 'b, 'z) Node_scheme \<Rightarrow> 'w \<Rightarrow> bytes \<Rightarrow> goerr + ropts \<Rightarrow> goerr option
     \<Rightarrow> (bytes \<times> goerr option) \<times> 'w" where
  "GetValue N w key opts ctx_err =
     (case SearchValue N w key opts of
        (Inl err, fix, w') \<Rightarrow> (([], Some err), w')
      | (Inr vals, fix, w') \<Rightarrow>
          (let best = (if vals = [] then [] else last vals)
           in case ctx_err of
                Some e \<Rightarrow> ((best, Some e), w')
              | None \<Rightarrow>
                  if best = [] then (([], Some ErrRoutingNotFound), w')
                  else ((best, None), w')))"

end
