(* ===== verification/RoutingProps.thy ===== *)
theory RoutingProps
  imports Routing RecordProps
begin

text \<open>
  What the lookups return: the providers found are the first distinct ones up to the requested
  count, a value search streams improving values and knows which peers hold the best one, and a
  peer is found exactly if it is connected or answers.
\<close>

section \<open>FindProviders\<close>

text \<open>The first occurrence of every identity, and the limit that a count asks for.\<close>

fun firsts :: "peer_id set \<Rightarrow> 'm addr_info list \<Rightarrow> 'm addr_info list" where
  "firsts seen [] = []"
| "firsts seen (p # ps) =
     (if ai_ID p \<in> seen then firsts seen ps else p # firsts (insert (ai_ID p) seen) ps)"

definition limit :: "int \<Rightarrow> 'a list \<Rightarrow> 'a list" where
  "limit cnt xs = (if cnt > 0 then take (nat cnt) xs else xs)"

lemma firsts_append:
  "firsts seen (xs @ ys) = firsts seen xs @ firsts (seen \<union> ai_ID ` set xs) ys"
  by (induction xs arbitrary: seen) (auto simp: insert_absorb)

lemma firsts_ids: "ai_ID ` set (firsts seen xs) = ai_ID ` set xs - seen"
  by (induction seen xs rule: firsts.induct) auto

lemma distinct_firsts: "distinct (map ai_ID (firsts seen xs))"
proof (induction seen xs rule: firsts.induct)
  case (2 seen p ps)
  then show ?case using firsts_ids [of "insert (ai_ID p) seen" ps] by (auto simp: image_iff)
qed simp

lemma set_firsts: "set (firsts seen xs) \<subseteq> set xs"
  by (induction seen xs rule: firsts.induct) auto

text \<open>The state of the closure: what was added are the first occurrences so far, below the count.\<close>

definition below :: "int \<Rightarrow> 'a list \<Rightarrow> bool" where
  "below cnt xs \<longleftrightarrow> cnt > 0 \<longrightarrow> int (length xs) < cnt"

lemma limit_below [simp]: "below cnt xs \<Longrightarrow> limit cnt xs = xs"
  by (auto simp: limit_def below_def)

lemma limit_append [simp]: "\<not> below cnt xs \<Longrightarrow> limit cnt (xs @ ys) = limit cnt xs"
  by (auto simp: limit_def below_def)

definition added :: "'m addr_info list \<Rightarrow> peer_id list \<times> 'm addr_info list \<Rightarrow> bool" where
  "added xs s \<longleftrightarrow> set (fst s) = ai_ID ` set xs \<and> snd s = firsts {} xs"

lemma added_step:
  assumes "added xs s"
  shows "(if ai_ID p \<in> set (fst s) then added (xs @ [p]) s
          else added (xs @ [p]) (ai_ID p # fst s, snd s @ [p]))"
  using assms by (auto simp: added_def firsts_append)

lemma contains_add_spec:
  assumes "added xs s" and "below cnt (snd s)" and "contains_add cnt ps s = (fin, s')"
  shows "snd s' = limit cnt (firsts {} (xs @ ps)) \<and>
         (fin \<longleftrightarrow> \<not> below cnt (firsts {} (xs @ ps))) \<and> (\<not> fin \<longrightarrow> added (xs @ ps) s' \<and> below cnt (snd s'))"
  using assms
proof (induction ps arbitrary: xs s)
  case Nil
  then show ?case by (auto simp: added_def limit_def below_def)
next
  case (Cons p ps)
  show ?case
  proof (cases "ai_ID p \<in> set (fst s)")
    case True
    then have "contains_add cnt ps s = (fin, s')"
      using Cons.prems(3) by (simp add: add_provider_def split: prod.splits)
    then show ?thesis
      using Cons.IH [of "xs @ [p]" s] added_step [OF Cons.prems(1), of p] True Cons.prems(2) by simp
  next
    case False
    let ?s = "(ai_ID p # fst s, snd s @ [p])"
    have add: "added (xs @ [p]) ?s" using added_step [OF Cons.prems(1), of p] False by simp
    then have fst: "firsts {} (xs @ [p]) = snd s @ [p]" by (simp add: added_def)
    show ?thesis
    proof (cases "below cnt (snd ?s)")
      case True
      then have "contains_add cnt ps ?s = (fin, s')"
        using Cons.prems(3) False by (auto simp: add_provider_def below_def split: prod.splits if_splits)
      then show ?thesis using Cons.IH [of "xs @ [p]" ?s] add True by simp
    next
      case stop: False
      then have "fin" "s' = ?s" and cnt: "cnt > 0" "int (length (snd ?s)) = cnt"
        using Cons.prems(2,3) False by (auto simp: add_provider_def below_def split: prod.splits if_splits)
      moreover obtain R where R: "firsts {} (xs @ p # ps) = (snd s @ [p]) @ R"
        using firsts_append [of "{}" "xs @ [p]" ps] fst by simp
      moreover have nb: "\<not> below cnt (snd s @ [p])" using stop by simp
      moreover have "limit cnt (snd s @ [p]) = snd s @ [p]"
        using cnt by (auto simp: limit_def)
      moreover have "\<not> below cnt ((snd s @ [p]) @ R)"
        using nb by (auto simp: below_def)
      ultimately show ?thesis by (simp only: R limit_append [OF nb]) simp
    qed
  qed
qed

abbreviation responses :: "'m ma_lib \<Rightarrow> visit list \<Rightarrow> 'm addr_info list" where
  "responses L visits \<equiv> concat (map (\<lambda>v. ProviderAddrInfos L (snd v)) visits)"

lemma find_providers_fn_step:
  "find_providers_fn L cnt (st, log) (node, resp) =
     (case contains_add cnt (ProviderAddrInfos L resp) st of (fin, st') \<Rightarrow>
        (if fin then Some ErrSkipRemaining else None, (st', log @ [node])))"
  by (simp add: find_providers_fn_def)

lemma find_providers_run:
  assumes "added xs (fst s)" and "below cnt (snd (fst s))"
    and "run_query (find_providers_fn L cnt) visits qerr s = (err, s')"
  shows "(err = None \<longrightarrow> snd (fst s') = limit cnt (firsts {} (xs @ responses L visits))) \<and>
         (err \<noteq> None \<longrightarrow> err = qerr)"
  using assms
proof (induction visits arbitrary: xs s)
  case Nil
  then show ?case by (auto simp: added_def limit_def below_def)
next
  case (Cons v visits)
  obtain st log node resp where sv: "s = (st, log)" "v = (node, resp)" by (cases s; cases v)
  obtain fin st' where c: "contains_add cnt (ProviderAddrInfos L resp) st = (fin, st')"
    by (cases "contains_add cnt (ProviderAddrInfos L resp) st")
  have spec: "snd st' = limit cnt (firsts {} (xs @ ProviderAddrInfos L resp))"
    "fin \<longleftrightarrow> \<not> below cnt (firsts {} (xs @ ProviderAddrInfos L resp))"
    "\<not> fin \<longrightarrow> added (xs @ ProviderAddrInfos L resp) st' \<and> below cnt (snd st')"
    using contains_add_spec [OF _ _ c, of xs] Cons.prems(1,2) sv by simp_all
  show ?case
  proof (cases fin)
    case False
    then have "run_query (find_providers_fn L cnt) visits qerr (st', log @ [node]) = (err, s')"
      using Cons.prems(3) c by (simp add: sv find_providers_fn_step)
    then show ?thesis
      using Cons.IH [of "xs @ ProviderAddrInfos L resp" "(st', log @ [node])"] spec(3) False sv by simp
  next
    case True
    then have "err = None" "fst s' = st'"
      using Cons.prems(3) c by (auto simp: sv find_providers_fn_step)
    moreover have "limit cnt (firsts {} (xs @ responses L (v # visits))) =
        limit cnt (firsts {} (xs @ ProviderAddrInfos L resp))"
      using spec(2) True firsts_append [of "{}" "xs @ ProviderAddrInfos L resp" "responses L visits"]
      by (simp add: sv)
    ultimately show ?thesis using spec(1) by simp
  qed
qed

text \<open>The providers that the backend knows: none where it finds nothing.\<close>

definition local_providers :: "goerr + 'm any \<Rightarrow> 'm addr_info list \<Rightarrow> bool" where
  "local_providers fetched loc \<longleftrightarrow>
     (\<exists>ps. fetched = Inr (AnyProviderSetPtr ps) \<and> loc = providers ps) \<or>
     (\<exists>e. fetched = Inl e \<and> errors_Is e ErrNotFound \<and> loc = [])"

lemma find_providers_local:
  assumes "map_of (d_backends N) namespaceProviders = Some b" and "cid_Defined c"
    and "Fetch b w (cid_Hash c) = (fetched, w1)" and "local_providers fetched loc"
  shows "FindProvidersProgress N w c cnt =
     (case contains_add cnt loc ([], []) of (fin, st) \<Rightarrow>
        if fin then (Inr (snd st), [], w1)
        else
          (case n_QueryMessage N w1 (zero_Message\<lparr>msg_Type := Message_GET_PROVIDERS, msg_Key := cid_Hash c\<rparr>)
                  (d_BucketSize N) of ((visits, qerr), w2) \<Rightarrow>
             (case run_query (find_providers_fn (d_ma N) cnt) visits qerr (st, []) of
                (Some err, (st', log)) \<Rightarrow> (Inl (Wrapf ''failed to run query'' err), log, w2)
              | (None, (st', log)) \<Rightarrow> (Inr (snd st'), log, w2))))"
proof -
  from assms(4) consider ps where "fetched = Inr (AnyProviderSetPtr ps)" "loc = providers ps"
    | e where "fetched = Inl e" "errors_Is e ErrNotFound" "loc = []"
    by (auto simp: local_providers_def)
  then show ?thesis
    by cases (simp_all add: FindProvidersProgress_def assms(1-3) Let_def split: prod.split)
qed

section \<open>The value search\<close>

text \<open>A peer that answered with a value for the key, and the value streamed before the \<open>i\<close>-th.\<close>

definition answered :: "bytes \<Rightarrow> visit list \<Rightarrow> peer_id \<Rightarrow> bytes \<Rightarrow> bool" where
  "answered rk visits p v \<longleftrightarrow>
     (\<exists>m r. (p, Some m) \<in> set visits \<and> msg_Record m = Some r \<and> rec_Key r = rk \<and> rec_Value r = v)"

definition preferred :: "(bytes \<Rightarrow> 'm any list \<Rightarrow> goerr + int) \<Rightarrow> bytes \<Rightarrow> bytes \<Rightarrow> bytes \<Rightarrow> bool" where
  "preferred validate path old new \<longleftrightarrow> idx_of (validate path [AnyBytes old, AnyBytes new]) = 1"

fun improving :: "(bytes \<Rightarrow> 'm any list \<Rightarrow> goerr + int) \<Rightarrow> bytes \<Rightarrow> bytes \<Rightarrow> bytes list \<Rightarrow> bool" where
  "improving validate path old [] = True"
| "improving validate path old (v # vs) = (preferred validate path old v \<and> improving validate path v vs)"

lemma improving_snoc:
  "improving validate path old (vs @ [v]) \<longleftrightarrow>
     improving validate path old vs \<and> preferred validate path (last (old # vs)) v"
  by (induction vs arbitrary: old) auto

definition sv_inv ::
  "(bytes \<Rightarrow> 'm any list \<Rightarrow> goerr + int) \<Rightarrow> bytes \<Rightarrow> bytes \<Rightarrow> visit list \<Rightarrow> search_state \<Rightarrow> bool" where
  "sv_inv validate path rk seen s \<longleftrightarrow>
     sv_best s = last ([] # sv_out s) \<and> improving validate path [] (sv_out s) \<and>
     (sv_out s \<noteq> [] \<longrightarrow> sv_quorumPeers s \<noteq> []) \<and>
     (\<forall>v \<in> set (sv_out s). \<exists>p. answered rk seen p v) \<and>
     distinct (sv_quorumPeers s) \<and> (\<forall>p \<in> set (sv_quorumPeers s). answered rk seen p (sv_best s)) \<and>
     (\<forall>p \<in> set (sv_fixupPeers s). \<exists>v \<in> set (butlast ([] # sv_out s)). answered rk seen p v)"

lemma answered_mono: "answered rk seen p v \<Longrightarrow> answered rk (seen @ later) p v"
  by (auto simp: answered_def)

lemma sv_inv_mono: "sv_inv validate path rk seen s \<Longrightarrow> sv_inv validate path rk (seen @ later) s"
  unfolding sv_inv_def using answered_mono by blast

lemma sv_inv_same:
  assumes "sv_inv validate path rk seen s" and "answered rk seen p (sv_best s)"
  shows "sv_inv validate path rk seen (s\<lparr>sv_quorumPeers := List.insert p (sv_quorumPeers s)\<rparr>)"
  using assms by (auto simp: sv_inv_def List.insert_def simp del: last.simps butlast.simps)

lemma sv_inv_better:
  assumes "sv_inv validate path rk seen s" and "answered rk seen p v"
    and "preferred validate path (sv_best s) v"
  shows "sv_inv validate path rk seen (s\<lparr>sv_fixupPeers := sv_fixupPeers s @ sv_quorumPeers s,
           sv_quorumPeers := [p], sv_best := v, sv_out := sv_out s @ [v]\<rparr>)"
proof -
  have inv: "sv_best s = last ([] # sv_out s)" "improving validate path [] (sv_out s)"
    "\<forall>v \<in> set (sv_out s). \<exists>p. answered rk seen p v"
    "\<forall>p \<in> set (sv_quorumPeers s). answered rk seen p (sv_best s)"
    "\<forall>p \<in> set (sv_fixupPeers s). \<exists>v \<in> set (butlast ([] # sv_out s)). answered rk seen p v"
    using assms(1) unfolding sv_inv_def by blast+
  have but: "butlast ([] # sv_out s @ [v]) = [] # sv_out s" by simp
  have "sv_best s \<in> set ([] # sv_out s)" unfolding inv(1) by (rule last_in_set) simp
  then have "\<forall>p \<in> set (sv_fixupPeers s @ sv_quorumPeers s). \<exists>u \<in> set ([] # sv_out s). answered rk seen p u"
    using inv(4,5) in_set_butlastD [of _ "[] # sv_out s"] by (metis Un_iff set_append)
  moreover have "improving validate path [] (sv_out s @ [v])"
    using inv(1,2) assms(3) by (simp only: improving_snoc)
  ultimately show ?thesis
    using inv(3) assms(2) unfolding sv_inv_def by (auto simp: but simp del: butlast.simps)
qed

lemma search_fn_inv:
  assumes "sv_inv validate path rk seen s" and "search_fn validate path rk quorum s v = (e, s')"
  shows "sv_inv validate path rk (seen @ [v]) s' \<and>
         (e = None \<or> e = Some ErrSkipRemaining \<and> int (length (sv_quorumPeers s')) = quorum)"
proof -
  have inv: "sv_inv validate path rk (seen @ [v]) s" by (rule sv_inv_mono [OF assms(1)])
  obtain p resp where v: "v = (p, resp)" by (cases v)
  show ?thesis
  proof (cases "\<exists>m r. resp = Some m \<and> msg_Record m = Some r \<and> rec_Key r = rk")
    case False
    then show ?thesis
      using assms(2) inv by (auto simp: search_fn_def v split: option.splits)
  next
    case True
    then obtain m r where r: "resp = Some m" "msg_Record m = Some r" "rec_Key r = rk" by blast
    have ans: "answered rk (seen @ [v]) p (rec_Value r)"
      using r by (auto simp: answered_def v)
    let ?idx = "idx_of (validate path [AnyBytes (sv_best s), AnyBytes (rec_Value r)])"
    note better = sv_inv_better [OF inv ans]
    note same = sv_inv_same [OF inv, of p]
    show ?thesis
      using assms(2) inv ans better same
      by (auto simp: search_fn_def v r Let_def preferred_def split: if_splits)
  qed
qed

text \<open>Where no value is acceptable that is empty, the walk is not cut short before a value was streamed.\<close>

definition no_empty :: "(bytes \<Rightarrow> 'm any list \<Rightarrow> goerr + int) \<Rightarrow> bytes \<Rightarrow> bool" where
  "no_empty validate path \<longleftrightarrow> (\<forall>b. idx_of (validate path [AnyBytes [], AnyBytes b]) \<in> {-1, 1})"

lemma search_fn_stop:
  assumes "sv_best s = last ([] # sv_out s)" "no_empty validate path"
    and "search_fn validate path rk quorum s v = (Some e, s')"
  shows "sv_out s' \<noteq> []"
proof (cases "sv_out s")
  case Nil
  obtain p resp where v: "v = (p, resp)" by (cases v)
  then obtain m r where r: "resp = Some m" "msg_Record m = Some r" "rec_Key r = rk"
    using assms(3) by (auto simp: search_fn_def split: option.splits if_splits)
  have "idx_of (validate path [AnyBytes (sv_best s), AnyBytes (rec_Value r)]) \<in> {-1, 1}"
    using assms(1,2) Nil by (simp add: no_empty_def)
  then show ?thesis using assms(3) r by (auto simp: search_fn_def v Let_def split: if_splits)
next
  case (Cons u us)
  then show ?thesis using assms(3)
    by (auto simp: search_fn_def Let_def split: option.splits prod.splits if_splits)
qed

lemma search_run_inv:
  assumes "sv_inv validate path rk seen s"
    and "run_query (search_fn validate path rk quorum) visits qerr s = (err, s')"
  shows "\<exists>pre. prefix pre visits \<and> sv_inv validate path rk (seen @ pre) s' \<and>
           (if pre = visits then err = qerr \<or> err = None \<and> int (length (sv_quorumPeers s')) = quorum
            else err = None \<and> int (length (sv_quorumPeers s')) = quorum \<and>
                 (no_empty validate path \<longrightarrow> sv_out s' \<noteq> []))"
  using assms
proof (induction visits arbitrary: seen s)
  case Nil
  then show ?case by auto
next
  case (Cons v visits)
  obtain e s1 where f: "search_fn validate path rk quorum s v = (e, s1)"
    by (cases "search_fn validate path rk quorum s v")
  note inv = search_fn_inv [OF Cons.prems(1) f]
  show ?case
  proof (cases e)
    case None
    then have "run_query (search_fn validate path rk quorum) visits qerr s1 = (err, s')"
      using Cons.prems(2) f by simp
    from Cons.IH [OF _ this, of "seen @ [v]"] inv obtain pre where
      "prefix pre visits" "sv_inv validate path rk ((seen @ [v]) @ pre) s'"
      "if pre = visits then err = qerr \<or> err = None \<and> int (length (sv_quorumPeers s')) = quorum
       else err = None \<and> int (length (sv_quorumPeers s')) = quorum \<and>
         (no_empty validate path \<longrightarrow> sv_out s' \<noteq> [])"
      by blast
    then show ?thesis by (intro exI [of _ "v # pre"]) simp
  next
    case (Some x)
    then have "err = None" "s' = s1" "int (length (sv_quorumPeers s')) = quorum"
      using Cons.prems(2) f inv by auto
    moreover have "no_empty validate path \<longrightarrow> sv_out s' \<noteq> []"
      using search_fn_stop f Some \<open>s' = s1\<close> Cons.prems(1) unfolding sv_inv_def by metis
    ultimately show ?thesis using inv by (intro exI [of _ "[v]"]) simp
  qed
qed

text \<open>What is known locally when the search starts.\<close>

definition local_values :: "goerr + 'm any \<Rightarrow> bytes list \<Rightarrow> bool" where
  "local_values fetched loc \<longleftrightarrow>
     (\<exists>r. fetched = Inr (AnyRecord r) \<and> loc = [rec_Value r]) \<or>
     (\<exists>e. fetched = Inl e \<and> errors_Is e ErrNotFound \<and> loc = [])"

lemma search_value_local:
  assumes "d_SplitKey N key = Inr (ns, path)" "map_of (d_backends N) ns = Some b"
    and "\<not> ro_Offline ropt" "Fetch b w path = (fetched, w1)" "local_values fetched loc"
  shows "SearchValue N w key (Inr ropt) =
     (case searchValueRoutine N w1 b ns path ropt of (out, fx, w2) \<Rightarrow> (Inr (loc @ out), fx, w2))"
proof -
  from assms(5) consider r where "fetched = Inr (AnyRecord r)" "loc = [rec_Value r]"
    | e where "fetched = Inl e" "errors_Is e ErrNotFound" "loc = []"
    by (auto simp: local_values_def)
  then show ?thesis
    by cases (simp_all add: SearchValue_def assms(1-4) Let_def split: prod.split)
qed

lemma improving_mem:
  "improving validate path old vs \<Longrightarrow> v \<in> set vs \<Longrightarrow> \<exists>u. preferred validate path u v"
  by (induction vs arbitrary: old) auto

text \<open>A message for the peers that answered with a value that is superseded by now.\<close>

definition updates_stale ::
  "('w, 'm, 'b, 'z) Node_scheme \<Rightarrow> bytes \<Rightarrow> visit list \<Rightarrow> bytes list \<Rightarrow> (Message \<times> peer_id list) option \<Rightarrow> bool" where
  "updates_stale N rk seen vs fx \<longleftrightarrow>
     (case fx of
        None \<Rightarrow> True
      | Some (m, peers) \<Rightarrow>
          peers \<noteq> [] \<and> msg_Type m = Message_PUT_VALUE \<and> msg_Key m = rk \<and>
          msg_Record m = Some (n_MakePutRecord N rk (last ([] # vs))) \<and>
          (\<forall>p \<in> set peers. \<exists>v \<in> set (butlast ([] # vs)). answered rk seen p v))"

definition quorum_reached :: "bytes \<Rightarrow> visit list \<Rightarrow> bytes \<Rightarrow> int \<Rightarrow> bool" where
  "quorum_reached rk seen v quorum \<longleftrightarrow>
     (\<exists>Q. distinct Q \<and> int (length Q) = quorum \<and> (\<forall>p \<in> set Q. answered rk seen p v))"

lemma sv_inv_init:
  "sv_inv validate path rk [] \<lparr>sv_best = [], sv_fixupPeers = [], sv_quorumPeers = [], sv_out = []\<rparr>"
  by (simp add: sv_inv_def)

lemma search_routine_stream:
  assumes query: "n_QueryMessage N w (zero_Message\<lparr>msg_Type := Message_GET_VALUE, msg_Key := newRoutingKey ns path\<rparr>)
                  (d_BucketSize N) = ((visits, qerr), w1)"
    and res: "searchValueRoutine N w b ns path ropt = (vs, fx, w')"
  shows "\<exists>pre. prefix pre visits \<and> improving (Validate b) path [] vs \<and>
           (\<forall>v \<in> set vs. \<exists>p. answered (newRoutingKey ns path) pre p v) \<and>
           (pre \<noteq> visits \<longrightarrow> quorum_reached (newRoutingKey ns path) pre (last ([] # vs)) (getQuorum N ropt) \<and>
              (no_empty (Validate b) path \<longrightarrow> 0 < getQuorum N ropt)) \<and>
           updates_stale N (newRoutingKey ns path) pre vs fx"
proof -
  let ?rk = "newRoutingKey ns path"
  let ?s0 = "\<lparr>sv_best = [], sv_fixupPeers = [], sv_quorumPeers = [], sv_out = []\<rparr>"
  obtain err s where run:
    "run_query (search_fn (Validate b) path ?rk (getQuorum N ropt)) visits qerr ?s0 = (err, s)"
    by (cases "run_query (search_fn (Validate b) path ?rk (getQuorum N ropt)) visits qerr ?s0")
  obtain pre where pre: "prefix pre visits" "sv_inv (Validate b) path ?rk pre s"
    "pre \<noteq> visits \<longrightarrow> int (length (sv_quorumPeers s)) = getQuorum N ropt \<and>
       (no_empty (Validate b) path \<longrightarrow> sv_out s \<noteq> [])"
    using search_run_inv [OF sv_inv_init run] by (auto split: if_splits)
  have vs: "vs = sv_out s" "fx = None \<or> fx = Some (zero_Message\<lparr>msg_Type := Message_PUT_VALUE,
      msg_Key := ?rk, msg_Record := Some (n_MakePutRecord N ?rk (sv_best s))\<rparr>, sv_fixupPeers s) \<and>
      sv_fixupPeers s \<noteq> []"
    using res by (auto simp: searchValueRoutine_def query run Let_def split: option.splits if_splits)
  have "updates_stale N ?rk pre vs fx"
    using vs pre(2) unfolding updates_stale_def sv_inv_def by (auto simp del: last.simps butlast.simps)
  moreover have "pre \<noteq> visits \<longrightarrow> quorum_reached ?rk pre (last ([] # vs)) (getQuorum N ropt)"
    using pre(2,3) unfolding quorum_reached_def vs(1) sv_inv_def by metis
  moreover have "0 < getQuorum N ropt" if "pre \<noteq> visits" "no_empty (Validate b) path"
    using pre(2,3) that unfolding sv_inv_def by (metis length_greater_0_conv of_nat_0_less_iff)
  moreover have "improving (Validate b) path [] vs" "\<forall>v \<in> set vs. \<exists>p. answered ?rk pre p v"
    using pre(2) unfolding vs(1) sv_inv_def by blast+
  ultimately show ?thesis using pre(1) by blast
qed

text \<open>A search in which every record that comes back holds the same value.\<close>

definition only_value :: "bytes \<Rightarrow> bytes \<Rightarrow> visit list \<Rightarrow> bool" where
  "only_value rk v visits \<longleftrightarrow> (\<forall>p u. answered rk visits p u \<longrightarrow> u = v)"

lemma answered_Cons: "answered rk (x # visits) p v \<longleftrightarrow> answered rk [x] p v \<or> answered rk visits p v"
  by (auto simp: answered_def)

lemma only_value_Cons: "only_value rk v (x # visits) \<Longrightarrow> only_value rk v [x] \<and> only_value rk v visits"
  by (auto simp: only_value_def answered_def)

lemma search_fn_same:
  assumes "only_value rk v [x]" "set (sv_out s) \<subseteq> {v}" "sv_best s = last ([] # sv_out s)"
    and "preferred validate path [] v" "search_fn validate path rk quorum s x = (e, s')"
  shows "set (sv_out s') \<subseteq> {v} \<and> sv_best s' = last ([] # sv_out s') \<and>
         (sv_out s \<noteq> [] \<longrightarrow> sv_out s' \<noteq> []) \<and> ((\<exists>p. answered rk [x] p v) \<longrightarrow> sv_out s' \<noteq> []) \<and>
         (e \<noteq> None \<longrightarrow> sv_out s' \<noteq> [])"
proof -
  obtain p resp where x: "x = (p, resp)" by (cases x)
  show ?thesis
  proof (cases "\<exists>m r. resp = Some m \<and> msg_Record m = Some r \<and> rec_Key r = rk")
    case False
    then have "e = None \<and> s' = s" using assms(5) by (auto simp: search_fn_def x split: option.splits)
    moreover have "\<not> answered rk [x] q v" for q using False by (auto simp: answered_def x)
    ultimately show ?thesis using assms(2,3) by blast
  next
    case True
    then obtain m r where r: "resp = Some m" "msg_Record m = Some r" "rec_Key r = rk" by blast
    then have "answered rk [x] p (rec_Value r)" by (auto simp: answered_def x)
    then have v: "rec_Value r = v" using assms(1) by (auto simp: only_value_def)
    show ?thesis
    proof (cases "sv_out s")
      case Nil
      then have "idx_of (validate path [AnyBytes (sv_best s), AnyBytes v]) = 1"
        using assms(3,4) by (simp add: preferred_def)
      then show ?thesis using assms(5) r v Nil by (auto simp: search_fn_def x Let_def split: if_splits)
    next
      case (Cons u us)
      have keep: "sv_out s' = sv_out s \<and> sv_best s' = sv_best s \<or> sv_out s' = sv_out s @ [v] \<and> sv_best s' = v"
        using assms(5) r v by (auto simp: search_fn_def x Let_def split: if_splits)
      then have "sv_best s' = last ([] # sv_out s')"
        using assms(3) Cons by (elim disjE) simp_all
      moreover have "set (sv_out s') \<subseteq> {v}" using keep assms(2) by auto
      moreover have "sv_out s' \<noteq> []" using keep Cons by auto
      ultimately show ?thesis by blast
    qed
  qed
qed

lemma search_run_same:
  assumes "only_value rk v visits" "set (sv_out s) \<subseteq> {v}" "sv_best s = last ([] # sv_out s)"
    and "preferred validate path [] v" "run_query (search_fn validate path rk quorum) visits qerr s = (e, s')"
  shows "set (sv_out s') \<subseteq> {v} \<and>
         (sv_out s \<noteq> [] \<or> (\<exists>p. answered rk visits p v) \<longrightarrow> sv_out s' \<noteq> [])"
  using assms(1-3,5)
proof (induction visits arbitrary: s)
  case Nil
  then show ?case by (auto simp: answered_def)
next
  case (Cons x visits)
  obtain r s1 where f: "search_fn validate path rk quorum s x = (r, s1)"
    by (cases "search_fn validate path rk quorum s x")
  note ov = only_value_Cons [OF Cons.prems(1)]
  note st = search_fn_same [OF conjunct1 [OF ov] Cons.prems(2,3) assms(4) f]
  have split: "(\<exists>p. answered rk (x # visits) p v) \<longleftrightarrow> (\<exists>p. answered rk [x] p v) \<or> (\<exists>p. answered rk visits p v)"
    using answered_Cons by metis
  show ?case
  proof (cases r)
    case None
    then have "run_query (search_fn validate path rk quorum) visits qerr s1 = (e, s')"
      using Cons.prems(4) f by simp
    then show ?thesis using Cons.IH [OF conjunct2 [OF ov], of s1] st split by blast
  next
    case (Some err)
    then have "s' = s1" using Cons.prems(4) f by (simp split: if_splits)
    then show ?thesis using st Some by blast
  qed
qed

lemma get_value_found:
  assumes key: "d_SplitKey F key = Inr (ns, path)" "map_of (d_backends F) ns = Some b" and opts: "\<not> ro_Offline ropt"
    and fetch: "Fetch b w path = (fetched, w1)" "local_values fetched loc"
    and query: "n_QueryMessage F w1 (zero_Message\<lparr>msg_Type := Message_GET_VALUE, msg_Key := newRoutingKey ns path\<rparr>)
                  (d_BucketSize F) = ((visits, qerr), w2)"
    and seen: "answered (newRoutingKey ns path) visits p v" "only_value (newRoutingKey ns path) v visits"
    and valid: "preferred (Validate b) path [] v" "v \<noteq> []"
  shows "\<exists>vs fx w'. SearchValue F w key (Inr ropt) = (Inr (loc @ vs), fx, w') \<and> vs \<noteq> [] \<and> set vs \<subseteq> {v}"
    and "fst (GetValue F w key (Inr ropt) None) = (v, None)"
proof -
  let ?rk = "newRoutingKey ns path"
  let ?s0 = "\<lparr>sv_best = [], sv_fixupPeers = [], sv_quorumPeers = [], sv_out = []\<rparr>"
  obtain err s where run: "run_query (search_fn (Validate b) path ?rk (getQuorum F ropt)) visits qerr ?s0 = (err, s)"
    by (cases "run_query (search_fn (Validate b) path ?rk (getQuorum F ropt)) visits qerr ?s0")
  have s: "set (sv_out s) \<subseteq> {v}" "sv_out s \<noteq> []"
    using search_run_same [OF seen(2) _ _ valid(1) run] seen(1) by auto
  have "\<exists>fx w'. searchValueRoutine F w1 b ns path ropt = (sv_out s, fx, w')"
    using run query by (cases err) (simp_all add: searchValueRoutine_def Let_def)
  then obtain fx w' where "searchValueRoutine F w1 b ns path ropt = (sv_out s, fx, w')" by blast
  then have search: "SearchValue F w key (Inr ropt) = (Inr (loc @ sv_out s), fx, w')"
    using search_value_local [OF key opts fetch] by simp
  have "last (loc @ sv_out s) = v" using s last_in_set [OF s(2)] by (metis last_appendR singletonD subsetD)
  then show "fst (GetValue F w key (Inr ropt) None) = (v, None)"
    using search s(2) valid(2) by (simp add: GetValue_def Let_def)
  show "\<exists>vs fx w'. SearchValue F w key (Inr ropt) = (Inr (loc @ vs), fx, w') \<and> vs \<noteq> [] \<and> set vs \<subseteq> {v}"
    using search s by blast
qed

section \<open>A concrete node\<close>

text \<open>The demonstration node with one peer on the network that knows a provider and a record.\<close>

definition demo_node :: "(nat, bytes, bytes) Node" where
  "demo_node =
     \<lparr>d_self = ''self'', d_BucketSize = 20, d_hash = demo_hash, d_ma = demo_ma,
      d_NearestNodes = (\<lambda>w k n. []), d_PeerInfo = (\<lambda>w p. \<lparr>ai_ID = p, ai_Addrs = [''a'']\<rparr>),
      d_NotifyConnectivity = (\<lambda>w p. w), d_SplitKey = (\<lambda>k. Inr (''pk'', ''n'')),
      d_backends = [(''providers'', count_backend)],
      n_Connected = (\<lambda>w p. False), n_HostAddrs = [''h''],
      n_QueryClosest = (\<lambda>w k n. (([(''x'', None), (''t'', None), (''y'', None)], None), w)),
      n_QueryMessage = (\<lambda>w m n. (([(''x'', Some (m\<lparr>msg_ProviderPeers :=
         [\<lparr>mp_Id = ''p'', mp_Addrs = [''b''], mp_Connection = 0\<rparr>]\<rparr>))], None), w)),
      n_Publish = (\<lambda>w m. (Inr 1, w)), n_provideKeys_Add = None,
      n_MakePutRecord = (\<lambda>k v. \<lparr>rec_Key = k, rec_Value = v, rec_TimeReceived = []\<rparr>),
      n_Format_now = (\<lambda>w. []), n_DefaultQuorum = 0\<rparr>"

text \<open>
  A node that keeps records in a value backend; the only peer that answers has a shorter, thus
  worse, record.
\<close>

definition value_backend :: "(mem_ds RecordBackend, bytes) Backend" where
  "value_backend =
     \<lparr>Store = rb_Store mem_rec_env 1000, Fetch = rb_Fetch mem_rec_env 1000,
      Validate = rb_Validate len_validator ''ipns''\<rparr>"

definition value_node :: "(mem_ds RecordBackend, bytes, bytes) Node" where
  "value_node =
     \<lparr>d_self = ''self'', d_BucketSize = 20, d_hash = demo_hash, d_ma = demo_ma,
      d_NearestNodes = (\<lambda>w k n. []), d_PeerInfo = (\<lambda>w p. \<lparr>ai_ID = p, ai_Addrs = []\<rparr>),
      d_NotifyConnectivity = (\<lambda>w p. w), d_SplitKey = (\<lambda>k. Inr (''ipns'', ''n'')),
      d_backends = [(''ipns'', value_backend)],
      n_Connected = (\<lambda>w p. False), n_HostAddrs = [],
      n_QueryClosest = (\<lambda>w k n. (([], None), w)),
      n_QueryMessage = (\<lambda>w m n. (([(''x'', Some (m\<lparr>msg_Record :=
         Some \<lparr>rec_Key = msg_Key m, rec_Value = ''b'', rec_TimeReceived = []\<rparr>\<rparr>))], None), w)),
      n_Publish = (\<lambda>w m. (Inr 1, w)), n_provideKeys_Add = None,
      n_MakePutRecord = (\<lambda>k v. \<lparr>rec_Key = k, rec_Value = v, rec_TimeReceived = []\<rparr>),
      n_Format_now = (\<lambda>w. time_Format mem_rec_env 1000), n_DefaultQuorum = 0\<rparr>"

section \<open>The walk to a peer\<close>

lemma find_peer_run:
  assumes "pid \<notin> set log" "pid \<noteq> found"
  shows "run_query (find_peer_fn pid) visits qerr (found, log) =
     (if pid \<in> fst ` set visits
      then (None, (pid, log @ takeWhile (\<lambda>p. p \<noteq> pid) (map fst visits) @ [pid]))
      else (qerr, (found, log @ map fst visits)))"
  using assms
proof (induction visits arbitrary: log)
  case (Cons v visits)
  obtain p m where v: "v = (p, m)" by (cases v)
  show ?case
    using Cons.IH [of "log @ [p]"] Cons.prems
    by (cases "p = pid") (auto simp: v find_peer_fn_def)
qed simp

section \<open>The result of FindProviders\<close>

lemma find_providers_result:
  assumes b: "map_of (d_backends N) namespaceProviders = Some b" "cid_Defined c"
    and fetch: "Fetch b w (cid_Hash c) = (fetched, w1)" "local_providers fetched loc"
    and query: "n_QueryMessage N w1 (zero_Message\<lparr>msg_Type := Message_GET_PROVIDERS, msg_Key := cid_Hash c\<rparr>)
                  (d_BucketSize N) = ((visits, qerr), w2)"
  shows "case FindProviders N w c cnt of
           (Inr out, w') \<Rightarrow>
             out = limit cnt (firsts {} (loc @ responses (d_ma N) visits)) \<and>
             w' = (if below cnt (firsts {} loc) then w2 else w1)
         | (Inl e, w') \<Rightarrow>
             below cnt (firsts {} loc) \<and> (\<exists>q. qerr = Some q \<and> e = Wrapf ''failed to run query'' q)"
proof -
  obtain fin st where c: "contains_add cnt loc ([], []) = (fin, st)" by (cases "contains_add cnt loc ([], [])")
  have init: "added [] ([], [])" by (simp add: added_def)
  show ?thesis
  proof (cases "below cnt ([] :: 'b addr_info list)")
    case False
    then show ?thesis by (simp add: below_def)
  next
    case True
    have spec: "snd st = limit cnt (firsts {} loc)" "fin \<longleftrightarrow> \<not> below cnt (firsts {} loc)"
      "\<not> fin \<longrightarrow> added loc st \<and> below cnt (snd st)"
      using contains_add_spec [OF init _ c] True by simp_all
    show ?thesis
    proof (cases fin)
      case True
      then show ?thesis
        using spec firsts_append [of "{}" loc]
        by (simp add: FindProviders_def find_providers_local [OF b fetch] c)
    next
      case False
      obtain err s' where run: "run_query (find_providers_fn (d_ma N) cnt) visits qerr (st, []) = (err, s')"
        by (cases "run_query (find_providers_fn (d_ma N) cnt) visits qerr (st, [])")
      have "(err = None \<longrightarrow> snd (fst s') = limit cnt (firsts {} (loc @ responses (d_ma N) visits))) \<and>
          (err \<noteq> None \<longrightarrow> err = qerr)"
        using find_providers_run [OF _ _ run, of loc] spec(3) False by simp
      then show ?thesis
        using False spec(2) query
        by (cases err; cases s')
           (auto simp: FindProviders_def find_providers_local [OF b fetch] c run)
    qed
  qed
qed

section \<open>Properties\<close>

text \<open>
  C26: FindProviders returns the first distinct providers up to the requested count (all of them
  where the count is not positive), those known locally before those of the network in the order in
  which the nodes responded; it fails only if the count was not reached and the query failed.
\<close>
theorem find_providers_exact:
  assumes b: "map_of (d_backends N) namespaceProviders = Some b" "cid_Defined c"
    and fetch: "Fetch b w (cid_Hash c) = (fetched, w1)" "local_providers fetched loc"
    and query: "n_QueryMessage N w1 (zero_Message\<lparr>msg_Type := Message_GET_PROVIDERS, msg_Key := cid_Hash c\<rparr>)
                  (d_BucketSize N) = ((visits, qerr), w2)"
  shows "case FindProviders N w c cnt of
           (Inr out, w') \<Rightarrow>
             out = limit cnt (firsts {} (loc @ responses (d_ma N) visits)) \<and>
             w' = (if below cnt (firsts {} loc) then w2 else w1)
         | (Inl e, w') \<Rightarrow>
             below cnt (firsts {} loc) \<and> (\<exists>q. qerr = Some q \<and> e = Wrapf ''failed to run query'' q)"
  by (rule find_providers_result [OF assms])

lemma find_providers_exact_witness:
  "fst (FindProviders demo_node 0 \<lparr>cid_Defined = True, cid_Hash = ''k''\<rparr> 3) = Inr [\<lparr>ai_ID = ''p'', ai_Addrs = [''b'']\<rparr>]"
proof -
  let ?c = "\<lparr>cid_Defined = True, cid_Hash = ''k''\<rparr>"
  have b: "map_of (d_backends demo_node) namespaceProviders = Some count_backend"
    by (simp add: demo_node_def namespaceProviders_def)
  have f: "Fetch count_backend 0 (cid_Hash ?c) = (Inl ErrNotFound, 0)" by (simp add: count_backend_def)
  have l: "local_providers (Inl ErrNotFound) []" by (simp add: local_providers_def)
  let ?m = "zero_Message\<lparr>msg_Type := Message_GET_PROVIDERS, msg_Key := cid_Hash ?c\<rparr>"
  let ?v = "[(''x'', Some (?m\<lparr>msg_ProviderPeers := [\<lparr>mp_Id = ''p'', mp_Addrs = [''b''], mp_Connection = 0\<rparr>]\<rparr>))]"
  have q: "n_QueryMessage demo_node 0 ?m (d_BucketSize demo_node) = ((?v, None), 0)"
    by (simp add: demo_node_def)
  have "d_ma demo_node = demo_ma" by (simp add: demo_node_def)
  then have "responses (d_ma demo_node) ?v = [\<lparr>ai_ID = ''p'', ai_Addrs = [''b'']\<rparr>]"
    by (simp add: ProviderAddrInfos_def peer_addr_info_def Addresses_def demo_ma_def)
  then show ?thesis
    using find_providers_exact [OF b _ f l q, of 3]
    by (auto simp: limit_def split: prod.splits sum.splits)
qed

text \<open>
  C17: SearchValue streams the value it has locally, which it compares with nothing, and then values of the
  network. Each of these is preferred by the backend to the value of the network before it (the first to no
  value), is acceptable to the backend and was sent by a peer under the key that was asked for. The walk is cut
  short only once the requested number of peers answered with the last of them - never if that number is zero,
  unless the empty value is acceptable to the backend - and the record that is sent out to fix stale peers holds
  that last value and goes to peers that answered with a superseded one.
\<close>
theorem search_value_stream:
  assumes key: "d_SplitKey N key = Inr (ns, path)" "map_of (d_backends N) ns = Some b"
    and contract: "backend_contract (Store b) (Validate b) storable acc view"
    and opts: "\<not> ro_Offline ropt"
    and fetch: "Fetch b w path = (fetched, w1)" "local_values fetched loc"
    and query: "n_QueryMessage N w1 (zero_Message\<lparr>msg_Type := Message_GET_VALUE, msg_Key := newRoutingKey ns path\<rparr>)
                  (d_BucketSize N) = ((visits, qerr), w2)"
  shows "\<exists>vs fx w' pre. SearchValue N w key (Inr ropt) = (Inr (loc @ vs), fx, w') \<and>
           improving (Validate b) path [] vs \<and>
           (\<forall>v \<in> set vs. acc path (AnyBytes v) \<and> (\<exists>p. answered (newRoutingKey ns path) visits p v)) \<and>
           prefix pre visits \<and>
           (pre \<noteq> visits \<longrightarrow> quorum_reached (newRoutingKey ns path) pre (last ([] # vs)) (getQuorum N ropt) \<and>
              (acc path (AnyBytes []) \<or> 0 < getQuorum N ropt)) \<and>
           updates_stale N (newRoutingKey ns path) pre vs fx"
proof -
  obtain vs fx w' where r: "searchValueRoutine N w1 b ns path ropt = (vs, fx, w')"
    by (cases "searchValueRoutine N w1 b ns path ropt")
  obtain pre where pre: "prefix pre visits" "improving (Validate b) path [] vs"
    "\<forall>v \<in> set vs. \<exists>p. answered (newRoutingKey ns path) pre p v"
    "pre \<noteq> visits \<longrightarrow> quorum_reached (newRoutingKey ns path) pre (last ([] # vs)) (getQuorum N ropt) \<and>
       (no_empty (Validate b) path \<longrightarrow> 0 < getQuorum N ropt)"
    "updates_stale N (newRoutingKey ns path) pre vs fx"
    using search_routine_stream [OF query r] by blast
  have "no_empty (Validate b) path" if "\<not> acc path (AnyBytes [])"
    using backend_contract.idx_two_cases [OF contract] backend_contract.idx_zero_acceptable [OF contract] that
    unfolding no_empty_def by blast
  then have "pre \<noteq> visits \<longrightarrow> acc path (AnyBytes []) \<or> 0 < getQuorum N ropt" using pre(4) by blast
  moreover have "\<forall>v \<in> set vs. acc path (AnyBytes v)"
    using improving_mem [OF pre(2)] backend_contract.idx_one_acceptable [OF contract]
    unfolding preferred_def by blast
  moreover have "\<forall>v \<in> set vs. \<exists>p. answered (newRoutingKey ns path) visits p v"
    using pre(1,3) answered_mono unfolding prefix_def by metis
  moreover have "SearchValue N w key (Inr ropt) = (Inr (loc @ vs), fx, w')"
    using search_value_local [OF key opts fetch] r by simp
  ultimately show ?thesis using pre(1,2,4,5) by blast
qed

lemma search_value_stream_witness:
  "\<exists>vs fx w'. SearchValue value_node mem_rb ''/ipns/n'' (Inr \<lparr>ro_Offline = False, ro_quorum = Some 1\<rparr>) =
     (Inr vs, fx, w') \<and> (\<forall>v \<in> set vs. v \<noteq> [])"
proof -
  let ?m = "zero_Message\<lparr>msg_Type := Message_GET_VALUE, msg_Key := newRoutingKey ''ipns'' ''n''\<rparr>"
  let ?v = "[(''x'', Some (?m\<lparr>msg_Record :=
         Some \<lparr>rec_Key = msg_Key ?m, rec_Value = ''b'', rec_TimeReceived = []\<rparr>\<rparr>))]"
  have key: "d_SplitKey value_node ''/ipns/n'' = Inr (''ipns'', ''n'')"
    "map_of (d_backends value_node) ''ipns'' = Some value_backend"
    by (simp_all add: value_node_def)
  have con: "backend_contract (Store value_backend) (Validate value_backend) is_record
      (\<lambda>key. valid_value len_validator (newRoutingKey ''ipns'' key)) (\<lambda>r. r)"
    unfolding value_backend_def using records_contract [OF len_validator_range] by simp
  have f: "Fetch value_backend mem_rb ''n'' = (Inl ErrNotFound, mem_rb)"
    by (simp add: value_backend_def rb_Fetch_def mem_rb_def NewBackendIPNS_def mem_get_def Let_def)
  have l: "local_values (Inl ErrNotFound :: goerr + bytes any) []" by (simp add: local_values_def)
  have q: "n_QueryMessage value_node mem_rb ?m (d_BucketSize value_node) = ((?v, None), mem_rb)"
    by (simp add: value_node_def)
  have valid: "valid_value len_validator k (AnyBytes v :: bytes any) \<longleftrightarrow> v \<noteq> []" for k v
    by (simp add: valid_value_def len_validator_def)
  show ?thesis
    using search_value_stream [OF key con _ f l q, of "\<lparr>ro_Offline = False, ro_quorum = Some 1\<rparr>"]
    unfolding valid by fastforce
qed

text \<open>
  C34: The value search does not compare what it finds with the local record: whatever the node has under the
  key and however the backend ranks it, where all peers that answer answer with the same valid value, SearchValue
  streams the local value first and that value after it, and GetValue returns the latter. The witness is a node
  whose own record is the better one.
\<close>
theorem local_record_not_compared:
  assumes key: "d_SplitKey F key = Inr (ns, path)" "map_of (d_backends F) ns = Some b" and opts: "\<not> ro_Offline ropt"
    and fetch: "Fetch b w path = (Inr (AnyRecord r), w1)"
    and query: "n_QueryMessage F w1 (zero_Message\<lparr>msg_Type := Message_GET_VALUE, msg_Key := newRoutingKey ns path\<rparr>)
                  (d_BucketSize F) = ((visits, qerr), w2)"
    and seen: "answered (newRoutingKey ns path) visits p v" "only_value (newRoutingKey ns path) v visits"
    and valid: "preferred (Validate b) path [] v" "v \<noteq> []"
  shows "(\<exists>vs fx w'. SearchValue F w key (Inr ropt) = (Inr (rec_Value r # vs), fx, w') \<and> vs \<noteq> [] \<and> set vs \<subseteq> {v}) \<and>
         fst (GetValue F w key (Inr ropt) None) = (v, None)"
proof -
  have loc: "local_values (Inr (AnyRecord r) :: goerr + 'b any) [rec_Value r]" by (simp add: local_values_def)
  show ?thesis using get_value_found [OF key opts fetch loc query seen valid] by simp
qed

lemma local_record_not_compared_witness:
  "let w = snd (PutValue value_node mem_rb ''/ipns/n'' ''longer'' (Inr \<lparr>ro_Offline = True, ro_quorum = None\<rparr>))
   in fst (GetValue value_node w ''/ipns/n'' (Inr \<lparr>ro_Offline = False, ro_quorum = None\<rparr>) None) = (''b'', None) \<and>
      preferred (Validate value_backend) ''n'' ''b'' ''longer'' \<and>
      \<not> preferred (Validate value_backend) ''n'' ''longer'' ''b''"
proof -
  let ?w = "snd (PutValue value_node mem_rb ''/ipns/n'' ''longer'' (Inr \<lparr>ro_Offline = True, ro_quorum = None\<rparr>))"
  let ?m = "zero_Message\<lparr>msg_Type := Message_GET_VALUE, msg_Key := newRoutingKey ''ipns'' ''n''\<rparr>"
  let ?v = "[(''x'', Some (?m\<lparr>msg_Record :=
         Some \<lparr>rec_Key = msg_Key ?m, rec_Value = ''b'', rec_TimeReceived = []\<rparr>\<rparr>))]"
  have key: "d_SplitKey value_node ''/ipns/n'' = Inr (''ipns'', ''n'')"
    "map_of (d_backends value_node) ''ipns'' = Some value_backend"
    by (simp_all add: value_node_def)
  have "fst (Fetch value_backend ?w ''n'') = Inr (AnyRecord \<lparr>rec_Key = ''/ipns/n'', rec_Value = ''longer'',
      rec_TimeReceived = time_Format mem_rec_env 1000\<rparr>)"
    by code_simp
  then obtain r w1 where f: "Fetch value_backend ?w ''n'' = (Inr (AnyRecord r), w1)"
    by (metis prod.collapse)
  have q: "n_QueryMessage value_node w1 ?m (d_BucketSize value_node) = ((?v, None), w1)"
    by (simp add: value_node_def)
  have seen: "answered (newRoutingKey ''ipns'' ''n'') ?v ''x'' ''b''" "only_value (newRoutingKey ''ipns'' ''n'') ''b'' ?v"
    by (auto simp: answered_def only_value_def)
  have valid: "preferred (Validate value_backend) ''n'' [] ''b''" by code_simp
  have "fst (GetValue value_node ?w ''/ipns/n'' (Inr \<lparr>ro_Offline = False, ro_quorum = None\<rparr>) None) = (''b'', None)"
    using local_record_not_compared [OF key _ f q seen valid] by simp
  moreover have "preferred (Validate value_backend) ''n'' ''b'' ''longer''"
    "\<not> preferred (Validate value_backend) ''n'' ''longer'' ''b''"
    by code_simp+
  ultimately show ?thesis by (simp add: Let_def)
qed

text \<open>
  FindPeer returns the addresses in the peer store where it is connected to the peer and has
  some; otherwise it finds the peer exactly if the peer itself responds during the walk, which then
  ends there, and an error of the query counts only if it did not.
\<close>
lemma find_peer_exact:
  assumes "pid \<noteq> []"
    and query: "n_QueryClosest N w (PeerID_Key (d_hash N) pid) 20 = ((visits, qerr), w1)"
  shows "FindPeerProgress N w pid =
     (if n_Connected N w pid \<and> ai_ID (d_PeerInfo N w pid) \<noteq> [] \<and> ai_Addrs (d_PeerInfo N w pid) \<noteq> []
      then (Inr (d_PeerInfo N w pid), [], w)
      else if pid \<in> fst ` set visits
      then (Inr (d_PeerInfo N w1 pid), takeWhile (\<lambda>p. p \<noteq> pid) (map fst visits) @ [pid], w1)
      else (Inl (case qerr of Some e \<Rightarrow> Wrapf ''failed to run query'' e
                            | None \<Rightarrow> Errorf ''peer record not found''),
            map fst visits, w1))"
  using assms find_peer_run [of pid "[]" "[]" visits qerr]
  by (auto simp: FindPeerProgress_def Let_def split: option.split)

lemma find_peer_exact_witness:
  "FindPeerProgress demo_node 0 ''t'' = (Inr \<lparr>ai_ID = ''t'', ai_Addrs = [''a'']\<rparr>, [''x'', ''t''], 0)"
proof -
  have "n_QueryClosest demo_node 0 (PeerID_Key (d_hash demo_node) ''t'') 20 =
      (([(''x'', None), (''t'', None), (''y'', None)], None), 0)"
    by (simp add: demo_node_def)
  from find_peer_exact [OF _ this] show ?thesis by (simp add: demo_node_def)
qed

end
