(* ===== verification/AsyncProps.thy ===== *)
theory AsyncProps
  imports RoutingProps
begin

text \<open>
  The asynchronous search for providers (\<open>findProvidersAsyncRoutine\<close> in \<open>routing.go\<close>) against the
  synchronous one: the routine that sends providers as they come in, stops at a count and gives up at the
  first send that the context does not let through, delivers a beginning of what \<open>FindProviders\<close> returns.
\<close>

section \<open>What is delivered\<close>

text \<open>The sends go through up to the first that does not.\<close>

definition delivered :: "(nat \<Rightarrow> bool) \<Rightarrow> 'a list \<Rightarrow> 'a list" where
  "delivered accept xs = take (length (takeWhile accept [0..<length xs])) xs"

lemma takeWhile_upt_all: "\<forall>i < n. accept i \<Longrightarrow> takeWhile accept [0..<n] = [0..<n]"
  by (simp add: takeWhile_eq_all_conv)

lemma delivered_all: "\<forall>i < length xs. accept i \<Longrightarrow> delivered accept xs = xs"
  by (simp add: delivered_def takeWhile_upt_all)

lemma delivered_stop:
  assumes "\<forall>i < length xs. accept i" "\<not> accept (length xs)"
  shows "delivered accept (xs @ ys) = xs"
proof -
  have "[0..<length xs + length ys] = [0..<length xs] @ [length xs..<length xs + length ys]"
    by (rule upt_add_eq_append) simp
  moreover have "takeWhile accept [length xs..<m] = []" for m
    using assms(2) by (cases "length xs < m") (simp_all add: upt_conv_Cons)
  ultimately have "takeWhile accept [0..<length (xs @ ys)] = [0..<length xs]"
    using assms(1) by (simp add: takeWhile_append)
  then show ?thesis by (simp add: delivered_def)
qed

section \<open>The state of the routine\<close>

text \<open>While the routine runs, all sends went through and the count was not reached.\<close>

definition sending ::
  "(nat \<Rightarrow> bool) \<Rightarrow> int \<Rightarrow> 'm addr_info list \<Rightarrow> peer_id list \<times> 'm addr_info list \<Rightarrow> bool" where
  "sending accept cnt xs s \<longleftrightarrow>
     set (fst s) = ai_ID ` set xs \<and> distinct (fst s) \<and> snd s = firsts {} xs \<and>
     length (fst s) = length (snd s) \<and> below cnt (snd s) \<and> (\<forall>i < length (snd s). accept i)"

definition result_of :: "(nat \<Rightarrow> bool) \<Rightarrow> int \<Rightarrow> 'm addr_info list \<Rightarrow> 'm addr_info list" where
  "result_of accept cnt xs = delivered accept (limit cnt (firsts {} xs))"

lemma sending_result: "sending accept cnt xs s \<Longrightarrow> snd s = result_of accept cnt xs"
  unfolding sending_def result_of_def by (metis delivered_all limit_below)

lemma limit_extends: "below cnt xs \<Longrightarrow> \<exists>zs. limit cnt (xs @ ys) = xs @ zs"
  by (auto simp: limit_def below_def)

text \<open>One provider that was not seen before.\<close>

lemma sending_new:
  assumes "sending accept cnt xs (seen, out)" "ai_ID p \<notin> set seen"
  shows "\<not> accept (length out) \<Longrightarrow> out = result_of accept cnt (xs @ p # ys)"
    and "accept (length out) \<Longrightarrow> cnt \<noteq> 0 \<and> int (length (List.insert (ai_ID p) seen)) = cnt \<Longrightarrow>
           out @ [p] = result_of accept cnt (xs @ p # ys)"
    and "accept (length out) \<Longrightarrow> \<not> (cnt \<noteq> 0 \<and> int (length (List.insert (ai_ID p) seen)) = cnt) \<Longrightarrow>
           sending accept cnt (xs @ [p]) (List.insert (ai_ID p) seen, out @ [p])"
proof -
  have s: "set seen = ai_ID ` set xs" "distinct seen" "out = firsts {} xs" "length seen = length out"
    "below cnt out" "\<forall>i < length out. accept i"
    using assms(1) unfolding sending_def fst_conv snd_conv by blast+
  have len: "length (List.insert (ai_ID p) seen) = Suc (length out)"
    using assms(2) s(4) by simp
  have one: "firsts {} (xs @ [p]) = out @ [p]"
    using assms(2) s(1,3) by (simp add: firsts_append)
  obtain R where R: "firsts {} (xs @ p # ys) = out @ p # R"
    using firsts_append [of "{}" "xs @ [p]" ys] one by simp
  show "out = result_of accept cnt (xs @ p # ys)" if "\<not> accept (length out)"
  proof -
    obtain zs where "limit cnt (out @ p # R) = out @ zs" using limit_extends [OF s(5)] by blast
    then show ?thesis using delivered_stop [OF s(6) that] by (simp add: result_of_def R)
  qed
  have acc: "\<forall>i < length (out @ [p]). accept i" if "accept (length out)"
    using s(6) that by (auto simp: less_Suc_eq)
  show "out @ [p] = result_of accept cnt (xs @ p # ys)"
    if "accept (length out)" "cnt \<noteq> 0 \<and> int (length (List.insert (ai_ID p) seen)) = cnt"
  proof -
    have "cnt = int (length (out @ [p]))" using that(2) len by simp
    then have "limit cnt (out @ p # R) = out @ [p]" by (simp add: limit_def nat_add_distrib)
    then show ?thesis using delivered_all [OF acc [OF that(1)]] by (simp add: result_of_def R)
  qed
  show "sending accept cnt (xs @ [p]) (List.insert (ai_ID p) seen, out @ [p])"
    if "accept (length out)" "\<not> (cnt \<noteq> 0 \<and> int (length (List.insert (ai_ID p) seen)) = cnt)"
  proof -
    have "below cnt (out @ [p])" using s(5) that(2) len by (auto simp: below_def)
    then show ?thesis
      using s(1,2) len one acc [OF that(1)] assms(2) by (simp add: sending_def)
  qed
qed

lemma sending_old:
  assumes "sending accept cnt xs (seen, out)" "ai_ID p \<in> set seen"
  shows "sending accept cnt (xs @ [p]) (seen, out)"
  using assms by (auto simp: sending_def firsts_append)

section \<open>The loops\<close>

lemma send_found_spec:
  assumes "sending accept cnt xs s" "send_found accept cnt ps s = (e, s')"
  shows "case e of None \<Rightarrow> sending accept cnt (xs @ ps) s'
         | Some err \<Rightarrow> err = ErrSkipRemaining \<and> (\<forall>ys. snd s' = result_of accept cnt (xs @ ps @ ys))"
  using assms
proof (induction ps arbitrary: xs s)
  case (Cons p ps)
  obtain seen out where s: "s = (seen, out)" by (cases s)
  show ?case
  proof (cases "ai_ID p \<in> set seen")
    case True
    then have "send_found accept cnt ps (seen, out) = (e, s')" using Cons.prems(2) by (simp add: s)
    then show ?thesis
      using Cons.IH [of "xs @ [p]" "(seen, out)"] sending_old [of accept cnt xs seen out p] Cons.prems(1) True
      by (cases e) (simp_all add: s)
  next
    case False
    note new = sending_new [OF Cons.prems(1) [unfolded s] False]
    show ?thesis
      using Cons.prems(2) False new(1) [of "ps @ ys" for ys] new(2) [of "ps @ ys" for ys]
        Cons.IH [OF new(3)]
      by (auto simp: s Let_def split: if_splits option.splits)
  qed
qed simp

lemma send_local_spec:
  assumes "sending accept cnt xs s" "send_local accept cnt ps s = (stop, s')"
    and "distinct (map ai_ID ps)" "ai_ID ` set ps \<inter> ai_ID ` set xs = {}"
  shows "if stop then \<forall>ys. snd s' = result_of accept cnt (xs @ ps @ ys) else sending accept cnt (xs @ ps) s'"
  using assms
proof (induction ps arbitrary: xs s)
  case (Cons p ps)
  obtain seen out where s: "s = (seen, out)" by (cases s)
  have "set seen = ai_ID ` set xs" using Cons.prems(1) by (simp add: s sending_def)
  then have fresh: "ai_ID p \<notin> set seen" using Cons.prems(4) by auto
  have rest: "distinct (map ai_ID ps)" "ai_ID ` set ps \<inter> ai_ID ` set (xs @ [p]) = {}"
    using Cons.prems(3,4) by auto
  note new = sending_new [OF Cons.prems(1) [unfolded s] fresh]
  show ?case
    using Cons.prems(2) new(1) [of "ps @ ys" for ys] new(2) [of "ps @ ys" for ys]
      Cons.IH [OF new(3) _ rest]
    by (auto simp: s Let_def split: if_splits)
qed simp

abbreviation async_fn where
  "async_fn L accept cnt \<equiv> \<lambda>s (pid, resp). send_found accept cnt (ProviderAddrInfos L resp) s"

lemma async_run:
  assumes "sending accept cnt xs s" "run_query (async_fn L accept cnt) visits qerr s = (e, s')"
  shows "snd s' = result_of accept cnt (xs @ responses L visits)"
  using assms
proof (induction visits arbitrary: xs s)
  case Nil
  then show ?case using sending_result [OF Nil(1)] by simp
next
  case (Cons v visits)
  obtain pid resp where v: "v = (pid, resp)" by (cases v)
  obtain r s1 where f: "send_found accept cnt (ProviderAddrInfos L resp) s = (r, s1)"
    by (cases "send_found accept cnt (ProviderAddrInfos L resp) s")
  note spec = send_found_spec [OF Cons.prems(1) f]
  show ?case
  proof (cases r)
    case None
    then have "run_query (async_fn L accept cnt) visits qerr s1 = (e, s')"
      using Cons.prems(2) f by (simp add: v)
    then show ?thesis using Cons.IH [of "xs @ ProviderAddrInfos L resp" s1] spec None by (simp add: v)
  next
    case (Some err)
    then show ?thesis using spec Cons.prems(2) f by (auto simp: v split: if_splits)
  qed
qed

lemma sending_init: "below cnt ([] :: 'm addr_info list) \<Longrightarrow> sending accept cnt [] ([], [] :: 'm addr_info list)"
  by (simp add: sending_def)

lemma firsts_distinct:
  "distinct (map ai_ID xs) \<Longrightarrow> ai_ID ` set xs \<inter> seen = {} \<Longrightarrow> firsts seen xs = xs"
  by (induction seen xs rule: firsts.induct) auto

text \<open>The routine after the local fetch.\<close>

lemma async_local:
  assumes "map_of (d_backends N) namespaceProviders = Some b" and "cid_Defined c"
    and "Fetch b w (cid_Hash c) = (fetched, w1)" and "local_providers fetched loc"
  shows "findProvidersAsyncRoutine N accept w c cnt =
     (case send_local accept cnt loc ([], []) of (stop, s) \<Rightarrow>
        if stop then (snd s, w1)
        else
          (case n_QueryMessage N w1 (zero_Message\<lparr>msg_Type := Message_GET_PROVIDERS, msg_Key := cid_Hash c\<rparr>)
                  (d_BucketSize N) of ((visits, qerr), w2) \<Rightarrow>
             (snd (snd (run_query (async_fn (d_ma N) accept cnt) visits qerr s)), w2)))"
proof -
  from assms(4) consider ps where "fetched = Inr (AnyProviderSetPtr ps)" "loc = providers ps"
    | e where "fetched = Inl e" "errors_Is e ErrNotFound" "loc = []"
    by (auto simp: local_providers_def)
  then show ?thesis
    by cases (simp_all add: findProvidersAsyncRoutine_def assms(1-3) Let_def split_beta)
qed

section \<open>Properties\<close>

text \<open>
  C28: The channel of FindProvidersAsync carries exactly the providers that FindProviders returns, in the
  same order, up to the first send that the context does not let through: the first distinct ones up to
  the requested count, local ones first. An error of the query does not take back what was sent.
\<close>
theorem async_delivers_the_same:
  assumes b: "map_of (d_backends N) namespaceProviders = Some b" "cid_Defined c"
    and fetch: "Fetch b w (cid_Hash c) = (fetched, w1)" "local_providers fetched loc"
    and local_set: "distinct (map ai_ID loc)"
    and query: "n_QueryMessage N w1 (zero_Message\<lparr>msg_Type := Message_GET_PROVIDERS, msg_Key := cid_Hash c\<rparr>)
                  (d_BucketSize N) = ((visits, qerr), w2)"
  shows "fst (findProvidersAsyncRoutine N accept w c cnt) =
           delivered accept (limit cnt (firsts {} (loc @ responses (d_ma N) visits))) \<and>
         (\<forall>out. fst (FindProviders N w c cnt) = Inr out \<longrightarrow>
            fst (findProvidersAsyncRoutine N accept w c cnt) = delivered accept out)"
proof -
  obtain stop s where l: "send_local accept cnt loc ([], []) = (stop, s)"
    by (cases "send_local accept cnt loc ([], [])")
  have init: "sending accept cnt [] ([], [])" by (rule sending_init) (simp add: below_def)
  have spec: "if stop then \<forall>ys. snd s = result_of accept cnt (loc @ ys) else sending accept cnt loc s"
    using send_local_spec [OF init l local_set] by (cases stop) simp_all
  have async: "fst (findProvidersAsyncRoutine N accept w c cnt) =
      delivered accept (limit cnt (firsts {} (loc @ responses (d_ma N) visits)))"
  proof (cases stop)
    case True
    then show ?thesis using spec by (simp add: async_local [OF b fetch] l result_of_def)
  next
    case False
    obtain e s' where run: "run_query (async_fn (d_ma N) accept cnt) visits qerr s = (e, s')"
      by (cases "run_query (async_fn (d_ma N) accept cnt) visits qerr s")
    have "sending accept cnt loc s" using spec False by simp
    from async_run [OF this run] show ?thesis
      using False by (simp add: async_local [OF b fetch] l query run result_of_def)
  qed
  show ?thesis using async find_providers_result [OF b fetch query, of cnt] by auto
qed

lemma async_delivers_the_same_witness:
  "fst (findProvidersAsyncRoutine demo_node (\<lambda>i. i < 5) 0 \<lparr>cid_Defined = True, cid_Hash = ''k''\<rparr> 3) =
     [\<lparr>ai_ID = ''p'', ai_Addrs = [''b'']\<rparr>]"
proof -
  let ?c = "\<lparr>cid_Defined = True, cid_Hash = ''k''\<rparr>"
  have b: "map_of (d_backends demo_node) namespaceProviders = Some count_backend"
    by (simp add: demo_node_def namespaceProviders_def)
  have f: "Fetch count_backend 0 (cid_Hash ?c) = (Inl ErrNotFound, 0)" by (simp add: count_backend_def)
  have l: "local_providers (Inl ErrNotFound) []" by (simp add: local_providers_def)
  let ?m = "zero_Message\<lparr>msg_Type := Message_GET_PROVIDERS, msg_Key := cid_Hash ?c\<rparr>"
  let ?v = "[(''x'', Some (?m\<lparr>msg_ProviderPeers := [\<lparr>mp_Id = ''p'', mp_Addrs = [''b''], mp_Connection = 0\<rparr>]\<rparr>))]"
  have q: "n_QueryMessage demo_node 0 ?m (d_BucketSize demo_node) = ((?v, None), 0)"
    by (simp add: demo_node_def)
  have "d_ma demo_node = demo_ma" by (simp add: demo_node_def)
  then have "responses (d_ma demo_node) ?v = [\<lparr>ai_ID = ''p'', ai_Addrs = [''b'']\<rparr>]"
    by (simp add: ProviderAddrInfos_def peer_addr_info_def Addresses_def demo_ma_def)
  then show ?thesis
    using async_delivers_the_same [OF b _ f l _ q, of "\<lambda>i. i < 5" 3]
    by (simp add: limit_def delivered_def)
qed

end
