(* ===== verification/Channels.thy ===== *)
theory Channels
  imports AsyncProps "HOL-Library.Sublist"
begin

text \<open>
  The channels that \<open>SearchValue\<close> and \<open>FindProvidersAsync\<close> return (\<open>routing.go\<close>), as goroutines see them.
  A send on an unbuffered channel waits for the receiver. The providers are sent in a select with the end of the
  context, the values are not. The caller may stop receiving, and its context may end, at any time; a query
  whose context has ended may end without visiting the rest of the nodes. What is
  sent otherwise, and in which order, is that of the models of the two functions.
\<close>

section \<open>Channels\<close>

record 'a chan =
  c_select :: bool             \<comment> \<open>the sends select on the context\<close>
  c_sending :: "'a option"     \<comment> \<open>what is being sent: the sender waits for the receiver\<close>
  c_todo :: "'a list"          \<comment> \<open>what the query comes to find, if it goes on\<close>
  c_buffer :: "'a list"        \<comment> \<open>what was sent and not yet received\<close>
  c_got :: "'a list"           \<comment> \<open>what the caller received\<close>
  c_listening :: bool          \<comment> \<open>the caller receives\<close>
  c_ctx_done :: bool
  c_closed :: bool             \<comment> \<open>the sender has returned and closed the channel\<close>

inductive chan_step :: "'a chan \<Rightarrow> 'a chan \<Rightarrow> bool" where
  found: "c_sending s = None \<Longrightarrow> c_todo s = v # vs \<Longrightarrow> chan_step s (s\<lparr>c_sending := Some v, c_todo := vs\<rparr>)"
| handed: "c_sending s = Some v \<Longrightarrow> c_listening s \<Longrightarrow>
           chan_step s (s\<lparr>c_sending := None, c_got := c_got s @ [v]\<rparr>)"
| received: "c_buffer s = v # vs \<Longrightarrow> c_listening s \<Longrightarrow>
           chan_step s (s\<lparr>c_buffer := vs, c_got := c_got s @ [v]\<rparr>)"
| query_ends: "c_sending s = None \<Longrightarrow> c_ctx_done s \<Longrightarrow> chan_step s (s\<lparr>c_todo := []\<rparr>)"
| given_up: "c_select s \<Longrightarrow> c_ctx_done s \<Longrightarrow> chan_step s (s\<lparr>c_sending := None, c_todo := []\<rparr>)"
| closing: "c_sending s = None \<Longrightarrow> c_todo s = [] \<Longrightarrow> chan_step s (s\<lparr>c_closed := True\<rparr>)"
| context_ends: "chan_step s (s\<lparr>c_ctx_done := True\<rparr>)"
| left: "chan_step s (s\<lparr>c_listening := False\<rparr>)"

inductive_cases chan_stepE: "chan_step s s'"

abbreviation chan_runs :: "'a chan \<Rightarrow> 'a chan \<Rightarrow> bool" where "chan_runs \<equiv> chan_step\<^sup>*\<^sup>*"

definition may_close :: "'a chan \<Rightarrow> bool" where
  "may_close s \<longleftrightarrow> (\<exists>s'. chan_runs s s' \<and> c_closed s')"

section \<open>The two operations\<close>

definition opened :: "bool \<Rightarrow> 'a option \<Rightarrow> 'a list \<Rightarrow> 'a chan" where
  "opened sel first vs = \<lparr>c_select = sel, c_sending = first, c_todo = vs, c_buffer = [], c_got = [],
     c_listening = True, c_ctx_done = False, c_closed = False\<rparr>"

definition known_locally :: "('w, 'm, 'b, 'z) Node_scheme \<Rightarrow> 'w \<Rightarrow> bytes \<Rightarrow> bool" where
  "known_locally N w key =
     (case d_SplitKey N key of
        Inl err \<Rightarrow> False
      | Inr (ns, path) \<Rightarrow>
          (case map_of (d_backends N) ns of
             None \<Rightarrow> False
           | Some b \<Rightarrow> (case fst (Fetch b w path) of Inl err \<Rightarrow> False | Inr v \<Rightarrow> True)))"

text \<open>
  Offline the only value is in the buffer of a channel that is closed before it is returned. A value that is known
  locally is sent before the query begins. No send selects on the context.
\<close>

definition search_channel ::
  "('w, 'm, 'b, 'z) Node_scheme \<Rightarrow> 'w \<Rightarrow> bytes \<Rightarrow> ropts \<Rightarrow> goerr + bytes chan" where
  "search_channel N w key opts =
     (case fst (SearchValue N w key (Inr opts)) of
        Inl err \<Rightarrow> Inl err
      | Inr vals \<Rightarrow>
          Inr (if ro_Offline opts then (opened False None [])\<lparr>c_buffer := vals, c_closed := True\<rparr>
               else if known_locally N w key then opened False (Some (hd vals)) (tl vals)
               else opened False None vals))"

definition providers_channel ::
  "('w, 'm, 'b, 'z) Node_scheme \<Rightarrow> 'w \<Rightarrow> cid \<Rightarrow> int \<Rightarrow> 'm addr_info chan" where
  "providers_channel N w c cnt = opened True None (fst (findProvidersAsyncRoutine N (\<lambda>i. True) w c cnt))"

lemma known_value:
  assumes "known_locally N w key" "fst (SearchValue N w key (Inr opts)) = Inr vals"
  shows "vals \<noteq> []"
proof -
  obtain ns path b where key: "d_SplitKey N key = Inr (ns, path)" "map_of (d_backends N) ns = Some b"
      "case fst (Fetch b w path) of Inl err \<Rightarrow> False | Inr v \<Rightarrow> True"
    using assms(1) by (auto simp: known_locally_def split: sum.splits option.splits)
  then obtain v w1 where "Fetch b w path = (Inr v, w1)"
    by (cases "Fetch b w path"; cases "fst (Fetch b w path)") auto
  then show ?thesis
    using assms(2) key(1,2) by (auto simp: SearchValue_def split: any.splits prod.splits if_splits)
qed

section \<open>Runs\<close>

definition sent_or_due :: "'a chan \<Rightarrow> 'a list" where
  "sent_or_due s = c_got s @ c_buffer s @ (case c_sending s of None \<Rightarrow> [] | Some v \<Rightarrow> [v]) @ c_todo s"

definition chan_inv :: "bool \<Rightarrow> 'a list \<Rightarrow> 'a chan \<Rightarrow> bool" where
  "chan_inv sel vals s \<longleftrightarrow>
     c_select s = sel \<and> prefix (sent_or_due s) vals \<and> (\<not> c_ctx_done s \<longrightarrow> sent_or_due s = vals) \<and>
     (c_buffer s = [] \<or> c_sending s = None \<and> c_todo s = []) \<and> (c_closed s \<longrightarrow> c_sending s = None \<and> c_todo s = [])"

lemma chan_step_inv: "chan_step s s' \<Longrightarrow> chan_inv sel vals s \<Longrightarrow> chan_inv sel vals s'"
proof (induction rule: chan_step.induct)
  case (query_ends s)
  then show ?case by (auto simp: chan_inv_def sent_or_due_def prefix_def)
next
  case (given_up s)
  then show ?case by (auto simp: chan_inv_def sent_or_due_def prefix_def split: option.splits)
qed (auto simp: chan_inv_def sent_or_due_def)

lemma chan_runs_inv: "chan_runs s s' \<Longrightarrow> chan_inv sel vals s \<Longrightarrow> chan_inv sel vals s'"
  by (induction rule: rtranclp_induct) (auto intro: chan_step_inv)

lemma buffer_stays_empty: "chan_runs s s' \<Longrightarrow> c_buffer s = [] \<Longrightarrow> c_buffer s' = []"
  by (induction rule: rtranclp_induct) (auto elim: chan_stepE)

lemma closed_stays: "chan_runs s s' \<Longrightarrow> c_closed s \<Longrightarrow> c_closed s'"
  by (induction rule: rtranclp_induct) (auto elim: chan_stepE)

text \<open>Where nothing is being sent, or what is can be handed over or given up, the channel can come to be closed.\<close>

lemma idle_closes:
  assumes "c_sending s = None"
  shows "may_close s"
proof -
  let ?s1 = "s\<lparr>c_ctx_done := True\<rparr>"
  have 1: "chan_step s ?s1" by (rule chan_step.context_ends)
  have 2: "chan_step ?s1 (?s1\<lparr>c_todo := []\<rparr>)" using assms by (intro chan_step.query_ends) simp_all
  have 3: "chan_step (?s1\<lparr>c_todo := []\<rparr>) (?s1\<lparr>c_todo := [], c_closed := True\<rparr>)"
    using chan_step.closing [of "?s1\<lparr>c_todo := []\<rparr>"] assms by simp
  have "chan_runs s (?s1\<lparr>c_todo := [], c_closed := True\<rparr>)"
    using 1 2 3 by (meson converse_rtranclp_into_rtranclp r_into_rtranclp)
  then show ?thesis unfolding may_close_def by (intro exI [of _ "?s1\<lparr>c_todo := [], c_closed := True\<rparr>"]) simp
qed

lemma step_may_close: "chan_step s s' \<Longrightarrow> may_close s' \<Longrightarrow> may_close s"
  unfolding may_close_def by (meson converse_rtranclp_into_rtranclp)

lemma listening_closes:
  assumes "c_listening s"
  shows "may_close s"
proof (cases "c_sending s")
  case (Some v)
  have "may_close (s\<lparr>c_sending := None, c_got := c_got s @ [v]\<rparr>)" by (rule idle_closes) simp
  with chan_step.handed [OF Some assms] show ?thesis by (rule step_may_close)
qed (rule idle_closes)

lemma select_closes:
  assumes "c_select s" "c_ctx_done s"
  shows "may_close s"
  by (rule step_may_close [OF chan_step.given_up [OF assms] idle_closes]) simp

text \<open>A value that nobody receives is sent for ever, unless the send selects on the context.\<close>

lemma blocked_stays:
  "chan_runs s s' \<Longrightarrow> \<not> c_select s \<and> \<not> c_listening s \<and> c_sending s \<noteq> None \<and> \<not> c_closed s \<Longrightarrow>
   \<not> c_select s' \<and> \<not> c_listening s' \<and> c_sending s' \<noteq> None \<and> \<not> c_closed s'"
  by (induction rule: rtranclp_induct) (auto elim: chan_stepE)

section \<open>Properties\<close>

text \<open>
  C40: A caller of SearchValue, unless offline, receives a beginning of the values that the search yields, and where
  the channel is closed it received all of them, or its context has ended. But as soon as it stops receiving while a
  value is being sent, the search hangs for ever and the channel is never closed, whether its context has ended or not;
  in every other state the channel can still be closed.
\<close>
theorem search_value_can_hang:
  assumes search: "fst (SearchValue N w key (Inr opts)) = Inr vals" "search_channel N w key opts = Inr s0"
    and online: "\<not> ro_Offline opts" and run: "chan_runs s0 s"
  shows "prefix (c_got s) vals \<and> (c_closed s \<longrightarrow> c_got s = vals \<or> c_ctx_done s) \<and>
         (may_close s \<longleftrightarrow> c_listening s \<or> c_sending s = None)"
proof -
  have s0: "s0 = (if known_locally N w key then opened False (Some (hd vals)) (tl vals) else opened False None vals)"
    using search online by (simp add: search_channel_def)
  have "sent_or_due s0 = vals"
  proof (cases "known_locally N w key")
    case True
    from known_value [OF True search(1)] show ?thesis by (simp add: s0 sent_or_due_def opened_def True)
  next
    case False
    show ?thesis by (simp add: s0 sent_or_due_def opened_def False)
  qed
  then have "chan_inv False vals s0" "c_buffer s0 = []" by (simp_all add: chan_inv_def s0 opened_def)
  note start = this
  have inv: "chan_inv False vals s" by (rule chan_runs_inv [OF run start(1)])
  have buffer: "c_buffer s = []" by (rule buffer_stays_empty [OF run start(2)])
  have "\<not> may_close s" if "\<not> c_listening s" "c_sending s \<noteq> None"
  proof -
    have "\<not> c_select s" "\<not> c_closed s" using inv that(2) by (simp_all add: chan_inv_def)
    then show ?thesis using that blocked_stays [of s] unfolding may_close_def by blast
  qed
  then have "may_close s \<longleftrightarrow> c_listening s \<or> c_sending s = None"
    using listening_closes idle_closes by blast
  moreover have "prefix (c_got s) vals" using inv by (auto simp: chan_inv_def sent_or_due_def prefix_def)
  moreover have "c_got s = vals" if "c_closed s" "\<not> c_ctx_done s"
  proof -
    have "sent_or_due s = vals" "c_sending s = None" "c_todo s = []" using inv that by (simp_all add: chan_inv_def)
    then show ?thesis using buffer by (simp add: sent_or_due_def)
  qed
  ultimately show ?thesis by blast
qed

text \<open>The caller of the example leaves before the first value, which is then being sent, and its context ends.\<close>

lemma example_values:
  "fst (SearchValue value_node mem_rb ''/ipns/n'' (Inr \<lparr>ro_Offline = False, ro_quorum = None\<rparr>)) = Inr [''b'']"
  by code_simp

lemma example_channel:
  "search_channel value_node mem_rb ''/ipns/n'' \<lparr>ro_Offline = False, ro_quorum = None\<rparr> = Inr (opened False None [''b''])"
proof -
  have "\<not> known_locally value_node mem_rb ''/ipns/n''" by code_simp
  then show ?thesis unfolding search_channel_def example_values by simp
qed

lemma search_value_can_hang_witness:
  "\<exists>s. chan_runs (opened False None [''b'']) s \<and> c_ctx_done s \<and> \<not> may_close s"
proof -
  let ?s0 = "opened False None [''b'']"
  define s1 where "s1 = ?s0\<lparr>c_sending := Some ''b'', c_todo := []\<rparr>"
  define s2 where "s2 = s1\<lparr>c_listening := False\<rparr>"
  define s3 where "s3 = s2\<lparr>c_ctx_done := True\<rparr>"
  have 1: "chan_step ?s0 s1" unfolding s1_def by (rule chan_step.found) (simp_all add: opened_def)
  have 2: "chan_step s1 s2" unfolding s2_def by (rule chan_step.left)
  have 3: "chan_step s2 s3" unfolding s3_def by (rule chan_step.context_ends)
  have run: "chan_runs ?s0 s3" using 1 2 3 by (meson converse_rtranclp_into_rtranclp r_into_rtranclp)
  have "\<not> c_listening s3" "c_sending s3 \<noteq> None" "c_ctx_done s3" by (simp_all add: s3_def s2_def s1_def)
  moreover have "\<not> may_close s3"
    using search_value_can_hang [OF example_values example_channel _ run] calculation(1,2) by simp
  ultimately show ?thesis using run by blast
qed

text \<open>Offline the channel of SearchValue is closed from the start, and yields what was found.\<close>

lemma search_channel_offline:
  assumes "fst (SearchValue N w key (Inr opts)) = Inr vals" "search_channel N w key opts = Inr s0" "ro_Offline opts"
    and "chan_runs s0 s"
  shows "c_closed s \<and> prefix (c_got s) vals"
proof -
  have s0: "s0 = (opened False None [])\<lparr>c_buffer := vals, c_closed := True\<rparr>"
    using assms(1-3) by (simp add: search_channel_def)
  then have "chan_inv False vals s0" by (simp add: chan_inv_def sent_or_due_def opened_def)
  from chan_runs_inv [OF assms(4) this] have "prefix (c_got s) vals"
    by (auto simp: chan_inv_def sent_or_due_def prefix_def)
  then show ?thesis using closed_stays [OF assms(4)] s0 by simp
qed

text \<open>
  The channel of FindProvidersAsync, in contrast, can be closed whenever the caller receives or its
  context has ended.
\<close>
lemma providers_channel_ends:
  assumes "chan_runs (providers_channel N w c cnt) s"
  shows "prefix (c_got s) (fst (findProvidersAsyncRoutine N (\<lambda>i. True) w c cnt))"
    and "c_listening s \<or> c_ctx_done s \<Longrightarrow> may_close s"
proof -
  have "chan_inv True (fst (findProvidersAsyncRoutine N (\<lambda>i. True) w c cnt)) (providers_channel N w c cnt)"
    by (simp add: chan_inv_def sent_or_due_def opened_def providers_channel_def)
  from chan_runs_inv [OF assms this]
  have inv: "chan_inv True (fst (findProvidersAsyncRoutine N (\<lambda>i. True) w c cnt)) s" .
  then show "prefix (c_got s) (fst (findProvidersAsyncRoutine N (\<lambda>i. True) w c cnt))"
    by (auto simp: chan_inv_def sent_or_due_def prefix_def)
  show "c_listening s \<or> c_ctx_done s \<Longrightarrow> may_close s"
    using listening_closes select_closes inv by (auto simp: chan_inv_def)
qed

end
