(* ===== verification/Network.thy ===== *)
theory Network
  imports Amino RoutingProps
begin

text \<open>
  Three nodes: one that publishes (\<open>Provide\<close> and \<open>PutValue\<close> of \<open>routing.go\<close>), one with the default
  backends that is among the nodes closest to the key and serves the requests of the others
  (\<open>handlers.go\<close> on the backends), and one that looks the key up. What the first publishes the third
  finds: the messages of the lookups, the handlers, the backends, the datastore and the selection of
  the results put together. The transport hands over messages as they are; who is visited and in
  which order is up to the coordinator.
\<close>

section \<open>Provider records\<close>

text \<open>The request of a node that looks for providers, as \<open>FindProviders\<close> crafts it.\<close>

abbreviation get_providers_msg :: "bytes \<Rightarrow> Message" where
  "get_providers_msg k \<equiv> zero_Message\<lparr>msg_Type := Message_GET_PROVIDERS, msg_Key := k\<rparr>"

lemma announcement [simp]:
  "msg_Type (provideRecord P (NewKey H k)) = Message_ADD_PROVIDER"
  "msg_Key (provideRecord P (NewKey H k)) = k"
  "length (msg_ProviderPeers (provideRecord P (NewKey H k))) = 1"
  by (simp_all add: provideRecord_def)

lemma announced_provider:
  assumes "ma_law (d_ma P)"
  shows "ProviderAddrInfos (d_ma P) (Some (provideRecord P k)) = [\<lparr>ai_ID = d_self P, ai_Addrs = n_HostAddrs P\<rparr>]"
  using Addresses_FromAddrInfo [OF assms] by (simp add: ProviderAddrInfos_def provideRecord_def)

lemma handle_by_type:
  "msg_Type m = Message_ADD_PROVIDER \<Longrightarrow> handleMsg D w p m = handleAddProvider D w p m"
  "msg_Type m = Message_GET_PROVIDERS \<Longrightarrow> handleMsg D w p m = handleGetProviders D w p m"
  "msg_Type m = Message_PUT_VALUE \<Longrightarrow> handleMsg D w p m = handlePutValue D w p m"
  "msg_Type m = Message_GET_VALUE \<Longrightarrow> handleMsg D w p m = handleGetValue D w p m"
  by (simp_all add: handleMsg_def message_types)

lemma pb_Store_accepts:
  assumes "\<And>d k v. fst (ds_Put E d k v) = None"
  shows "\<exists>p'. pb_Store E now p k (AnyAddrInfo a) = (Inr (AnyAddrInfo a), p')"
proof -
  obtain d where "ds_Put E (pb_datastore p) (ds_key E p k (ai_ID a)) (MarshalBinary \<lparr>expiry = now\<rparr>) = (None, d)"
    using assms by (metis prod.collapse)
  then show ?thesis by (simp add: pb_Store_def Let_def split: prod.split option.split)
qed

text \<open>A node with addresses is accepted as a provider wherever the datastore takes the record.\<close>

lemma announcement_accepted:
  assumes node: "amino_node E R Vi Vp D" and ma: "ma_law (d_ma D)" "d_ma P = d_ma D"
    and key: "k \<noteq> []" "length k \<le> 80" and addrs: "n_HostAddrs P \<noteq> []"
    and put: "\<And>d k v. fst (ds_Put E d k v) = None"
  shows "\<exists>w1. handleAddProvider D w (d_self P) (provideRecord P (NewKey H k)) = (Inr None, w1)"
proof -
  let ?a = "\<lparr>ai_ID = d_self P, ai_Addrs = n_HostAddrs P\<rparr>" and ?b = "traceWrapBackend namespaceProviders (providers_backend E)"
  have a: "ProviderAddrInfos (d_ma D) (Some (provideRecord P (NewKey H k))) = [?a]"
    using announced_provider [of P "NewKey H k"] ma by simp
  have nonempty: "length (msg_ProviderPeers (provideRecord P (NewKey H k))) \<noteq> 0" by simp
  have "fst (Store ?b w k (AnyAddrInfo ?a)) = Inr (AnyAddrInfo ?a)"
    using pb_Store_accepts [OF put] traced_providers_Store(1) by (metis fst_conv)
  then obtain w1 where "Store ?b w k (AnyAddrInfo ?a) = (Inr (AnyAddrInfo ?a), w1)" by (metis prod.collapse)
  then show ?thesis
    using key addrs nonempty amino_providers [OF node]
    by (simp add: handleAddProvider_def a Let_def del: One_nat_def)
qed

lemma response_ids: "ai_ID ` set (ProviderAddrInfos L (Some m)) = mp_Id ` set (msg_ProviderPeers m)"
  by (auto simp: ProviderAddrInfos_def peer_addr_info_def image_image)

section \<open>Value records\<close>

abbreviation put_value_msg :: "('w, 'm, 'b, 'z) Node_scheme \<Rightarrow> bytes \<Rightarrow> bytes \<Rightarrow> Message" where
  "put_value_msg P key v \<equiv> zero_Message\<lparr>msg_Type := Message_PUT_VALUE, msg_Key := key,
     msg_Record := Some (n_MakePutRecord P key v)\<rparr>"

abbreviation get_value_msg :: "bytes \<Rightarrow> Message" where
  "get_value_msg k \<equiv> zero_Message\<lparr>msg_Type := Message_GET_VALUE, msg_Key := k\<rparr>"

text \<open>The record backend of a namespace, with the datastore that is shared.\<close>

definition load_rb :: "bytes \<Rightarrow> ('m, 'ds, 'ab, 'c) amino_world \<Rightarrow> 'ds RecordBackend" where
  "load_rb ns w = (if ns = namespaceIPNS then aw_ipns w else aw_pk w)\<lparr>rb_datastore := aw_ds w\<rparr>"

lemma load_rb_now [simp]: "load_rb ns (w\<lparr>aw_now := t\<rparr>) = load_rb ns w"
  by (simp add: load_rb_def)

definition record_namespace :: "bytes \<Rightarrow> bool" where
  "record_namespace ns \<longleftrightarrow> ns = namespaceIPNS \<or> ns = namespacePublicKey"

lemma record_backend:
  assumes "amino_node E R Vi Vp D" "record_namespace ns"
  shows "\<exists>b. map_of (d_backends D) ns = Some b \<and>
     (\<forall>w k v. fst (Store b w k v) = fst (rb_Store R (aw_now (fst w)) (load_rb ns (fst w)) k v) \<and>
        load_rb ns (fst (snd (Store b w k v))) = snd (rb_Store R (aw_now (fst w)) (load_rb ns (fst w)) k v)) \<and>
     (\<forall>w k. fst (Fetch b w k) = fst (rb_Fetch R (aw_now (fst w)) (load_rb ns (fst w)) k))"
proof -
  have neq: "namespacePublicKey \<noteq> namespaceIPNS" by (simp add: namespace_defs)
  from assms(2) consider "ns = namespaceIPNS" | "ns = namespacePublicKey" by (auto simp: record_namespace_def)
  then show ?thesis
  proof cases
    case 1
    then have "map_of (d_backends D) ns = Some (traceWrapBackend ns (ipns_backend R Vi))"
      using assms(1) by (simp add: amino_node_def map_of_wrap_backends amino_backends_def namespace_defs)
    then show ?thesis
      using 1 by (simp add: traceWrapBackend_def tracedStore_def tracedFetch_def ipns_backend_def load_rb_def
          split_beta)
  next
    case 2
    then have "map_of (d_backends D) ns = Some (traceWrapBackend ns (pk_backend R Vp))"
      using assms(1) by (simp add: amino_node_def map_of_wrap_backends amino_backends_def namespace_defs)
    then show ?thesis
      using 2 neq by (simp add: traceWrapBackend_def tracedStore_def tracedFetch_def pk_backend_def load_rb_def
          split_beta)
  qed
qed

text \<open>What the serving node answers once it accepted a record.\<close>

lemma put_then_served:
  assumes node: "amino_node E R Vi Vp D" and ns: "record_namespace ns" "d_SplitKey D key = Inr (ns, path)"
    and laws: "datastore_laws R content" "proto_law R" "time_law R"
    and m: "msg_Key m = key" "msg_Record m = Some rec" "rec_Key rec = key"
    and put: "handlePutValue D w p m = (Inr r, w1)"
    and now: "unix_nano_ok (aw_now (fst w))" "time_Sub t (aw_now (fst w)) \<le> rb_MaxRecordAge (load_rb ns (fst w))"
    and get: "\<And>e. ds_Get R (aw_ds (fst w1)) (newDatastoreKey R (rb_namespace (load_rb ns (fst w))) [path]) \<noteq> Inl e"
    and ask: "handleGetValue D ((fst w1)\<lparr>aw_now := t\<rparr>, snd w1) q (get_value_msg key) = (r2, w2)"
  shows "\<exists>resp t1. r2 = Inr (Some resp) \<and> msg_Record resp = Some (rec\<lparr>rec_TimeReceived := t1\<rparr>) \<and>
           r = Some (stripPeerRecords (m\<lparr>msg_Record := msg_Record resp\<rparr>))"
proof -
  obtain b where b: "map_of (d_backends D) ns = Some b"
    "\<And>w k v. fst (Store b w k v) = fst (rb_Store R (aw_now (fst w)) (load_rb ns (fst w)) k v)"
    "\<And>w k v. load_rb ns (fst (snd (Store b w k v))) = snd (rb_Store R (aw_now (fst w)) (load_rb ns (fst w)) k v)"
    "\<And>w k. fst (Fetch b w k) = fst (rb_Fetch R (aw_now (fst w)) (load_rb ns (fst w)) k)"
    using record_backend [OF node ns(1)] by blast
  have k: "key \<noteq> []" "path \<noteq> []"
    using put m ns(2) by (auto simp: handlePutValue_def Let_def split: if_splits)
  obtain v where v: "Store b w path (AnyRecord rec) = (Inr v, w1)" "r = Some (stripPeerRecords (store_into v m))"
    using put m ns(2) b(1) k
    by (auto simp: handlePutValue_def Let_def split: if_splits prod.splits sum.splits)
  obtain b1 where st: "rb_Store R (aw_now (fst w)) (load_rb ns (fst w)) path (AnyRecord rec) = (Inr v, b1)"
    using b(2) [of w path "AnyRecord rec"] v(1) by (metis fst_conv prod.collapse)
  have b1: "load_rb ns (fst w1) = b1" using b(3) [of w path "AnyRecord rec"] v(1) st by simp
  then have "rb_datastore b1 = aw_ds (fst w1)" by (auto simp: load_rb_def)
  then have fetched: "rb_Fetch R t b1 path = (Inr v, b1) \<and> v = AnyRecord (rec\<lparr>rec_TimeReceived := time_Format R (aw_now (fst w))\<rparr>)"
    using record_fetched [OF laws st now] get by simp
  then have "fst (Fetch b ((fst w1)\<lparr>aw_now := t\<rparr>, snd w1) path) =
      Inr (AnyRecord (rec\<lparr>rec_TimeReceived := time_Format R (aw_now (fst w))\<rparr>))"
    using b(4) [of "((fst w1)\<lparr>aw_now := t\<rparr>, snd w1)" path] b1 by simp
  then obtain w3 where "Fetch b ((fst w1)\<lparr>aw_now := t\<rparr>, snd w1) path =
      (Inr (AnyRecord (rec\<lparr>rec_TimeReceived := time_Format R (aw_now (fst w))\<rparr>)), w3)"
    by (metis prod.collapse)
  then show ?thesis
    using ask k ns(2) b(1) v(2) fetched by (auto simp: handleGetValue_def Let_def)
qed

section \<open>Publishing\<close>

text \<open>
  A node \<open>P\<close> whose coordinator reaches the node \<open>D\<close> and no other: the state of \<open>P\<close> holds that of \<open>D\<close> as its
  second part. A publication that counts as a success was delivered to \<open>D\<close>. For a request with a response it counts only
  if \<open>D\<close> handled it without error and \<open>VerifyResponse\<close> found nothing wrong with the answer; for ADD_PROVIDER, which
  has no response, it counts whatever the handler of \<open>D\<close> made of it. Nothing else that \<open>P\<close> does changes \<open>D\<close>.
\<close>

definition publishes_to ::
  "('p \<times> 'd, 'm, 'b, 'y) Node_scheme \<Rightarrow> ('d, 'm, 'h, 'z) DHT_scheme \<Rightarrow> bool" where
  "publishes_to P D \<longleftrightarrow>
     (\<forall>x m n x'. n_Publish P x m = (Inr n, x') \<longrightarrow> n > 0 \<longrightarrow>
        (\<exists>res. handleMsg D (snd x) (d_self P) m = (res, snd x') \<and>
           (ExpectResponse m = Inr True \<longrightarrow> (\<exists>r. res = Inr r \<and> verifyStoredRecord m r = None)))) \<and>
     (\<forall>ns b. map_of (d_backends P) ns = Some b \<longrightarrow> (\<forall>x k v. snd (snd (Store b x k v)) = snd x)) \<and>
     (\<forall>add. n_provideKeys_Add P = Some add \<longrightarrow> (\<forall>x k. snd (snd (add x k)) = snd x))"

lemma publishes_to_Store:
  "publishes_to P D \<Longrightarrow> map_of (d_backends P) ns = Some b \<Longrightarrow> Store b x k v = (r, x') \<Longrightarrow> snd x' = snd x"
  unfolding publishes_to_def by (metis snd_conv)

lemma publishes_to_Publish:
  "publishes_to P D \<Longrightarrow> n_Publish P x m = (Inr n, x') \<Longrightarrow> n > 0 \<Longrightarrow>
     \<exists>res. handleMsg D (snd x) (d_self P) m = (res, snd x') \<and>
       (ExpectResponse m = Inr True \<longrightarrow> (\<exists>r. res = Inr r \<and> verifyStoredRecord m r = None))"
  unfolding publishes_to_def by blast

lemma provideOnce_published:
  assumes net: "publishes_to P D" and provide: "provideOnce P x c True = (None, x')"
  shows "\<exists>res. handleAddProvider D (snd x) (d_self P) (provideRecord P (NewKey (d_hash P) (cid_Hash c))) =
           (res, snd x')"
proof -
  let ?m = "provideRecord P (NewKey (d_hash P) (cid_Hash c))"
  obtain b v x1 n where p: "map_of (d_backends P) namespaceProviders = Some b"
    "Store b x (cid_Hash c) (AnyAddrInfo \<lparr>ai_ID = d_self P, ai_Addrs = []\<rparr>) = (Inr v, x1)"
    "n_Publish P x1 ?m = (Inr n, x')" "n > 0"
    using provide by (auto simp: provideOnce_def split: option.splits if_splits prod.splits sum.splits)
  have "snd x1 = snd x" using publishes_to_Store [OF net p(1,2)] .
  then show ?thesis
    using publishes_to_Publish [OF net p(3,4)] by (auto simp: handle_by_type)
qed

lemma provide_published:
  assumes net: "publishes_to P D" and provide: "Provide P x c True = (None, x')"
  shows "cid_Defined c \<and>
     (\<exists>res. handleAddProvider D (snd x) (d_self P) (provideRecord P (NewKey (d_hash P) (cid_Hash c))) = (res, snd x'))"
proof (cases "n_provideKeys_Add P")
  case None
  then show ?thesis
    using provide provideOnce_published [OF net] by (simp add: Provide_def split: if_splits)
next
  case (Some add)
  then obtain x1 where a: "cid_Defined c" "add x (NewKey (d_hash P) (cid_Hash c)) = (None, x1)"
    "provideOnce P x1 c True = (None, x')"
    using provide by (auto simp: Provide_def split: if_splits prod.splits option.splits)
  have "snd x1 = snd x" using net Some a(2) unfolding publishes_to_def by (metis snd_conv)
  then show ?thesis using provideOnce_published [OF net a(3)] a(1) by simp
qed

lemma put_value_published:
  assumes net: "publishes_to P D" and put: "PutValue P x key v (Inr ropt) = (None, x')" "\<not> ro_Offline ropt"
  shows "\<exists>r. handlePutValue D (snd x) (d_self P) (put_value_msg P key v) = (Inr r, snd x') \<and>
           verifyStoredRecord (put_value_msg P key v) r = None"
proof -
  obtain x1 n where p: "putValueLocal P x key v = (None, x1)" "n_Publish P x1 (put_value_msg P key v) = (Inr n, x')" "n > 0"
    using put by (auto simp: PutValue_def Let_def split: option.splits if_splits prod.splits sum.splits)
  have "snd x1 = snd x"
    using p(1) publishes_to_Store [OF net]
    by (auto simp: putValueLocal_def split: option.splits prod.splits sum.splits)
  then show ?thesis
    using publishes_to_Publish [OF net p(2,3)] by (auto simp: handle_by_type ExpectResponse_def message_types)
qed

section \<open>A concrete network\<close>

text \<open>The demonstration node with the Amino backends, one that publishes to it and one that asks it.\<close>

definition accept_backend :: "('w, 'm) Backend" where
  "accept_backend =
     \<lparr>Store = (\<lambda>w k v. (Inr v, w)), Fetch = (\<lambda>w k. (Inl ErrNotFound, w)),
      Validate = rb_Validate len_validator namespaceIPNS\<rparr>"

type_synonym mem_world = "(bytes, mem_ds, mem_ab, mem_lru) amino_world traced"

definition net_node :: "peer_id \<Rightarrow> ('w, bytes, bytes) Node" where
  "net_node self =
     \<lparr>d_self = self, d_BucketSize = 20, d_hash = demo_hash, d_ma = demo_ma,
      d_NearestNodes = (\<lambda>w k n. []), d_PeerInfo = (\<lambda>w p. \<lparr>ai_ID = p, ai_Addrs = []\<rparr>),
      d_NotifyConnectivity = (\<lambda>w p. w), d_SplitKey = slash_SplitKey,
      d_backends = [(namespaceProviders, accept_backend), (namespaceIPNS, accept_backend)],
      n_Connected = (\<lambda>w p. False), n_HostAddrs = [''a''], n_QueryClosest = (\<lambda>w k n. (([], None), w)),
      n_QueryMessage = (\<lambda>w m n. (([], None), w)), n_Publish = (\<lambda>w m. (Inr 0, w)), n_provideKeys_Add = None,
      n_MakePutRecord = (\<lambda>k v. \<lparr>rec_Key = k, rec_Value = v, rec_TimeReceived = []\<rparr>),
      n_Format_now = (\<lambda>w. []), n_DefaultQuorum = 0\<rparr>"

definition publisher :: "(unit \<times> mem_world, bytes, bytes) Node" where
  "publisher = (net_node ''p'')\<lparr>n_Publish := (\<lambda>x m. case handleMsg mem_node (snd x) ''p'' m of
      (res, w) \<Rightarrow>
        (Inr (if ExpectResponse m \<noteq> Inr True \<or> (case res of Inl e \<Rightarrow> False | Inr r \<Rightarrow> verifyStoredRecord m r = None)
              then 1 else 0), ((), w)))\<rparr>"

definition finder :: "(mem_world, bytes, bytes) Node" where
  "finder = (net_node ''q'')\<lparr>n_QueryMessage := (\<lambda>w m n.
      case handleMsg mem_node ((fst w)\<lparr>aw_now := 2000\<rparr>, snd w) ''q'' m of
        (Inl e, w') \<Rightarrow> (([], None), w')
      | (Inr r, w') \<Rightarrow> (([(''self'', r)], None), w'))\<rparr>"

lemma publisher_publishes: "publishes_to publisher mem_node"
  by (auto simp: publishes_to_def publisher_def net_node_def accept_backend_def
      split: prod.splits sum.splits if_splits)

lemma net_sel [simp]:
  "d_self (net_node s) = s" "d_hash (net_node s) = demo_hash" "d_ma (net_node s) = demo_ma"
  "n_provideKeys_Add (net_node s) = None" "n_HostAddrs (net_node s) = [''a'']" "d_BucketSize (net_node s) = 20"
  "d_SplitKey (net_node s) = slash_SplitKey"
  "d_backends (net_node s) = [(namespaceProviders, accept_backend), (namespaceIPNS, accept_backend)]"
  "n_MakePutRecord (net_node s) k v = \<lparr>rec_Key = k, rec_Value = v, rec_TimeReceived = []\<rparr>"
  by (simp_all add: net_node_def)

section \<open>Properties\<close>

text \<open>
  C2: What one node provides another finds: if Provide reported success to a node with addresses, and the node it
  reached has the default backends and a datastore that takes the record, then FindProviders on a third node
  returns the publisher among the providers, whoever else answers, if its walk visits the serving node within the
  validity of the record and meets no provider set in the cache there.
\<close>
theorem provide_then_find:
  assumes node: "amino_node E R Vi Vp D" and lib: "lib_laws E" and laws: "datastore_laws E content"
    and ns: "clean_part (pb_namespace (aw_pb (fst (snd x))))"
    and net: "publishes_to P D" and provide: "Provide P x c True = (None, x')" and self: "d_self P \<noteq> []"
    and ma: "ma_law (d_ma D)" "d_ma P = d_ma D" and put: "\<And>d k v. fst (ds_Put E d k v) = None"
    and hash: "cid_Hash c \<noteq> []" "length (cid_Hash c) \<le> 80" and addrs: "n_HostAddrs P \<noteq> []"
    and now: "unix_nano_ok (aw_now (fst (snd x)))"
      "t - aw_now (fst (snd x)) \<le> ProvideValidity (pb_cfg (aw_pb (fst (snd x))))"
      "minDuration \<le> ProvideValidity (pb_cfg (aw_pb (fst (snd x))))"
      "ProvideValidity (pb_cfg (aw_pb (fst (snd x)))) < maxDuration"
    and miss: "fst (lru_Get E (pb_cache (aw_pb (fst (snd x'))))
                 (newDatastoreKey E (pb_namespace (aw_pb (fst (snd x)))) [cid_Hash c])) = None"
    and entries: "ds_Query E (aw_ds (fst (snd x')))
                 (newDatastoreKey E (pb_namespace (aw_pb (fst (snd x)))) [cid_Hash c]) = Inr es"
      "\<forall>e \<in> set es. \<not> is_error_entry e"
    and asked: "handleMsg D ((fst (snd x'))\<lparr>aw_now := t\<rparr>, snd (snd x')) (d_self F) (get_providers_msg (cid_Hash c)) =
                 (r, w2)"
    and known: "map_of (d_backends F) namespaceProviders = Some b" "Fetch b f (cid_Hash c) = (fetched, f1)"
      "local_providers fetched loc"
    and query: "n_QueryMessage F f1 (get_providers_msg (cid_Hash c)) (d_BucketSize F) = ((visits, None), f2)"
    and visited: "\<forall>resp. r = Inr resp \<longrightarrow> (d_self D, resp) \<in> set visits"
  shows "\<exists>out. fst (FindProviders F f c 0) = Inr out \<and> d_self P \<in> ai_ID ` set out"
proof -
  let ?m = "provideRecord P (NewKey (d_hash P) (cid_Hash c))"
  obtain res where pub: "cid_Defined c" "handleAddProvider D (snd x) (d_self P) ?m = (res, snd x')"
    using provide_published [OF net provide] by blast
  then have add: "cid_Defined c" "handleAddProvider D (snd x) (d_self P) ?m = (Inr None, snd x')"
    using announcement_accepted [OF node ma hash addrs put, of "snd x" "d_hash P"] by auto
  have get: "handleGetProviders D ((fst (snd x'))\<lparr>aw_now := t\<rparr>, snd (snd x')) (d_self F) (get_providers_msg (cid_Hash c)) =
      (r, w2)"
    using asked by (simp add: handle_by_type)
  obtain resp where resp: "r = Inr (Some resp)" "d_self P \<in> mp_Id ` set (msg_ProviderPeers resp)"
    using added_provider_found [OF node lib laws ns add(2) self now _ _ entries(2) _ get] miss entries(1) by auto
  then have "d_self P \<in> ai_ID ` set (loc @ responses (d_ma F) visits)"
    using visited response_ids [of "d_ma F" resp] by fastforce
  moreover have "fst (FindProviders F f c 0) = Inr (firsts {} (loc @ responses (d_ma F) visits))"
    using find_providers_result [OF known(1) add(1) known(2,3) query, of 0]
    by (auto simp: limit_def split: prod.splits sum.splits)
  ultimately show ?thesis by (simp add: firsts_ids)
qed

lemma provide_then_find_witness:
  "\<exists>x'. Provide publisher ((), mem_amino, []) \<lparr>cid_Defined = True, cid_Hash = ''k''\<rparr> True = (None, x') \<and>
     (\<exists>out. fst (FindProviders finder (snd x') \<lparr>cid_Defined = True, cid_Hash = ''k''\<rparr> 0) = Inr out \<and>
        ''p'' \<in> ai_ID ` set out)"
proof -
  let ?c = "\<lparr>cid_Defined = True, cid_Hash = ''k''\<rparr>" and ?x = "((), mem_amino, []) :: unit \<times> mem_world"
  obtain w1 where w1: "handleAddProvider mem_node (mem_amino, []) ''p'' add_req = (Inr None, w1)"
    "pb_cache (aw_pb (fst w1)) = []"
    using add_req_run by blast
  have m: "provideRecord publisher (NewKey demo_hash ''k'') = add_req"
    by (simp add: provideRecord_def publisher_def add_req_def FromAddrInfo_def demo_ma_def message_types)
  have p: "Provide publisher ?x ?c True = (None, ((), w1))"
    using w1(1) m
    by (simp add: Provide_def provideOnce_def publisher_def accept_backend_def handle_by_type add_req_def
        verifyStoredRecord_def message_types ExpectResponse_def)
  obtain es where es: "mem_query (aw_ds (fst w1)) (newDatastoreKey mem_env ''providers'' [''k'']) = Inr es"
    "\<forall>e \<in> set es. \<not> is_error_entry e"
    using mem_query_ok by blast
  obtain r w2 where g: "handleMsg mem_node ((fst w1)\<lparr>aw_now := 2000\<rparr>, snd w1) ''q'' (get_providers_msg ''k'') = (r, w2)"
    by (cases "handleMsg mem_node ((fst w1)\<lparr>aw_now := 2000\<rparr>, snd w1) ''q'' (get_providers_msg ''k'')")
  let ?vs = "case r of Inl e \<Rightarrow> [] | Inr resp \<Rightarrow> [(''self'', resp)]"
  have q: "n_QueryMessage finder w1 (get_providers_msg ''k'') (d_BucketSize finder) = ((?vs, None), w2)"
    using g by (cases r) (simp_all add: finder_def)
  have b: "map_of (d_backends finder) namespaceProviders = Some accept_backend" by (simp add: finder_def)
  have f: "Fetch accept_backend w1 ''k'' = (Inl ErrNotFound, w1)" by (simp add: accept_backend_def)
  have l: "local_providers (Inl ErrNotFound :: goerr + bytes any) []" by (simp add: local_providers_def)
  have v: "\<forall>resp. r = Inr resp \<longrightarrow> (d_self mem_node, resp) \<in> set ?vs" by (auto simp: mem_node_def)
  have sel: "aw_pb mem_amino = mem_pb" "aw_now mem_amino = 1000" by (simp_all add: mem_amino_def)
  have s: "d_self finder = ''q''" "d_self publisher = ''p''" by (simp_all add: finder_def publisher_def)
  have ma: "d_ma mem_node = demo_ma" "d_ma publisher = demo_ma" "n_HostAddrs publisher = [''a'']" "ma_law demo_ma"
    "\<And>d k v. fst (ds_Put mem_env d k v) = None"
    by (simp_all add: mem_node_def publisher_def ma_law_def demo_ma_def mem_env_def)
  have "\<exists>out. fst (FindProviders finder w1 ?c 0) = Inr out \<and> d_self publisher \<in> ai_ID ` set out"
    by (rule provide_then_find [OF mem_node_amino mem_env_lib mem_env_laws _ publisher_publishes p _ _ _ _ _ _ _ _ _ _ _ _ _ es(2)
          _ b _ l _ v, where t = 2000 and ?w2.0 = w2 and ?f1.0 = w1 and ?f2.0 = w2])
       (use f q g in \<open>simp_all add: sel s w1(2) es(1) clean_part_def unix_nano_ok_def minDuration_def maxDuration_def
         Hour_def ma\<close>)
  then show ?thesis using p s by auto
qed

text \<open>
  C3: A value that one node puts another gets: if PutValue reported success, having reached a node with the default
  backends, then GetValue returns exactly that value on a third node that has no value itself, takes the value for
  valid, and visits the serving node before the record is too old, provided that no visited node answers with
  another value and that the datastore of the serving node can be read.
\<close>
theorem put_then_get:
  assumes node: "amino_node E R Vi Vp D" and ns: "record_namespace ns"
    and laws: "datastore_laws R content" "proto_law R" "time_law R"
    and key: "d_SplitKey D key = Inr (ns, path)" "d_SplitKey F key = Inr (ns, path)" "newRoutingKey ns path = key"
    and net: "publishes_to P D" and put: "PutValue P x key v (Inr opts) = (None, x')" "\<not> ro_Offline opts"
    and make: "n_MakePutRecord P key v = \<lparr>rec_Key = key, rec_Value = v, rec_TimeReceived = []\<rparr>"
    and now: "unix_nano_ok (aw_now (fst (snd x)))"
      "time_Sub t (aw_now (fst (snd x))) \<le> rb_MaxRecordAge (load_rb ns (fst (snd x)))"
    and get: "\<And>e. ds_Get R (aw_ds (fst (snd x')))
                 (newDatastoreKey R (rb_namespace (load_rb ns (fst (snd x)))) [path]) \<noteq> Inl e"
    and asked: "handleMsg D ((fst (snd x'))\<lparr>aw_now := t\<rparr>, snd (snd x')) (d_self F) (get_value_msg key) = (r, w2)"
    and unknown: "map_of (d_backends F) ns = Some b" "Fetch b f path = (Inl e, f1)" "errors_Is e ErrNotFound"
    and query: "n_QueryMessage F f1 (get_value_msg key) (d_BucketSize F) = ((visits, qerr), f2)"
    and visited: "\<forall>resp. r = Inr resp \<longrightarrow> (d_self D, resp) \<in> set visits" "only_value key v visits"
    and valid: "preferred (Validate b) path [] v" "v \<noteq> []" and online: "\<not> ro_Offline ropt"
  shows "fst (GetValue F f key (Inr ropt) None) = (v, None)"
proof -
  let ?m = "put_value_msg P key v"
  obtain a where add: "handlePutValue D (snd x) (d_self P) ?m = (Inr a, snd x')"
    using put_value_published [OF net put] by blast
  have ask: "handleGetValue D ((fst (snd x'))\<lparr>aw_now := t\<rparr>, snd (snd x')) (d_self F) (get_value_msg key) = (r, w2)"
    using asked by (simp add: handle_by_type)
  obtain resp t1 where resp: "r = Inr (Some resp)"
    "msg_Record resp = Some (\<lparr>rec_Key = key, rec_Value = v, rec_TimeReceived = t1\<rparr>)"
    using put_then_served [OF node ns key(1) laws _ _ _ add now get ask] make by auto
  then have "answered key visits (d_self D) v" using visited(1) by (auto simp: answered_def)
  then show ?thesis
    using get_value_found(2) [OF key(2) unknown(1) online unknown(2), of "[]" visits qerr f2 "d_self D" v] query
      visited(2) valid key(3) unknown(3) by (simp add: local_values_def)
qed

lemma put_then_get_witness:
  "\<exists>x'. PutValue publisher ((), mem_amino, []) ''/ipns/n'' ''v'' (Inr \<lparr>ro_Offline = False, ro_quorum = None\<rparr>) = (None, x') \<and>
     fst (GetValue finder (snd x') ''/ipns/n'' (Inr \<lparr>ro_Offline = False, ro_quorum = None\<rparr>) None) = (''v'', None)"
proof -
  let ?o = "\<lparr>ro_Offline = False, ro_quorum = None\<rparr>" and ?x = "((), mem_amino, []) :: unit \<times> mem_world"
  let ?m = "put_value_msg publisher ''/ipns/n'' ''v''"
  have ns: "record_namespace namespaceIPNS" by (simp add: record_namespace_def)
  have key: "slash_SplitKey ''/ipns/n'' = Inr (namespaceIPNS, ''n'')" by code_simp
  have keys: "d_SplitKey mem_node ''/ipns/n'' = Inr (namespaceIPNS, ''n'')"
    "d_SplitKey finder ''/ipns/n'' = Inr (namespaceIPNS, ''n'')" "d_SplitKey publisher ''/ipns/n'' = Inr (namespaceIPNS, ''n'')"
    using key by (simp_all add: mem_node_def finder_def publisher_def)
  have make: "n_MakePutRecord publisher ''/ipns/n'' ''v'' =
      \<lparr>rec_Key = ''/ipns/n'', rec_Value = ''v'', rec_TimeReceived = []\<rparr>"
    by (simp add: publisher_def)
  have load: "load_rb namespaceIPNS mem_amino = mem_rb"
    by (simp add: load_rb_def mem_amino_def mem_rb_def NewBackendIPNS_def)
  have "map_of (d_backends mem_node) namespaceIPNS = Some (traceWrapBackend namespaceIPNS (ipns_backend mem_rec_env len_validator))"
    using mem_node_amino by (simp add: amino_node_def map_of_wrap_backends amino_backends_def)
  then obtain resp0 w1 where w1: "handlePutValue mem_node (mem_amino, []) ''p'' ?m = (Inr (Some resp0), w1)"
    "verifyStoredRecord ?m (Some resp0) = None" "aw_ds (fst w1) = [(rb_key mem_rec_env mem_rb ''n'',
        pair_encode ''/ipns/n'' @ ''/'' @ pair_encode ''v'' @ ''/'' @ time_Format mem_rec_env 1000)]"
    using mem_rb_store load
    by (simp add: handlePutValue_def keys make Let_def traceWrapBackend_def tracedStore_def ipns_backend_def
        load_rb_def mem_amino_def verifyStoredRecord_def stripPeerRecords_def)
  have p: "PutValue publisher ?x ''/ipns/n'' ''v'' (Inr ?o) = (None, ((), w1))"
    using w1 key
    by (simp add: PutValue_def putValueLocal_def publisher_def accept_backend_def handle_by_type Let_def
        verifyStoredRecord_def stripPeerRecords_def namespace_defs)
  have now: "unix_nano_ok (aw_now mem_amino)" "time_Sub 2000 (aw_now mem_amino) \<le> rb_MaxRecordAge mem_rb"
    by (simp_all add: mem_amino_def unix_nano_ok_def time_Sub_def mem_rb_def NewBackendIPNS_def
        DefaultRecordBackendConfig_def Hour_def minDuration_def maxDuration_def)
  have get: "ds_Get mem_rec_env (aw_ds (fst (snd ((), w1)))) (rb_key mem_rec_env mem_rb ''n'') \<noteq> Inl e" for e
    by (simp add: w1(3) mem_get_def)
  obtain r w2 where g: "handleMsg mem_node ((fst w1)\<lparr>aw_now := 2000\<rparr>, snd w1) ''q'' (get_value_msg ''/ipns/n'') = (r, w2)"
    by (cases "handleMsg mem_node ((fst w1)\<lparr>aw_now := 2000\<rparr>, snd w1) ''q'' (get_value_msg ''/ipns/n'')")
  then obtain resp t1 where r: "r = Inr (Some resp)"
    "msg_Record resp = Some (\<lparr>rec_Key = ''/ipns/n'', rec_Value = ''v'', rec_TimeReceived = t1\<rparr>)"
    using put_then_served [OF mem_node_amino ns keys(1) mem_rec_laws mem_proto_law mem_time_law _ _ _ w1(1),
        where t = 2000 and q = "''q''" and ?r2.0 = r and ?w2.0 = w2] now make get load
    by (auto simp: handle_by_type)
  let ?vs = "[(''self'', Some resp)]"
  have q: "n_QueryMessage finder w1 (get_value_msg ''/ipns/n'') (d_BucketSize finder) = ((?vs, None), w2)"
    using g r by (simp add: finder_def)
  have b: "map_of (d_backends finder) namespaceIPNS = Some accept_backend"
    by (simp add: finder_def namespace_defs)
  have f: "Fetch accept_backend w1 ''n'' = (Inl ErrNotFound, w1)" by (simp add: accept_backend_def)
  have v: "\<forall>resp. r = Inr resp \<longrightarrow> (d_self mem_node, resp) \<in> set ?vs" using r by (simp add: mem_node_def)
  have same: "only_value ''/ipns/n'' ''v'' ?vs" using r by (auto simp: only_value_def answered_def)
  have valid: "preferred (Validate (accept_backend :: (mem_world, bytes) Backend)) ''n'' [] ''v''" by code_simp
  have rk: "newRoutingKey namespaceIPNS ''n'' = ''/ipns/n''" by code_simp
  have s: "d_self finder = ''q''" "d_self publisher = ''p''" by (simp_all add: finder_def publisher_def)
  have "fst (GetValue finder w1 ''/ipns/n'' (Inr ?o) None) = (''v'', None)"
    by (rule put_then_get [OF mem_node_amino ns mem_rec_laws mem_proto_law mem_time_law keys(1,2) rk
          publisher_publishes p _ make _ _ _ _ b f _ q v same valid, where t = 2000 and ?w2.0 = w2])
       (use g now get load in \<open>simp_all add: s\<close>)
  then show ?thesis using p by auto
qed

end
