(* ===== verification/Wire.thy ===== *)
theory Wire
  imports Network Router
begin

text \<open>
  Requests over the wire: \<open>SendMessage\<close> of one node (\<open>router.go\<close>) against the stream handler of another
  (\<open>stream.go\<close>, \<open>handlers.go\<close>). The bytes that the sender reads are those that the handler wrote for
  the bytes of the request. The streams work; the codec of the messages gives back what it was given.
\<close>

definition wire_io :: "goerr + bytes \<Rightarrow> call_io" where
  "wire_io data = \<lparr>io_NewStream = None, io_SetDeadline = None, io_WriteMsg = None, io_ReadMsg = data\<rparr>"

definition wire_call ::
  "('v, 'n, 'b, 'z) DHT_scheme \<Rightarrow> (bytes \<Rightarrow> goerr + Message) \<Rightarrow> (Message \<Rightarrow> bytes) \<Rightarrow> ('w, 'm) router
     \<Rightarrow> 'w \<Rightarrow> 'v \<Rightarrow> Message \<Rightarrow> int \<Rightarrow> (goerr + Message option) may_panic \<times> 'w \<times> 'v" where
  "wire_call D unmarshal marshal r w v req deadline =
     (case answer_of D unmarshal marshal v (r_self r) req of
        (data, v') \<Rightarrow>
          (case SendMessage r (wire_io data) w (d_self D) req deadline of
             (res, s) \<Rightarrow> (res, sent_world s, v')))"

text \<open>What is promised of the codec, for a request and its response.\<close>

definition codec_law ::
  "(bytes \<Rightarrow> goerr + Message) \<Rightarrow> (Message \<Rightarrow> bytes) \<Rightarrow> ('v, 'n, 'b, 'z) DHT_scheme \<Rightarrow> ('w, 'm) router
     \<Rightarrow> 'v \<Rightarrow> Message \<Rightarrow> bool" where
  "codec_law unmarshal marshal D r v req \<longleftrightarrow>
     unmarshal (marshal req) = Inr req \<and>
     (\<forall>m v'. handleMsg D v (r_self r) req = (Inr (Some m), v') \<longrightarrow> r_Unmarshal r (marshal m) = Inr m)"

lemma answer_of_request:
  assumes "unmarshal (marshal req) = Inr req" "handleMsg D v remote req = (res, v')"
  shows "answer_of D unmarshal marshal v remote req =
     (case res of Inr (Some m) \<Rightarrow> Inr (marshal m) | _ \<Rightarrow> Inl (Errorf ''stream reset''), v')"
  using assms
  by (simp add: answer_of_def streamHandler_def handleNewStream_def streamReadMsg_def
      streamUnmarshalMsg_def streamWriteMsg_def writeMsg_def Let_def stream_loop.simps split: sum.split option.split)

text \<open>The outcome of a call in terms of the handler of the other node.\<close>

definition wire_result :: "bool \<Rightarrow> goerr + Message option \<Rightarrow> goerr + Message option" where
  "wire_result expect res =
     (if \<not> expect then Inr None
      else (case res of Inl e \<Rightarrow> Inl (Wrapf ''read message'' (Errorf ''stream reset'')) | Inr resp \<Rightarrow> Inr resp))"

lemma wire_call_eq:
  assumes codec: "codec_law unmarshal marshal D r v req" and addrs: "r_Addrs r w (d_self D) \<noteq> []"
    and expect: "ExpectResponse req = Inr expect" and handled: "handleMsg D v (r_self r) req = (res, v')"
  shows "wire_call D unmarshal marshal r w v req deadline =
     (Inr (wire_result expect res),
      (case wire_result expect res of
         Inr (Some m) \<Rightarrow> add_closer r (CloserPeersAddrInfos (r_ma r) (Some m)) w | _ \<Rightarrow> w),
      v')"
proof -
  have c: "unmarshal (marshal req) = Inr req" "\<And>m. res = Inr (Some m) \<Longrightarrow> r_Unmarshal r (marshal m) = Inr m"
    using codec handled by (auto simp: codec_law_def)
  note answer = answer_of_request [of unmarshal marshal, OF c(1) handled]
  note eqs = wire_call_def answer SendMessage_def addrs exchange_def wire_io_def expect wire_result_def Let_def
  show ?thesis
  proof (cases res)
    case (Inl e)
    then show ?thesis by (cases expect) (simp_all add: eqs)
  next
    case (Inr resp)
    have "expect = (resp \<noteq> None)" using handleMsg_response [of D v "r_self r" req resp v'] handled Inr expect by simp
    then show ?thesis using Inr c(2) by (cases resp) (simp_all add: eqs)
  qed
qed

section \<open>Properties\<close>

text \<open>
  C7: A request over the wire has the outcome of the other node's handler, in both worlds: a sender
  that expects a response gets exactly the response of the handler, and learns the closer peers in it, or an
  error if the handler fails; one that does not expect a response always reports success, even when the
  handler refuses the request.
\<close>
theorem send_over_the_wire:
  assumes "codec_law unmarshal marshal D r v req" "r_Addrs r w (d_self D) \<noteq> []"
    and "ExpectResponse req = Inr expect" and "handleMsg D v (r_self r) req = (res, v')"
    and "wire_call D unmarshal marshal r w v req deadline = (out, w2, v2)"
  shows "v2 = v' \<and>
         (if expect then
            (case res of
               Inl e \<Rightarrow> (\<exists>err. out = Inr (Inl err)) \<and> w2 = w
             | Inr resp \<Rightarrow> resp \<noteq> None \<and> out = Inr (Inr resp) \<and>
                 w2 = add_closer r (CloserPeersAddrInfos (r_ma r) resp) w)
          else out = Inr (Inr None) \<and> w2 = w)"
proof -
  note call = assms(5) [unfolded wire_call_eq [OF assms(1-4), of deadline]]
  show ?thesis
  proof (cases res)
    case (Inl e)
    then show ?thesis using call by (cases expect) (auto simp: wire_result_def)
  next
    case (Inr resp)
    have "expect = (resp \<noteq> None)" using handleMsg_response [of D v "r_self r" req resp v'] assms(3,4) Inr by simp
    then show ?thesis using call Inr by (cases resp) (auto simp: wire_result_def)
  qed
qed

text \<open>
  C6: The whole path of a provider record: a node with addresses that sends its announcement to a node with the
  default backends, whose datastore takes the record, is named in the response to a node that asks there for the
  providers of the key within the validity of the record, if that request meets no provider set of the key in the
  cache (one that does gets an error: C33) - through the senders, the streams, the handlers, the backend and the
  datastore.
\<close>
theorem providers_over_the_wire:
  assumes node: "amino_node E R Vi Vp D" and lib: "lib_laws E" and laws: "datastore_laws E content"
    and ns: "clean_part (pb_namespace (aw_pb (fst v)))"
    and announce: "req = provideRecord P (NewKey (d_hash P) k)" "k \<noteq> []" "length k \<le> 80"
      "ma_law (d_ma D)" "d_ma P = d_ma D" "n_HostAddrs P \<noteq> []" "\<And>d k v. fst (ds_Put E d k v) = None"
    and self: "r_self rp = d_self P" "d_self P \<noteq> []"
    and now: "unix_nano_ok (aw_now (fst v))" "t - aw_now (fst v) \<le> ProvideValidity (pb_cfg (aw_pb (fst v)))"
      "minDuration \<le> ProvideValidity (pb_cfg (aw_pb (fst v)))"
      "ProvideValidity (pb_cfg (aw_pb (fst v))) < maxDuration"
    and sent: "codec_law unmarshal marshal D rp v req" "r_Addrs rp wp (d_self D) \<noteq> []"
      "wire_call D unmarshal marshal rp wp v req dl = (out1, wp', v1)"
    and miss: "fst (lru_Get E (pb_cache (aw_pb (fst v1)))
                 (newDatastoreKey E (pb_namespace (aw_pb (fst v))) [k])) = None"
    and entries: "ds_Query E (aw_ds (fst v1)) (newDatastoreKey E (pb_namespace (aw_pb (fst v))) [k]) = Inr es"
      "\<forall>e \<in> set es. \<not> is_error_entry e"
    and asked: "codec_law unmarshal marshal D rq ((fst v1)\<lparr>aw_now := t\<rparr>, snd v1) (get_providers_msg k)"
      "r_Addrs rq wq (d_self D) \<noteq> []"
      "wire_call D unmarshal marshal rq wq ((fst v1)\<lparr>aw_now := t\<rparr>, snd v1) (get_providers_msg k) dl' = (out2, wq', v2)"
  shows "out1 = Inr (Inr None) \<and>
         (\<exists>resp. out2 = Inr (Inr (Some resp)) \<and> d_self P \<in> ai_ID ` set (ProviderAddrInfos L (Some resp)))"
proof -
  obtain w1 where add: "handleAddProvider D v (d_self P) req = (Inr None, w1)"
    using announcement_accepted [OF node announce(4,5,2,3,6,7)] announce(1) by blast
  have handled: "handleMsg D v (r_self rp) req = (Inr None, w1)"
    using add self(1) announce(1) by (simp add: handle_by_type)
  have "ExpectResponse req = Inr False" using announce(1) by (simp add: ExpectResponse_def message_types)
  from wire_call_eq [OF sent(1,2) this handled, of dl] sent(3)
  have first: "out1 = Inr (Inr None)" "v1 = w1" by (simp_all add: wire_result_def)
  obtain res v3 where g: "handleMsg D ((fst v1)\<lparr>aw_now := t\<rparr>, snd v1) (r_self rq) (get_providers_msg k) = (res, v3)"
    by (cases "handleMsg D ((fst v1)\<lparr>aw_now := t\<rparr>, snd v1) (r_self rq) (get_providers_msg k)")
  have get: "handleGetProviders D ((fst w1)\<lparr>aw_now := t\<rparr>, snd w1) (r_self rq) (get_providers_msg k) = (res, v3)"
    using g by (simp add: handle_by_type first(2))
  have key: "msg_Key req = k" by (simp add: announce(1))
  obtain resp where resp: "res = Inr (Some resp)" "d_self P \<in> mp_Id ` set (msg_ProviderPeers resp)"
    using added_provider_found [OF node lib laws ns add self(2) now _ _ entries(2) _ get] miss entries(1)
    by (auto simp: key first(2))
  have "ExpectResponse (get_providers_msg k) = Inr True" by (simp add: ExpectResponse_def message_types)
  from wire_call_eq [OF asked(1,2) this g, of dl'] asked(3) resp(1)
  have "out2 = Inr (Inr (Some resp))" by (simp add: wire_result_def)
  then show ?thesis using first(1) resp(2) response_ids [of L resp] by auto
qed

section \<open>A concrete network\<close>

text \<open>A codec that knows two requests and one response, and a sender that uses it.\<close>

definition wire_marshal :: "Message \<Rightarrow> bytes" where
  "wire_marshal m = (if msg_Type m = Message_ADD_PROVIDER then ''add''
     else if msg_ProviderPeers m = [] then ''get'' else ''resp'')"

definition wire_unmarshal :: "bytes \<Rightarrow> goerr + Message" where
  "wire_unmarshal b = Inr (if b = ''add'' then add_req else get_providers_msg ''k'')"

definition wire_router :: "peer_id \<Rightarrow> Message \<Rightarrow> (unit, bytes) router" where
  "wire_router self resp =
     \<lparr>r_self = self, r_protocolID = ''/p'', r_ma = demo_ma, r_Addrs = (\<lambda>w p. [''a'']),
      r_Connected = (\<lambda>w p. False), r_AddAddrs = (\<lambda>w p as ttl. w), r_Unmarshal = (\<lambda>b. Inr resp), r_Size = (\<lambda>r. 0)\<rparr>"

lemma publisher_announces: "provideRecord publisher (NewKey demo_hash ''k'') = add_req"
  by (simp add: provideRecord_def publisher_def add_req_def FromAddrInfo_def demo_ma_def message_types)

lemma send_over_the_wire_witness:
  "\<exists>v2. wire_call mem_node wire_unmarshal wire_marshal (wire_router ''p'' zero_Message) () (mem_amino, []) add_req 0 =
     (Inr (Inr None), (), v2)"
proof -
  let ?r = "wire_router ''p'' zero_Message" and ?v = "(mem_amino, []) :: mem_world"
  obtain w1 where "handleAddProvider mem_node ?v ''p'' add_req = (Inr None, w1)" using add_req_run by blast
  then have h: "handleMsg mem_node ?v (r_self ?r) add_req = (Inr None, w1)"
    by (simp add: wire_router_def handle_by_type add_req_def message_types)
  have c: "codec_law wire_unmarshal wire_marshal mem_node ?r ?v add_req"
    using h by (simp add: codec_law_def wire_unmarshal_def wire_marshal_def add_req_def message_types)
  have e: "ExpectResponse add_req = Inr False" by (simp add: ExpectResponse_def add_req_def message_types)
  obtain out w2 v2 where call: "wire_call mem_node wire_unmarshal wire_marshal ?r () ?v add_req 0 = (out, w2, v2)"
    by (metis prod.exhaust)
  have "out = Inr (Inr None)"
    using send_over_the_wire [OF c _ e h call] by (simp add: wire_router_def)
  then show ?thesis using call by simp
qed

lemma providers_over_the_wire_witness:
  "\<exists>v1 v2 resp. wire_call mem_node wire_unmarshal wire_marshal (wire_router ''p'' zero_Message) () (mem_amino, []) add_req 0 =
       (Inr (Inr None), (), v1) \<and>
     wire_call mem_node wire_unmarshal wire_marshal (wire_router ''q'' resp) ()
       ((fst v1)\<lparr>aw_now := 2000\<rparr>, snd v1) (get_providers_msg ''k'') 0 = (Inr (Inr (Some resp)), (), v2) \<and>
     ''p'' \<in> ai_ID ` set (ProviderAddrInfos demo_ma (Some resp))"
proof -
  let ?rp = "wire_router ''p'' zero_Message" and ?v = "(mem_amino, []) :: mem_world"
  obtain w1 where w1: "handleAddProvider mem_node ?v ''p'' add_req = (Inr None, w1)" "pb_cache (aw_pb (fst w1)) = []"
    using add_req_run by blast
  have h: "handleMsg mem_node ?v (r_self ?rp) add_req = (Inr None, w1)"
    using w1(1) by (simp add: wire_router_def handle_by_type add_req_def message_types)
  have c: "codec_law wire_unmarshal wire_marshal mem_node ?rp ?v add_req"
    using h by (simp add: codec_law_def wire_unmarshal_def wire_marshal_def add_req_def message_types)
  have e: "ExpectResponse add_req = Inr False" by (simp add: ExpectResponse_def add_req_def message_types)
  have a: "r_Addrs (wire_router q m) () x \<noteq> []" for q m x by (simp add: wire_router_def)
  have call: "wire_call mem_node wire_unmarshal wire_marshal ?rp () ?v add_req 0 = (Inr (Inr None), (), w1)"
    using wire_call_eq [OF c a e h, of 0] by (simp add: wire_result_def)
  let ?v1 = "((fst w1)\<lparr>aw_now := 2000\<rparr>, snd w1)" and ?get = "get_providers_msg ''k''"
  define resp where "resp = (case fst (handleMsg mem_node ?v1 ''q'' ?get) of Inr (Some m) \<Rightarrow> m | _ \<Rightarrow> zero_Message)"
  let ?rq = "wire_router ''q'' resp"
  have c2: "codec_law wire_unmarshal wire_marshal mem_node ?rq ?v1 ?get"
    by (auto simp: codec_law_def wire_unmarshal_def wire_marshal_def message_types wire_router_def resp_def)
  obtain out2 wq v2 where call2: "wire_call mem_node wire_unmarshal wire_marshal ?rq () ?v1 ?get 0 = (out2, wq, v2)"
    by (metis prod.exhaust)
  obtain es where es: "mem_query (aw_ds (fst w1)) (newDatastoreKey mem_env ''providers'' [''k'']) = Inr es"
    "\<forall>e \<in> set es. \<not> is_error_entry e"
    using mem_query_ok by blast
  have sel: "aw_pb mem_amino = mem_pb" "aw_now mem_amino = 1000" by (simp_all add: mem_amino_def)
  have req: "add_req = provideRecord publisher (NewKey (d_hash publisher) ''k'')"
    using publisher_announces by (simp add: publisher_def)
  have "Inr (Inr None) = (Inr (Inr None) :: (goerr + Message option) may_panic) \<and>
      (\<exists>resp'. out2 = Inr (Inr (Some resp')) \<and> d_self publisher \<in> ai_ID ` set (ProviderAddrInfos demo_ma (Some resp')))"
    by (rule providers_over_the_wire [OF mem_node_amino mem_env_lib mem_env_laws _ req _ _ _ _ _ _ _ _ _ _ _ _ c a call
          _ _ es(2) c2 a call2])
       (use es(1) w1(2) in \<open>simp_all add: sel publisher_def mem_node_def wire_router_def clean_part_def unix_nano_ok_def ma_law_def demo_ma_def
         minDuration_def maxDuration_def Hour_def\<close>)
  then obtain resp' where r: "out2 = Inr (Inr (Some resp'))" "''p'' \<in> ai_ID ` set (ProviderAddrInfos demo_ma (Some resp'))"
    by (auto simp: publisher_def)
  obtain res v3 where g: "handleMsg mem_node ?v1 (r_self ?rq) ?get = (res, v3)"
    by (cases "handleMsg mem_node ?v1 (r_self ?rq) ?get")
  have "ExpectResponse ?get = Inr True" by (simp add: ExpectResponse_def message_types)
  from wire_call_eq [OF c2 a this g, of 0] call2 r(1)
  have "res = Inr (Some resp')" by (cases res) (auto simp: wire_result_def)
  then have "resp' = resp" using g by (simp add: resp_def wire_router_def)
  then show ?thesis using call call2 r by (intro exI [of _ w1] exI [of _ v2] exI [of _ resp]) simp
qed

end
