(* ===== verification/Composition.thy ===== *)
theory Composition
  imports Amino Keystore Stream
begin

text \<open>
  The components on their shared datastore: requests of remote peers, the garbage collection and the set
  of provided keys. Each backend writes below its own namespace, so whatever peers send, what lies
  elsewhere in the datastore stays as it is, and the keys that this node provides are among it.
\<close>

section \<open>Namespaces of a node\<close>

definition node_namespaces :: "('m, 'ds, 'ab, 'c) amino_world \<Rightarrow> bool" where
  "node_namespaces w \<longleftrightarrow>
     pb_namespace (aw_pb w) = namespaceProviders \<and> rb_namespace (aw_ipns w) = namespaceIPNS \<and>
     rb_namespace (aw_pk w) = namespacePublicKey"

definition foreign :: "bytes \<Rightarrow> bool" where
  "foreign k \<longleftrightarrow> \<not> under namespaceProviders k \<and> \<not> under namespaceIPNS k \<and> \<not> under namespacePublicKey k"

definition frames ::
  "('ds \<Rightarrow> bytes \<rightharpoonup> bytes) \<Rightarrow> ('m, 'ds, 'ab, 'c) amino_world \<Rightarrow> ('m, 'ds, 'ab, 'c) amino_world \<Rightarrow> bool" where
  "frames content w w' \<longleftrightarrow>
     node_namespaces w' \<and> (\<forall>k. foreign k \<longrightarrow> content (aw_ds w') k = content (aw_ds w) k)"

lemma frames_refl: "node_namespaces w \<Longrightarrow> frames content w w"
  by (simp add: frames_def)

lemma frames_trans: "frames content w w' \<Longrightarrow> frames content w' w'' \<Longrightarrow> frames content w w''"
  by (simp add: frames_def)

lemma clean_namespaces:
  "clean_part namespaceProviders" "clean_part namespaceIPNS" "clean_part namespacePublicKey"
  by (simp_all add: clean_part_def namespace_defs)

lemma own_key:
  assumes "lib_laws L" "clean_part ns" "[] \<notin> set bs" "bs \<noteq> []"
  shows "under ns (newDatastoreKey L ns bs)"
proof -
  have "newDatastoreKey L ns bs = ''/'' @ ns @ ''/'' @ join_slash (map (b32_encode L) bs)"
    using newDatastoreKey_eq [OF assms(1-3)] join_slash_Cons [of "map (b32_encode L) bs" ns] assms(4) by simp
  moreover have "take 1 ns \<noteq> ''/''" using assms(2) by (cases ns) (auto simp: clean_part_def)
  ultimately show ?thesis by (simp add: under_def)
qed

lemma own_subkey:
  assumes "lib_laws L" "clean_part ns" "key \<noteq> []" "under (newDatastoreKey L ns [key]) k"
  shows "under ns k"
proof -
  have "newDatastoreKey L ns [key] = ''/'' @ ns @ ''/'' @ b32_encode L key"
    using newDatastoreKey_eq [OF assms(1,2), of "[key]"] assms(3) by simp
  moreover have "take 1 ns \<noteq> ''/''" using assms(2) by (cases ns) (auto simp: clean_part_def)
  ultimately show ?thesis using assms(4) by (auto simp: under_def prefix_def)
qed

section \<open>The calls of the backends\<close>

lemma pb_Store_elsewhere:
  assumes "datastore_laws E content" and "\<And>a. v = AnyAddrInfo a \<Longrightarrow> k \<noteq> ds_key E p key (ai_ID a)"
  shows "content (pb_datastore (snd (pb_Store E now p key v))) k = content (pb_datastore p) k"
proof (cases v)
  case (AnyAddrInfo a)
  obtain e d where d: "ds_Put E (pb_datastore p) (ds_key E p key (ai_ID a)) (MarshalBinary \<lparr>expiry = now\<rparr>) = (e, d)"
    by (rule prod.exhaust)
  then have "content d k = content (pb_datastore p) k"
    using ds_Put_content [OF assms(1) d] assms(2) AnyAddrInfo by auto
  moreover have "pb_datastore (snd (pb_Store E now p key v)) = d"
    using d by (simp add: pb_Store_def AnyAddrInfo Let_def split: prod.split option.split)
  ultimately show ?thesis by simp
qed (simp_all add: pb_Store_def)

lemma pb_Fetch_elsewhere:
  assumes "datastore_laws E content" and "\<not> under (cache_key E p key) k"
  shows "content (pb_datastore (snd (pb_Fetch E now p key))) k = content (pb_datastore p) k"
proof (cases "fst (lru_Get E (pb_cache p) (cache_key E p key))")
  case (Some ps)
  then show ?thesis using pb_Fetch_hit [OF Some] by simp
next
  case None
  show ?thesis
  proof (cases "ds_Query E (pb_datastore p) (cache_key E p key)")
    case (Inl err)
    obtain c where "lru_Get E (pb_cache p) (cache_key E p key) = (None, c)"
      using None by (metis prod.collapse)
    then show ?thesis using Inl by (simp add: pb_Fetch_def Let_def)
  next
    case (Inr es)
    have "k \<notin> set (dead_keys E (pb_validity p) now es)"
    proof
      assume "k \<in> set (dead_keys E (pb_validity p) now es)"
      then obtain r where r: "(k, r) \<in> set es" "\<not> is_error_entry (k, r)" by (auto simp: dead_keys_def)
      then obtain b where "r = Inr b" by (cases r) auto
      then show False using ds_Query_sound [OF assms(1) Inr] r(1) assms(2) by blast
    qed
    then show ?thesis
      using pb_Fetch_miss [OF None Inr refl] delete_all_content [OF assms(1)] by metis
  qed
qed

lemma gc_loop_elsewhere:
  assumes "datastore_laws E content" and "\<forall>b. (k, Inr b) \<notin> set es"
  shows "content (gc_loop E v skip clk i es d) k = content d k"
  using assms(2)
proof (induction es arbitrary: i d)
  case (Cons e es)
  then show ?case
    by (cases e; cases "snd e") (auto simp: delete_other [OF assms(1)] split: sum.split)
qed simp

lemma rb_Fetch_elsewhere:
  fixes r :: "'ds RecordBackend"
  assumes "datastore_laws E content" and "k \<noteq> rb_key E r key"
  shows "content (rb_datastore (snd (rb_Fetch E now r key :: (goerr + 'm any) \<times> 'ds RecordBackend))) k =
           content (rb_datastore r) k"
proof -
  obtain res :: "goerr + 'm any" and r1 where f: "rb_Fetch E now r key = (res, r1)" by (rule prod.exhaust)
  then show ?thesis using rb_Fetch_content [OF assms(1) f] assms(2) by auto
qed

lemma rb_frame:
  "rb_namespace (snd (rb_Store E now r key v)) = rb_namespace r"
  "rb_namespace (snd (rb_Fetch E now r key)) = rb_namespace r"
  by (auto simp: rb_Store_def rb_Fetch_def Let_def split: any.split option.split sum.split prod.split)

section \<open>The backends of the node\<close>

lemma amino_cases:
  assumes "map_of (amino_backends E R Vi Vp) ns = Some be"
  obtains "be = ipns_backend R Vi" | "be = pk_backend R Vp" | "be = providers_backend E"
  using assms by (auto simp: amino_backends_def split: if_splits)

text \<open>
  What the laws of the libraries say of a node with the default backends. Hearing from a peer is noted
  in the coordinator, which is not part of the world of the backends.
\<close>

definition amino_setting ::
  "('m, 'ds, 'tx, 'ab, 'c, 'y) prov_env_scheme \<Rightarrow> ('ds, 'tx, 'z) rec_env_scheme \<Rightarrow> validator \<Rightarrow> validator
     \<Rightarrow> (('m, 'ds, 'ab, 'c) amino_world traced, 'm, 'b) DHT \<Rightarrow> ('ds \<Rightarrow> bytes \<rightharpoonup> bytes) \<Rightarrow> bool" where
  "amino_setting E R Vi Vp D content \<longleftrightarrow>
     amino_node E R Vi Vp D \<and> lib_laws E \<and> lib_laws R \<and> datastore_laws E content \<and> datastore_laws R content \<and>
     (\<forall>w p. fst (d_NotifyConnectivity D w p) = fst w)"

definition amino_keeps ::
  "('m, 'ds, 'tx, 'ab, 'c, 'y) prov_env_scheme \<Rightarrow> ('ds, 'tx, 'z) rec_env_scheme \<Rightarrow> validator \<Rightarrow> validator
     \<Rightarrow> (('m, 'ds, 'ab, 'c) amino_world traced, 'm, 'b) DHT \<Rightarrow> ('ds \<Rightarrow> bytes \<rightharpoonup> bytes)
     \<Rightarrow> ('m, 'ds, 'ab, 'c) amino_world traced \<Rightarrow> ('m, 'ds, 'ab, 'c) amino_world traced \<Rightarrow> bool" where
  "amino_keeps E R Vi Vp D content w w' \<longleftrightarrow>
     (amino_setting E R Vi Vp D content \<longrightarrow> node_namespaces (fst w) \<longrightarrow> frames content (fst w) (fst w'))"

lemma providers_calls:
  assumes laws: "lib_laws E" "datastore_laws E content" and ns: "node_namespaces w" and key: "key \<noteq> []"
  shows "(\<And>a. v = AnyAddrInfo a \<Longrightarrow> ai_ID a \<noteq> []) \<Longrightarrow> frames content w (snd (Store (providers_backend E) w key v))"
    and "frames content w (snd (Fetch (providers_backend E) w key))"
proof -
  have p: "pb_namespace (aw_pb w) = namespaceProviders" "pb_namespace (load_pb w) = namespaceProviders" "pb_datastore (load_pb w) = aw_ds w"
    using ns by (simp_all add: node_namespaces_def load_pb_def)
  have conf: "rb_namespace (aw_ipns w) = namespaceIPNS" "rb_namespace (aw_pk w) = namespacePublicKey"
    using ns by (simp_all add: node_namespaces_def)
  have "snd (Fetch (providers_backend E) w key) = save_pb w (snd (pb_Fetch E (aw_now w) (load_pb w) key))"
    by (simp add: providers_backend_def split: prod.split)
  moreover have "\<not> under (cache_key E (load_pb w) key) k" if "foreign k" for k
    using own_subkey [OF laws(1) clean_namespaces(1) key, of k] that by (simp add: p foreign_def) blast
  ultimately show "frames content w (snd (Fetch (providers_backend E) w key))"
    using pb_Fetch_elsewhere [OF laws(2), of "load_pb w" key _ "aw_now w"]
    by (simp add: frames_def node_namespaces_def save_pb_def pb_Fetch_frame p conf)
  assume id: "\<And>a. v = AnyAddrInfo a \<Longrightarrow> ai_ID a \<noteq> []"
  have "snd (Store (providers_backend E) w key v) = save_pb w (snd (pb_Store E (aw_now w) (load_pb w) key v))"
    by (simp add: providers_backend_def split: prod.split)
  moreover have "k \<noteq> ds_key E (load_pb w) key (ai_ID a)" if "foreign k" "v = AnyAddrInfo a" for k a
    using own_key [OF laws(1) clean_namespaces(1), of "[key, ai_ID a]"] id [OF that(2)] key that(1)
    by (auto simp: p foreign_def)
  ultimately show "frames content w (snd (Store (providers_backend E) w key v))"
    using pb_Store_elsewhere [OF laws(2), of v _ "load_pb w" key "aw_now w"]
    by (simp add: frames_def node_namespaces_def save_pb_def pb_Store_frame p conf)
qed

text \<open>The two record backends are the same but for the place of their state.\<close>

lemma record_calls:
  assumes laws: "lib_laws R" "datastore_laws R content" and key: "key \<noteq> []"
    and ns: "rb_namespace r = ns" "clean_part ns" "\<And>k. foreign k \<Longrightarrow> \<not> under ns k"
  shows "foreign k \<Longrightarrow> content (rb_datastore (snd (rb_Store R now r key v))) k = content (rb_datastore r) k"
    and "foreign k \<Longrightarrow> content (rb_datastore (snd (rb_Fetch R now r key))) k = content (rb_datastore r) k"
proof -
  assume "foreign k"
  then have k: "k \<noteq> rb_key R r key"
    using own_key [OF laws(1) ns(2), of "[key]"] key ns(1,3) by auto
  then show "content (rb_datastore (snd (rb_Fetch R now r key))) k = content (rb_datastore r) k"
    by (rule rb_Fetch_elsewhere [OF laws(2)])
  show "content (rb_datastore (snd (rb_Store R now r key v))) k = content (rb_datastore r) k"
    using rb_Store_elsewhere [OF laws(2) _ k] by (metis prod.collapse)
qed

lemma foreign_not:
  "foreign k \<Longrightarrow> \<not> under namespaceIPNS k" "foreign k \<Longrightarrow> \<not> under namespacePublicKey k"
  by (simp_all add: foreign_def)

lemma amino_calls:
  fixes w :: "('m, 'ds, 'ab, 'c) amino_world" and v :: "'m any"
  assumes laws: "lib_laws E" "lib_laws R" "datastore_laws E content" "datastore_laws R content"
    and ns: "node_namespaces w" and key: "key \<noteq> []"
    and be: "map_of (amino_backends E R Vi Vp) ns = Some be"
  shows "(\<And>a. v = AnyAddrInfo a \<Longrightarrow> ai_ID a \<noteq> []) \<Longrightarrow> frames content w (snd (Store be w key v))"
    and "frames content w (snd (Fetch be w key))"
proof -
  have conf: "rb_namespace (aw_ipns w) = namespaceIPNS" "rb_namespace (aw_pk w) = namespacePublicKey"
    "pb_namespace (aw_pb w) = namespaceProviders"
    using ns by (simp_all add: node_namespaces_def)
  have ipns: "frames content w (snd (Store (ipns_backend R Vi) w key v))"
      "frames content w (snd (Fetch (ipns_backend R Vi) w key))" for v :: "'m any"
    by (simp_all add: frames_def node_namespaces_def ipns_backend_def split_beta rb_frame conf
        record_calls [OF laws(2,4) key _ clean_namespaces(2) foreign_not(1)])
  have pk: "frames content w (snd (Store (pk_backend R Vp) w key v))"
      "frames content w (snd (Fetch (pk_backend R Vp) w key))" for v :: "'m any"
    by (simp_all add: frames_def node_namespaces_def pk_backend_def split_beta rb_frame conf
        record_calls [OF laws(2,4) key _ clean_namespaces(3) foreign_not(2)])
  from be show "frames content w (snd (Fetch be w key))"
    by (rule amino_cases) (simp_all add: ipns pk providers_calls(2) [OF laws(1,3) ns key])
  assume id: "\<And>a. v = AnyAddrInfo a \<Longrightarrow> ai_ID a \<noteq> []"
  from be show "frames content w (snd (Store be w key v))"
    by (rule amino_cases) (simp_all add: ipns pk providers_calls(1) [OF laws(1,3) ns key id])
qed

section \<open>What requests keep\<close>

text \<open>
  The interface between the handlers and the backends, as far as the world of the backends goes: a
  relation that every call of a backend keeps is kept by every request and every stream of requests.
\<close>

locale confined_node =
  fixes D :: "('w, 'm, 'b, 'z) DHT_scheme" and keeps :: "'w \<Rightarrow> 'w \<Rightarrow> bool"
  assumes keeps_refl: "keeps w w"
    and keeps_trans: "keeps w w' \<Longrightarrow> keeps w' w'' \<Longrightarrow> keeps w w''"
    and backend_Store: "map_of (d_backends D) ns = Some b \<Longrightarrow> k \<noteq> [] \<Longrightarrow>
          (\<And>a. v = AnyAddrInfo a \<Longrightarrow> ai_ID a \<noteq> []) \<Longrightarrow> keeps w (snd (Store b w k v))"
    and backend_Fetch: "map_of (d_backends D) ns = Some b \<Longrightarrow> k \<noteq> [] \<Longrightarrow> keeps w (snd (Fetch b w k))"
    and notify: "keeps w (d_NotifyConnectivity D w p)"
begin

lemma store_providers_keeps:
  assumes "map_of (d_backends D) ns = Some b" "k \<noteq> []" "\<forall>a \<in> set ais. ai_ID a \<noteq> []"
  shows "keeps w (snd (store_providers b w k ais))"
  using assms(3)
proof (induction ais arbitrary: w)
  case Nil
  then show ?case by (simp add: keeps_refl)
next
  case (Cons a ais)
  obtain r w1 where s: "Store b w k (AnyAddrInfo a) = (r, w1)" by (rule prod.exhaust)
  then have "keeps w w1" using backend_Store [OF assms(1,2), of "AnyAddrInfo a" w] Cons.prems by simp
  then show ?case using Cons.IH [of w1] Cons.prems keeps_trans by (cases r) (auto simp: s)
qed

lemma find_peer_keeps: "handleFindPeer D w remote req = (r, w') \<Longrightarrow> keeps w w'"
  using notify [of w remote] by (auto simp: handleFindPeer_def Let_def keeps_refl split: if_splits)

lemma put_value_keeps:
  assumes "handlePutValue D w remote req = (r, w')"
  shows "keeps w w'"
proof (cases "w' = w")
  case False
  then obtain ns b path rec where "map_of (d_backends D) ns = Some b" "path \<noteq> []"
      "w' = snd (Store b w path (AnyRecord rec))"
    using assms
    by (auto simp: handlePutValue_def Let_def split: if_splits option.splits sum.splits prod.splits) (metis snd_conv)+
  then show ?thesis using backend_Store [of ns b path "AnyRecord rec" w] by simp
qed (simp add: keeps_refl)

lemma add_provider_keeps:
  assumes "handleAddProvider D w remote req = (r, w')" "remote \<noteq> []"
  shows "keeps w w'"
proof (cases "w' = w")
  case False
  then obtain ais b where c: "check_providers remote (ProviderAddrInfos (d_ma D) (Some req)) [] = Inr ais"
    "map_of (d_backends D) namespaceProviders = Some b" "msg_Key req \<noteq> []"
    "store_providers b w (msg_Key req) ais = (r, w')"
    using assms(1) by (auto simp: handleAddProvider_def Let_def split: if_splits option.splits sum.splits)
  have "\<forall>a \<in> set ais. ai_ID a \<noteq> []" using c(1) assms(2) by (auto simp: check_providers_Inr)
  from store_providers_keeps [OF c(2,3) this, of w] show ?thesis using c(4) by simp
qed (simp add: keeps_refl)

lemma get_keeps:
  "handleGetValue D w remote req = (r, w') \<Longrightarrow> keeps w w'"
  "handleGetProviders D w remote req = (r, w') \<Longrightarrow> keeps w w'"
proof -
  assume h: "handleGetValue D w remote req = (r, w')"
  show "keeps w w'"
  proof (cases "w' = w")
    case False
    then obtain ns path b where "map_of (d_backends D) ns = Some b" "path \<noteq> []" "w' = snd (Fetch b w path)"
      using h by (auto simp: handleGetValue_def Let_def split: if_splits option.splits sum.splits prod.splits any.splits)
    then show ?thesis using backend_Fetch by simp
  qed (simp add: keeps_refl)
next
  assume h: "handleGetProviders D w remote req = (r, w')"
  show "keeps w w'"
  proof (cases "w' = w")
    case False
    then obtain b where "map_of (d_backends D) namespaceProviders = Some b" "msg_Key req \<noteq> []"
        "w' = snd (Fetch b w (msg_Key req))"
      using h by (auto simp: handleGetProviders_def Let_def split: if_splits option.splits sum.splits prod.splits any.splits)
    then show ?thesis using backend_Fetch by simp
  qed (simp add: keeps_refl)
qed

lemma request_keeps: "handleMsg D w remote req = (r, w') \<Longrightarrow> remote \<noteq> [] \<Longrightarrow> keeps w w'"
  using find_peer_keeps put_value_keeps add_provider_keeps get_keeps
  by (auto simp: handleMsg_def handlePing_def keeps_refl split: if_splits)

lemma serve_keeps: "serve D remote reqs w = (ms, w', e) \<Longrightarrow> remote \<noteq> [] \<Longrightarrow> keeps w w'"
proof (induction reqs arbitrary: w ms)
  case Nil
  then show ?case by (simp add: keeps_refl)
next
  case (Cons req reqs)
  obtain r w1 where h: "handleMsg D w remote req = (r, w1)" by (rule prod.exhaust)
  then have "keeps w w1" using request_keeps Cons.prems(2) by blast
  then show ?case
    using Cons h keeps_trans by (auto split: sum.splits option.splits prod.splits)
qed

end

interpretation amino: confined_node D "amino_keeps E R Vi Vp D content" for E R Vi Vp D content
proof (unfold_locales, goal_cases)
  case (1 w)
  then show ?case by (simp add: amino_keeps_def frames_refl)
next
  case (2 w w' w'')
  then show ?case unfolding amino_keeps_def using frames_trans frames_def by blast
next
  case (3 ns b k v w)
  show ?case unfolding amino_keeps_def
  proof (intro impI)
    assume s: "amino_setting E R Vi Vp D content" "node_namespaces (fst w)"
    then obtain be where be: "map_of (amino_backends E R Vi Vp) ns = Some be" "b = traceWrapBackend ns be"
      using 3(1) by (auto simp: amino_setting_def amino_node_def map_of_wrap_backends)
    have "fst (snd (Store b w k v)) = snd (Store be (fst w) k v)"
      by (simp add: be(2) traceWrapBackend_def tracedStore_def split: prod.split)
    then show "frames content (fst w) (fst (snd (Store b w k v)))"
      using amino_calls(1) [OF _ _ _ _ s(2) 3(2) be(1) 3(3)] s(1) by (simp add: amino_setting_def)
  qed
next
  case (4 ns b k w)
  show ?case unfolding amino_keeps_def
  proof (intro impI)
    assume s: "amino_setting E R Vi Vp D content" "node_namespaces (fst w)"
    then obtain be where be: "map_of (amino_backends E R Vi Vp) ns = Some be" "b = traceWrapBackend ns be"
      using 4(1) by (auto simp: amino_setting_def amino_node_def map_of_wrap_backends)
    have "fst (snd (Fetch b w k)) = snd (Fetch be (fst w) k)"
      by (simp add: be(2) traceWrapBackend_def tracedFetch_def split: prod.split)
    then show "frames content (fst w) (fst (snd (Fetch b w k)))"
      using amino_calls(2) [OF _ _ _ _ s(2) 4(2) be(1)] s(1) by (simp add: amino_setting_def)
  qed
next
  case (5 w p)
  then show ?case unfolding amino_keeps_def amino_setting_def by (metis frames_refl)
qed

section \<open>The set of provided keys\<close>

text \<open>Streams of any peers, one after the other.\<close>

fun serve_all :: "('w, 'm, 'b) DHT \<Rightarrow> (peer_id \<times> Message list) list \<Rightarrow> 'w \<Rightarrow> 'w" where
  "serve_all D [] w = w"
| "serve_all D ((remote, reqs) # ss) w = serve_all D ss (fst (snd (serve D remote reqs w)))"

lemma serve_all_frames:
  assumes "amino_setting E R Vi Vp D content" "node_namespaces (fst w)" "\<forall>(remote, reqs) \<in> set ss. remote \<noteq> []"
  shows "frames content (fst w) (fst (serve_all D ss w))"
  using assms(2,3)
proof (induction ss arbitrary: w)
  case Nil
  then show ?case by (simp add: frames_refl)
next
  case (Cons s ss)
  obtain remote reqs where s: "s = (remote, reqs)" by (cases s)
  obtain ms w1 e where v: "serve D remote reqs w = (ms, w1, e)" by (cases "serve D remote reqs w")
  have "amino_keeps E R Vi Vp D content w w1"
    using amino.serve_keeps [OF v] Cons.prems(2) s by simp
  then have f: "frames content (fst w) (fst w1)" using assms(1) Cons.prems(1) by (simp add: amino_keeps_def)
  then have "node_namespaces (fst w1)" by (simp add: frames_def)
  then have "frames content (fst w1) (fst (serve_all D ss w1))" using Cons.IH [of w1] Cons.prems(2) by simp
  then show ?case using frames_trans [OF f] by (simp add: s v)
qed

lemma provide_set_foreign: "under (''/'' @ namespaceProvideSet) k \<Longrightarrow> foreign k"
  by (auto simp: foreign_def under_def namespaceProvideSet_def namespace_defs prefix_def)

lemma collectGarbage_elsewhere:
  assumes "datastore_laws E content" "\<not> under (pb_namespace p) k"
  shows "content (pb_datastore (collectGarbage E skip clk p)) k = content (pb_datastore p) k"
proof (cases "ds_Query E (pb_datastore p) (pb_namespace p)")
  case (Inl err)
  then show ?thesis by (simp add: collectGarbage_def Let_def)
next
  case (Inr es)
  then have "\<forall>b. (k, Inr b) \<notin> set es" using ds_Query_sound [OF assms(1) Inr] assms(2) by blast
  then show ?thesis using Inr gc_loop_elsewhere [OF assms(1)] by (simp add: collectGarbage_def Let_def)
qed

lemma stored_cong:
  "(\<And>k. under (''/'' @ namespaceProvideSet) k \<Longrightarrow> content d' k = content d k) \<Longrightarrow> stored content d' = stored content d"
  by (auto simp: stored_def)

definition provided_world :: "(bytes, mem_ds, mem_ab, mem_lru) amino_world" where
  "provided_world = mem_amino\<lparr>aw_ds := [(newDatastoreKey mem_env namespaceProvideSet [''b''], ''b'')]\<rparr>"

lemma mem_setting: "amino_setting mem_env mem_rec_env len_validator len_validator mem_node map_of"
  by (simp add: amino_setting_def mem_node_amino mem_env_lib mem_rec_lib mem_env_laws mem_rec_laws)
     (simp add: mem_node_def)

lemma provided_world_namespaces: "node_namespaces provided_world"
  by (simp add: node_namespaces_def provided_world_def mem_amino_def mem_rb_def NewBackendIPNS_def
      NewBackendPublicKey_def namespace_defs)

lemma provided_world_stored: "stored map_of (aw_ds provided_world) = {''b''}"
  using provide_key(2) [OF mem_env_lib, of "''b''"] by (auto simp: stored_def provided_world_def)

section \<open>Properties\<close>

text \<open>
  Whatever requests peers send over however many streams, and whatever the garbage collection of the
  provider backend deletes then, the set of keys that this node provides is the same when it is loaded
  again from the shared datastore: no request can add a key to it or remove one.
\<close>
lemma requests_keep_provide_set:
  assumes setting: "amino_setting E R Vi Vp D content" and trie: "trie_laws H T keys"
    and start: "node_namespaces (fst w)" and remotes: "\<forall>(remote, reqs) \<in> set ss. remote \<noteq> []"
    and before: "newProviderKeystore E H T (aw_ds (fst w)) = Inr ks"
    and after: "newProviderKeystore E H T
        (pb_datastore (collectGarbage E skip clk (load_pb (fst (serve_all D ss w))))) = Inr ks'"
  shows "\<forall>pfx. set (KeysUnder T ks' pfx) = set (KeysUnder T ks pfx)"
proof -
  let ?w = "fst (serve_all D ss w)"
  have laws: "datastore_laws E content" using setting by (simp add: amino_setting_def)
  have f: "frames content (fst w) ?w" by (rule serve_all_frames [OF setting start remotes])
  have "content (pb_datastore (collectGarbage E skip clk (load_pb ?w))) k = content (aw_ds (fst w)) k"
    if "under (''/'' @ namespaceProvideSet) k" for k
  proof -
    have k: "foreign k" using that by (rule provide_set_foreign)
    then have "\<not> under (pb_namespace (load_pb ?w)) k"
      using f by (simp add: frames_def node_namespaces_def foreign_def)
    then show ?thesis using collectGarbage_elsewhere [OF laws, of "load_pb ?w"] f k by (simp add: frames_def)
  qed
  then have "stored content (pb_datastore (collectGarbage E skip clk (load_pb ?w))) = stored content (aw_ds (fst w))"
    by (rule stored_cong)
  then have "keys (ks_index ks') = keys (ks_index ks)"
    using newProviderKeystore_keys(2) [OF laws trie before] newProviderKeystore_keys(2) [OF laws trie after] by simp
  then show ?thesis using trie by (simp add: KeysUnder_def trie_laws_def)
qed

lemma requests_keep_provide_set_witness:
  "\<exists>ks'. newProviderKeystore mem_env id_hash list_trie (pb_datastore (collectGarbage mem_env (\<lambda>_. {}) (\<lambda>_. 2000)
       (load_pb (fst (serve_all mem_node [(''p'', [add_req])] (provided_world, [])))))) = Inr ks' \<and>
     set (KeysUnder list_trie ks' []) = {NewKey id_hash ''b''}"
proof -
  let ?d = "pb_datastore (collectGarbage mem_env (\<lambda>_. {}) (\<lambda>_. 2000)
       (load_pb (fst (serve_all mem_node [(''p'', [add_req])] (provided_world, [])))))"
  obtain ks where ks: "newProviderKeystore mem_env id_hash list_trie (aw_ds (fst (provided_world, [] :: span_event list))) = Inr ks"
    using mem_load by blast
  obtain ks' where ks': "newProviderKeystore mem_env id_hash list_trie ?d = Inr ks'"
    using mem_load [of ?d] by blast
  have "\<forall>(remote, reqs) \<in> set [(''p'', [add_req])]. remote \<noteq> []" by simp
  from requests_keep_provide_set [OF mem_setting list_trie_laws _ this ks ks']
  have "set (KeysUnder list_trie ks' []) = set (KeysUnder list_trie ks [])"
    using provided_world_namespaces by simp
  also have "\<dots> = set (ks_index ks)" by (simp add: KeysUnder_def list_trie_def key_under_def)
  also have "\<dots> = {NewKey id_hash ''b''}"
    using newProviderKeystore_keys(2) [OF mem_env_laws list_trie_laws ks] provided_world_stored by simp
  finally show ?thesis using ks' by blast
qed

end
