(* ===== verification/Node.thy ===== *)
theory Node
  imports Composition RoutingProps
begin

text \<open>
  A whole node: the handlers and the lookups (\<open>handlers.go\<close>, \<open>routing.go\<close>) on the default backends
  (\<open>initAminoBackends\<close>), with the keystore of the provided keys on the same datastore
  (\<open>providerkeystore.go\<close>). What remote peers request, what the node's own operations do and what the
  garbage collection deletes are steps of one state.
\<close>

section \<open>The interface of the lookups\<close>

text \<open>
  What the lookups add to the handlers: the coordinator's calls keep the relation too. Then every
  operation of \<open>routing.go\<close> but the registration of a key does.
\<close>

locale confined_routing = confined_node N keeps
  for N :: "('w, 'm, 'b, 'z) Node_scheme" and keeps :: "'w \<Rightarrow> 'w \<Rightarrow> bool" +
  assumes query: "keeps w (snd (n_QueryMessage N w m n))"
    and closest: "keeps w (snd (n_QueryClosest N w k n))"
    and publish: "keeps w (snd (n_Publish N w m))"
begin

lemma query_keeps:
  "n_QueryMessage N w m n = (q, w') \<Longrightarrow> keeps w w'" "n_QueryClosest N w k n = (q, w') \<Longrightarrow> keeps w w'"
  "n_Publish N w m = (s, w') \<Longrightarrow> keeps w w'"
  using query [of w m n] closest [of w k n] publish [of w m] by simp_all

lemma call_keeps:
  "map_of (d_backends N) ns = Some b \<Longrightarrow> k \<noteq> [] \<Longrightarrow> Fetch b w k = (r, w') \<Longrightarrow> keeps w w'"
  "map_of (d_backends N) ns = Some b \<Longrightarrow> k \<noteq> [] \<Longrightarrow> Store b w k (AnyRecord rec) = (r, w') \<Longrightarrow> keeps w w'"
  "map_of (d_backends N) ns = Some b \<Longrightarrow> k \<noteq> [] \<Longrightarrow> ai_ID a \<noteq> [] \<Longrightarrow> Store b w k (AnyAddrInfo a) = (r, w') \<Longrightarrow>
     keeps w w'"
  using backend_Fetch [of ns b k w] backend_Store [of ns b k "AnyRecord rec" w]
    backend_Store [of ns b k "AnyAddrInfo a" w] by simp_all

lemma find_peer_op_keeps: "FindPeer N w p = (r, w') \<Longrightarrow> keeps w w'"
  using query_keeps(2)
  by (auto simp: FindPeer_def FindPeerProgress_def Let_def keeps_refl
      split: prod.splits if_splits option.splits)

lemma find_providers_keeps:
  assumes "cid_Hash c \<noteq> []" "FindProviders N w c cnt = (r, w')"
  shows "keeps w w'"
proof (cases "\<exists>b. map_of (d_backends N) namespaceProviders = Some b \<and> cid_Defined c")
  case False
  then have "w' = w" using assms(2) by (auto simp: FindProviders_def FindProvidersProgress_def split: option.splits)
  then show ?thesis by (simp add: keeps_refl)
next
  case True
  then obtain b where b: "map_of (d_backends N) namespaceProviders = Some b" "cid_Defined c" by blast
  obtain v w1 where f: "Fetch b w (cid_Hash c) = (v, w1)" by (rule prod.exhaust)
  note k1 = call_keeps(1) [OF b(1) assms(1) f]
  obtain q w2 where q: "n_QueryMessage N w1 (zero_Message\<lparr>msg_Type := Message_GET_PROVIDERS, msg_Key := cid_Hash c\<rparr>)
      (d_BucketSize N) = (q, w2)" by (rule prod.exhaust)
  note k2 = query_keeps(1) [OF q]
  have "w' = w1 \<or> w' = w2"
    using assms(2) b f q
    by (auto simp: FindProviders_def FindProvidersProgress_def Let_def
        split: sum.splits any.splits prod.splits option.splits if_splits)
  then show ?thesis using k1 keeps_trans [OF k1 k2] by blast
qed

lemma find_async_keeps:
  assumes "cid_Hash c \<noteq> []" "findProvidersAsyncRoutine N accept w c cnt = (r, w')"
  shows "keeps w w'"
proof (cases "\<exists>b. map_of (d_backends N) namespaceProviders = Some b \<and> cid_Defined c")
  case False
  then have "w' = w" using assms(2) by (auto simp: findProvidersAsyncRoutine_def split: option.splits)
  then show ?thesis by (simp add: keeps_refl)
next
  case True
  then obtain b where b: "map_of (d_backends N) namespaceProviders = Some b" "cid_Defined c" by blast
  obtain v w1 where f: "Fetch b w (cid_Hash c) = (v, w1)" by (rule prod.exhaust)
  note k1 = call_keeps(1) [OF b(1) assms(1) f]
  obtain q w2 where q: "n_QueryMessage N w1 (zero_Message\<lparr>msg_Type := Message_GET_PROVIDERS, msg_Key := cid_Hash c\<rparr>)
      (d_BucketSize N) = (q, w2)" by (rule prod.exhaust)
  note k2 = query_keeps(1) [OF q]
  have "w' = w1 \<or> w' = w2"
    using assms(2) b f q
    by (auto simp: findProvidersAsyncRoutine_def Let_def
        split: sum.splits any.splits prod.splits option.splits if_splits)
  then show ?thesis using k1 keeps_trans [OF k1 k2] by blast
qed

lemma provideOnce_keeps:
  assumes "cid_Hash c \<noteq> []" "d_self N \<noteq> []" "provideOnce N w c brdcst = (e, w')"
  shows "keeps w w'"
proof (cases "w' = w")
  case False
  then obtain b where b: "map_of (d_backends N) namespaceProviders = Some b" "cid_Defined c"
    using assms(3) by (auto simp: provideOnce_def split: option.splits if_splits)
  obtain v w1 where s: "Store b w (cid_Hash c) (AnyAddrInfo \<lparr>ai_ID = d_self N, ai_Addrs = []\<rparr>) = (v, w1)"
    by (rule prod.exhaust)
  have k1: "keeps w w1" using call_keeps(3) [OF b(1) assms(1) _ s] assms(2) by simp
  have "w' = w1 \<or> (\<exists>m s. n_Publish N w1 m = (s, w'))"
    using assms(3) b s by (auto simp: provideOnce_def split: sum.splits prod.splits if_splits)
  then show ?thesis using k1 query_keeps(3) keeps_trans by blast
qed (simp add: keeps_refl)

definition has_path :: "bytes \<Rightarrow> bool" where
  "has_path key \<longleftrightarrow> (\<forall>ns path. d_SplitKey N key = Inr (ns, path) \<longrightarrow> path \<noteq> [])"

lemma putValueLocal_keeps:
  assumes "has_path key" "putValueLocal N w key v = (e, w')"
  shows "keeps w w'"
proof (cases "w' = w")
  case False
  then obtain ns path b r rec where "d_SplitKey N key = Inr (ns, path)" "map_of (d_backends N) ns = Some b"
    "Store b w path (AnyRecord rec) = (r, w')"
    using assms(2) by (auto simp: putValueLocal_def split: option.splits sum.splits prod.splits)
  then show ?thesis using call_keeps(2) assms(1) unfolding has_path_def by blast
qed (simp add: keeps_refl)

lemma put_value_op_keeps:
  assumes "has_path key" "PutValue N w key v opts = (e, w')"
  shows "keeps w w'"
proof (cases opts)
  case (Inr rOpt)
  obtain e1 w1 where l: "putValueLocal N w key v = (e1, w1)" by (rule prod.exhaust)
  have k1: "keeps w w1" using putValueLocal_keeps [OF assms(1) l] .
  have "w' = w1 \<or> (\<exists>m s. n_Publish N w1 m = (s, w'))"
    using assms(2) Inr l by (auto simp: PutValue_def Let_def split: option.splits sum.splits prod.splits if_splits)
  then show ?thesis using k1 query_keeps(3) keeps_trans by blast
qed (use assms(2) in \<open>simp add: PutValue_def keeps_refl\<close>)

lemma search_keeps:
  assumes "has_path key" "SearchValue N w key opts = (r, fix, w')"
  shows "keeps w w'"
proof (cases "w' = w")
  case False
  then obtain rOpt ns path b where b: "opts = Inr rOpt" "d_SplitKey N key = Inr (ns, path)"
    "map_of (d_backends N) ns = Some b"
    using assms(2) by (auto simp: SearchValue_def split: option.splits sum.splits prod.splits)
  then have "path \<noteq> []" using assms(1) by (simp add: has_path_def)
  obtain v w1 where f: "Fetch b w path = (v, w1)" by (rule prod.exhaust)
  note k1 = call_keeps(1) [OF b(3) \<open>path \<noteq> []\<close> f]
  obtain out fx w2 where sr: "searchValueRoutine N w1 b ns path rOpt = (out, fx, w2)" by (rule prod_cases3)
  obtain q w3 where q: "n_QueryMessage N w1 (zero_Message\<lparr>msg_Type := Message_GET_VALUE, msg_Key := newRoutingKey ns path\<rparr>)
      (d_BucketSize N) = (q, w3)" by (rule prod.exhaust)
  have "w2 = w3"
    using sr q by (auto simp: searchValueRoutine_def Let_def split: prod.splits option.splits if_splits)
  then have k2: "keeps w1 w2" using query_keeps(1) [OF q] by simp
  have "w' = w1 \<or> w' = w2"
    using assms(2) b f sr
    by (auto simp: SearchValue_def split: sum.splits any.splits prod.splits if_splits)
  then show ?thesis using k1 keeps_trans [OF k1 k2] by blast
qed (simp add: keeps_refl)

lemma get_value_op_keeps: "has_path key \<Longrightarrow> GetValue N w key opts ctx_err = (r, w') \<Longrightarrow> keeps w w'"
  using search_keeps by (auto simp: GetValue_def Let_def split: prod.splits sum.splits option.splits if_splits)

end

section \<open>The state of a node\<close>

text \<open>
  The state of the backends with its span log, and the trie of the provided keys in memory. The
  keystore is the trie together with the datastore of the backends.
\<close>

type_synonym ('m, 'ds, 'ab, 'c, 't) node_world = "('m, 'ds, 'ab, 'c) amino_world traced \<times> 't"

abbreviation backends_of :: "('m, 'ds, 'ab, 'c, 't) node_world \<Rightarrow> ('m, 'ds, 'ab, 'c) amino_world" where
  "backends_of w \<equiv> fst (fst w)"

definition keystore_of :: "('m, 'ds, 'ab, 'c, 't) node_world \<Rightarrow> ('ds, 't) providerKeystore" where
  "keystore_of w = \<lparr>ks_dstore = aw_ds (backends_of w), ks_index = snd w\<rparr>"

definition with_backends ::
  "(('m, 'ds, 'ab, 'c) amino_world \<Rightarrow> ('m, 'ds, 'ab, 'c) amino_world)
     \<Rightarrow> ('m, 'ds, 'ab, 'c, 't) node_world \<Rightarrow> ('m, 'ds, 'ab, 'c, 't) node_world" where
  "with_backends f w = ((f (backends_of w), snd (fst w)), snd w)"

definition with_keystore ::
  "('ds, 't) providerKeystore \<Rightarrow> ('m, 'ds, 'ab, 'c, 't) node_world \<Rightarrow> ('m, 'ds, 'ab, 'c, 't) node_world" where
  "with_keystore ks w = (((backends_of w)\<lparr>aw_ds := ks_dstore ks\<rparr>, snd (fst w)), ks_index ks)"

lemma world_sel [simp]:
  "keystore_of (with_keystore ks w) = ks" "backends_of (with_backends f w) = f (backends_of w)"
  "snd (with_backends f w) = snd w" "ks_dstore (keystore_of w) = aw_ds (backends_of w)"
  "ks_index (keystore_of w) = snd w" "snd (with_keystore ks w) = ks_index ks"
  "aw_ds (backends_of (with_keystore ks w)) = ks_dstore ks"
  by (simp_all add: keystore_of_def with_keystore_def with_backends_def)

text \<open>\<open>d.provideKeys.Add\<close>, and a backend as part of the node.\<close>

definition provideKeys_Add ::
  "('ds, 'tx, 'z) ds_env_scheme \<Rightarrow> ('b, 't) trie_lib \<Rightarrow> ('m, 'ds, 'ab, 'c, 't) node_world \<Rightarrow> 'b Key
     \<Rightarrow> goerr option \<times> ('m, 'ds, 'ab, 'c, 't) node_world" where
  "provideKeys_Add E T w k = (case ks_Add E T (keystore_of w) k of (e, ks) \<Rightarrow> (e, with_keystore ks w))"

definition lift_backend :: "('w, 'm) Backend \<Rightarrow> ('w \<times> 't, 'm) Backend" where
  "lift_backend b =
     \<lparr>Store = (\<lambda>w k v. case Store b (fst w) k v of (r, w') \<Rightarrow> (r, (w', snd w))),
      Fetch = (\<lambda>w k. case Fetch b (fst w) k of (r, w') \<Rightarrow> (r, (w', snd w))),
      Validate = Validate b\<rparr>"

definition node_backends ::
  "('m, 'ds, 'tx, 'ab, 'c, 'y) prov_env_scheme \<Rightarrow> ('ds, 'tx, 'z) rec_env_scheme \<Rightarrow> validator \<Rightarrow> validator
     \<Rightarrow> (bytes, (('m, 'ds, 'ab, 'c, 't) node_world, 'm) Backend) gomap" where
  "node_backends E R Vi Vp = map (\<lambda>(ns, b). (ns, lift_backend b)) (wrap_backends (amino_backends E R Vi Vp))"

lemma map_of_values: "map_of (map (\<lambda>(ns, b). (ns, f b)) xs) ns = map_option f (map_of xs ns)"
  by (induction xs) auto

lemma map_of_node_backends:
  "map_of (node_backends E R Vi Vp) ns =
     map_option (\<lambda>be. lift_backend (traceWrapBackend ns be)) (map_of (amino_backends E R Vi Vp) ns)"
  by (simp add: node_backends_def map_of_values map_of_wrap_backends option.map_comp comp_def)

text \<open>The node, and what its libraries promise. The coordinator changes neither backends nor keystore.\<close>

definition coordinator_only ::
  "('m, 'ds, 'ab, 'c, 't) node_world \<Rightarrow> ('m, 'ds, 'ab, 'c, 't) node_world \<Rightarrow> bool" where
  "coordinator_only w w' \<longleftrightarrow> backends_of w' = backends_of w \<and> snd w' = snd w"

definition node_setting ::
  "('m, 'ds, 'tx, 'ab, 'c, 'y) prov_env_scheme \<Rightarrow> ('ds, 'tx, 'z) rec_env_scheme \<Rightarrow> validator \<Rightarrow> validator
     \<Rightarrow> ('b, 't) trie_lib \<Rightarrow> ('ds \<Rightarrow> bytes \<rightharpoonup> bytes)
     \<Rightarrow> (('m, 'ds, 'ab, 'c, 't) node_world, 'm, 'b, 'x) Node_scheme \<Rightarrow> bool" where
  "node_setting E R Vi Vp T content N \<longleftrightarrow>
     d_backends N = node_backends E R Vi Vp \<and> n_provideKeys_Add N = Some (provideKeys_Add E T) \<and>
     lib_laws E \<and> lib_laws R \<and> datastore_laws E content \<and> datastore_laws R content \<and>
     (\<forall>w p. coordinator_only w (d_NotifyConnectivity N w p)) \<and>
     (\<forall>w m n. coordinator_only w (snd (n_QueryMessage N w m n))) \<and>
     (\<forall>w k n. coordinator_only w (snd (n_QueryClosest N w k n))) \<and>
     (\<forall>w m. coordinator_only w (snd (n_Publish N w m)))"

definition node_keeps ::
  "('m, 'ds, 'tx, 'ab, 'c, 'y) prov_env_scheme \<Rightarrow> ('ds, 'tx, 'z) rec_env_scheme \<Rightarrow> validator \<Rightarrow> validator
     \<Rightarrow> ('b, 't) trie_lib \<Rightarrow> ('ds \<Rightarrow> bytes \<rightharpoonup> bytes)
     \<Rightarrow> (('m, 'ds, 'ab, 'c, 't) node_world, 'm, 'b, 'x) Node_scheme
     \<Rightarrow> ('m, 'ds, 'ab, 'c, 't) node_world \<Rightarrow> ('m, 'ds, 'ab, 'c, 't) node_world \<Rightarrow> bool" where
  "node_keeps E R Vi Vp T content N w w' \<longleftrightarrow>
     (node_setting E R Vi Vp T content N \<longrightarrow> node_namespaces (backends_of w) \<longrightarrow>
        frames content (backends_of w) (backends_of w') \<and> snd w' = snd w)"

lemma node_keeps_coordinator:
  assumes "node_setting E R Vi Vp T content N \<Longrightarrow> coordinator_only w w'"
  shows "node_keeps E R Vi Vp T content N w w'"
  using assms frames_refl [of "backends_of w" content] by (auto simp: node_keeps_def coordinator_only_def)

lemma node_backend:
  assumes "node_setting E R Vi Vp T content N" "map_of (d_backends N) ns = Some b"
  obtains be where "map_of (amino_backends E R Vi Vp) ns = Some be"
    "backends_of (snd (Store b w k v)) = snd (Store be (backends_of w) k v)" "snd (snd (Store b w k v)) = snd w"
    "backends_of (snd (Fetch b w k)) = snd (Fetch be (backends_of w) k)" "snd (snd (Fetch b w k)) = snd w"
proof -
  obtain be where "map_of (amino_backends E R Vi Vp) ns = Some be" "b = lift_backend (traceWrapBackend ns be)"
    using assms by (auto simp: node_setting_def map_of_node_backends)
  then show ?thesis
    by (intro that [of be]) (simp_all add: lift_backend_def traceWrapBackend_def tracedStore_def tracedFetch_def
        split: prod.split)
qed

interpretation node: confined_routing N "node_keeps E R Vi Vp T content N" for E R Vi Vp T content N
proof (unfold_locales, goal_cases)
  case (1 w)
  then show ?case by (simp add: node_keeps_def frames_refl)
next
  case (2 w w' w'')
  then show ?case unfolding node_keeps_def using frames_trans frames_def by metis
next
  case (3 ns b k v w)
  show ?case unfolding node_keeps_def
  proof (intro impI)
    assume s: "node_setting E R Vi Vp T content N" "node_namespaces (backends_of w)"
    from s(1) 3(1) obtain be where be: "map_of (amino_backends E R Vi Vp) ns = Some be"
      "backends_of (snd (Store b w k v)) = snd (Store be (backends_of w) k v)" "snd (snd (Store b w k v)) = snd w"
      by (rule node_backend)
    then show "frames content (backends_of w) (backends_of (snd (Store b w k v))) \<and> snd (snd (Store b w k v)) = snd w"
      using amino_calls(1) [OF _ _ _ _ s(2) 3(2) be(1) 3(3)] s(1) by (simp add: node_setting_def)
  qed
next
  case (4 ns b k w)
  show ?case unfolding node_keeps_def
  proof (intro impI)
    assume s: "node_setting E R Vi Vp T content N" "node_namespaces (backends_of w)"
    from s(1) 4(1) obtain be where be: "map_of (amino_backends E R Vi Vp) ns = Some be"
      "backends_of (snd (Fetch b w k)) = snd (Fetch be (backends_of w) k)" "snd (snd (Fetch b w k)) = snd w"
      by (rule node_backend)
    then show "frames content (backends_of w) (backends_of (snd (Fetch b w k))) \<and> snd (snd (Fetch b w k)) = snd w"
      using amino_calls(2) [OF _ _ _ _ s(2) 4(2) be(1)] s(1) by (simp add: node_setting_def)
  qed
qed (rule node_keeps_coordinator, unfold node_setting_def, blast)+

section \<open>What a node does\<close>

text \<open>
  The requests that come in on a stream, the garbage collection, the passing of time, the calls of the
  application, and the removal of a key, which the coordinator may ask the keystore for.
\<close>

datatype 'b node_op =
    Requests peer_id "Message list"
  | Collect "nat \<Rightarrow> bytes set" "nat \<Rightarrow> int"
  | Clock int
  | Announce cid bool
  | AnnounceOnce cid bool
  | LookupProviders cid int
  | LookupProvidersAsync "nat \<Rightarrow> bool" cid int
  | LookupPeer peer_id
  | Put bytes bytes "goerr + ropts"
  | Get bytes "goerr + ropts" "goerr option"
  | Forget "'b Key"

fun node_exec ::
  "('m, 'ds, 'tx, 'ab, 'c, 'y) prov_env_scheme \<Rightarrow> ('b, 't) trie_lib
     \<Rightarrow> (('m, 'ds, 'ab, 'c, 't) node_world, 'm, 'b, 'x) Node_scheme \<Rightarrow> 'b node_op
     \<Rightarrow> ('m, 'ds, 'ab, 'c, 't) node_world \<Rightarrow> goerr option \<times> ('m, 'ds, 'ab, 'c, 't) node_world" where
  "node_exec E T N (Requests p reqs) w = (None, fst (snd (serve N p reqs w)))"
| "node_exec E T N (Collect skip clk) w =
     (None, with_backends (\<lambda>b. save_pb b (collectGarbage E skip clk (load_pb b))) w)"
| "node_exec E T N (Clock t) w = (None, with_backends (aw_now_update (\<lambda>_. t)) w)"
| "node_exec E T N (Announce c brdcst) w = Provide N w c brdcst"
| "node_exec E T N (AnnounceOnce c brdcst) w = ProvideOnce N w c brdcst"
| "node_exec E T N (LookupProviders c cnt) w = (None, snd (FindProviders N w c cnt))"
| "node_exec E T N (LookupProvidersAsync accept c cnt) w = (None, snd (findProvidersAsyncRoutine N accept w c cnt))"
| "node_exec E T N (LookupPeer p) w = (None, snd (FindPeer N w p))"
| "node_exec E T N (Put key v opts) w = PutValue N w key v opts"
| "node_exec E T N (Get key opts ctx_err) w = (None, snd (GetValue N w key opts ctx_err))"
| "node_exec E T N (Forget k) w = (case ks_Remove E T (keystore_of w) k of (e, ks) \<Rightarrow> (e, with_keystore ks w))"

text \<open>Proper arguments: identities, keys and multihashes are not empty.\<close>

fun op_ok :: "(('m, 'ds, 'ab, 'c, 't) node_world, 'm, 'b, 'x) Node_scheme \<Rightarrow> 'b node_op \<Rightarrow> bool" where
  "op_ok N (Requests p reqs) \<longleftrightarrow> p \<noteq> []"
| "op_ok N (Announce c brdcst) \<longleftrightarrow> cid_Hash c \<noteq> []"
| "op_ok N (AnnounceOnce c brdcst) \<longleftrightarrow> cid_Hash c \<noteq> []"
| "op_ok N (LookupProviders c cnt) \<longleftrightarrow> cid_Hash c \<noteq> []"
| "op_ok N (LookupProvidersAsync accept c cnt) \<longleftrightarrow> cid_Hash c \<noteq> []"
| "op_ok N (Put key v opts) \<longleftrightarrow> (\<forall>ns path. d_SplitKey N key = Inr (ns, path) \<longrightarrow> path \<noteq> [])"
| "op_ok N (Get key opts ctx_err) \<longleftrightarrow> (\<forall>ns path. d_SplitKey N key = Inr (ns, path) \<longrightarrow> path \<noteq> [])"
| "op_ok N (Forget k) \<longleftrightarrow> proper_key (d_hash N) k"
| "op_ok N _ \<longleftrightarrow> True"

text \<open>
  The keys that are to be provided again, and those for which the last registration or removal failed, by the
  results of the calls.
\<close>

definition registers :: "cid \<Rightarrow> goerr option \<Rightarrow> bool" where
  "registers c e \<longleftrightarrow>
     cid_Defined c \<and> (case e of Some (Wrapf s x) \<Rightarrow> s \<noteq> ''register provide'' | _ \<Rightarrow> True)"

fun provided_keys ::
  "('b, 'z) hash_lib_scheme \<Rightarrow> 'b node_op \<Rightarrow> goerr option \<Rightarrow> 'b Key set \<times> 'b Key set \<Rightarrow> 'b Key set \<times> 'b Key set" where
  "provided_keys H (Announce c brdcst) e (S, F) =
     (let k = NewKey H (cid_Hash c) in
      if registers c e then (insert k S, F - {k}) else if cid_Defined c then (S, insert k F) else (S, F))"
| "provided_keys H (Forget k) e (S, F) = (if e = None then (S - {k}, F - {k}) else (S, insert k F))"
| "provided_keys H _ e SF = SF"

fun node_run ::
  "('m, 'ds, 'tx, 'ab, 'c, 'y) prov_env_scheme \<Rightarrow> ('b, 't) trie_lib
     \<Rightarrow> (('m, 'ds, 'ab, 'c, 't) node_world, 'm, 'b, 'x) Node_scheme \<Rightarrow> 'b node_op list
     \<Rightarrow> ('m, 'ds, 'ab, 'c, 't) node_world \<Rightarrow> 'b Key set \<times> 'b Key set
     \<Rightarrow> ('m, 'ds, 'ab, 'c, 't) node_world \<times> 'b Key set \<times> 'b Key set" where
  "node_run E T N [] w SF = (w, SF)"
| "node_run E T N (op # ops) w SF =
     (case node_exec E T N op w of (e, w') \<Rightarrow> node_run E T N ops w' (provided_keys (d_hash N) op e SF))"

section \<open>The invariant\<close>

definition node_inv ::
  "('ds, 'tx, 'y) ds_env_scheme \<Rightarrow> ('b, 'z) hash_lib_scheme \<Rightarrow> ('t \<Rightarrow> 'b Key set) \<Rightarrow> ('ds \<Rightarrow> bytes \<rightharpoonup> bytes)
     \<Rightarrow> 'b Key set \<times> 'b Key set \<Rightarrow> ('m, 'ds, 'ab, 'c, 't) node_world \<Rightarrow> bool" where
  "node_inv E H keys content SF w \<longleftrightarrow>
     node_namespaces (backends_of w) \<and> ks_ok E H keys content (snd SF) (keystore_of w) \<and> keys (snd w) = fst SF"

lemma entries_ok_cong:
  "(\<And>k. under (''/'' @ namespaceProvideSet) k \<Longrightarrow> content d' k = content d k) \<Longrightarrow>
     entries_ok L content d' = entries_ok L content d"
  by (auto simp: entries_ok_def)

lemma node_inv_frames:
  assumes "node_inv E H keys content SF w" "frames content (backends_of w) (backends_of w')" "snd w' = snd w"
  shows "node_inv E H keys content SF w'"
proof -
  let ?d = "aw_ds (backends_of w)" and ?d' = "aw_ds (backends_of w')"
  have c: "content ?d' k = content ?d k" if "under (''/'' @ namespaceProvideSet) k" for k
    using assms(2) provide_set_foreign [OF that] by (simp add: frames_def)
  have "stored content ?d' = stored content ?d" using c by (rule stored_cong)
  moreover have "entries_ok E content ?d' = entries_ok E content ?d" using c by (rule entries_ok_cong)
  ultimately show ?thesis
    using assms by (auto simp: node_inv_def ks_ok_def stored_keys_def frames_def)
qed

lemma node_inv_keeps:
  assumes "node_setting E R Vi Vp T content N" "node_inv E' H keys content SF w"
    and "node_keeps E R Vi Vp T content N w w'"
  shows "node_inv E' H keys content SF w'"
  using assms node_inv_frames [OF assms(2)] by (simp add: node_keeps_def node_inv_def)

lemma node_inv_keystore:
  assumes "node_inv E H keys content SF w" "ks_ok E H keys content (snd SF') ks" "keys (ks_index ks) = fst SF'"
  shows "node_inv E H keys content SF' (with_keystore ks w)"
proof -
  have "node_namespaces (backends_of (with_keystore ks w)) = node_namespaces (backends_of w)"
    by (simp add: node_namespaces_def with_keystore_def)
  then show ?thesis using assms by (simp add: node_inv_def)
qed

lemma collect_frames:
  assumes "datastore_laws E content" "node_namespaces b"
  shows "frames content b (save_pb b (collectGarbage E skip clk (load_pb b)))"
proof -
  let ?p = "collectGarbage E skip clk (load_pb b)"
  have p: "pb_namespace ?p = namespaceProviders"
    using assms(2) by (simp add: collectGarbage_def Let_def node_namespaces_def split: sum.split)
  have "content (pb_datastore ?p) k = content (aw_ds b) k" if "foreign k" for k
    using collectGarbage_elsewhere [OF assms(1), of "load_pb b" k] that assms(2)
    by (simp add: node_namespaces_def foreign_def)
  then show ?thesis using p assms(2) by (simp add: frames_def node_namespaces_def save_pb_def)
qed

text \<open>An error of \<open>provideOnce\<close> is never taken for one of the registration.\<close>

lemma provideOnce_error: "provideOnce N w c brdcst = (e, w') \<Longrightarrow> e \<noteq> Some (Wrapf ''register provide'' x)"
  by (auto simp: provideOnce_def split: option.splits if_splits prod.splits sum.splits)

lemma provide_inv:
  assumes set: "node_setting E R Vi Vp T content N" and trie: "trie_laws (d_hash N) T keys"
    and inv: "node_inv E (d_hash N) keys content SF w" and self: "d_self N \<noteq> []" and hash: "cid_Hash c \<noteq> []"
    and run: "Provide N w c brdcst = (e, w')"
  shows "node_inv E (d_hash N) keys content
           (provided_keys (d_hash N) (Announce c brdcst) e SF) w'"
proof (cases "cid_Defined c")
  case False
  then show ?thesis using run inv by (cases SF) (auto simp: Provide_def registers_def Let_def)
next
  case True
  let ?k = "NewKey (d_hash N) (cid_Hash c)"
  obtain e1 ks where add: "ks_Add E T (keystore_of w) ?k = (e1, ks)" by (rule prod.exhaust)
  have lib: "lib_laws E" "datastore_laws E content" using set by (simp_all add: node_setting_def)
  have "proper_key (d_hash N) ?k" using hash by (simp add: proper_key_def)
  note add_ok = ks_Add_ok [OF lib trie _ this add]
  let ?SF' = "(op_effect (OpAdd ?k) e1 (fst SF), failed_keys ?k e1 (snd SF))"
  have "ks_ok E (d_hash N) keys content (snd ?SF') ks" "keys (ks_index ks) = fst ?SF'"
    using add_ok [of "snd SF"] inv by (simp_all add: node_inv_def)
  note inv1 = node_inv_keystore [OF inv this]
  have add_N: "n_provideKeys_Add N = Some (provideKeys_Add E T)" using set by (simp add: node_setting_def)
  show ?thesis
  proof (cases e1)
    case None
    then have once: "provideOnce N (with_keystore ks w) c brdcst = (e, w')"
      using run True add_N add by (simp add: Provide_def provideKeys_Add_def)
    then have "registers c e"
      using True provideOnce_error [OF once] by (auto simp: registers_def split: option.split goerr.split)
    then show ?thesis
      using node_inv_keeps [OF set inv1 node.provideOnce_keeps [OF hash self once]] None
      by (cases SF) (simp add: Let_def)
  next
    case (Some err)
    then have "e = Some (Wrapf ''register provide'' err)" "w' = with_keystore ks w"
      using run True add_N add by (auto simp: Provide_def provideKeys_Add_def)
    then show ?thesis using inv1 Some True by (cases SF) (simp add: registers_def Let_def)
  qed
qed

lemma forget_inv:
  assumes set: "node_setting E R Vi Vp T content N" and trie: "trie_laws (d_hash N) T keys"
    and inv: "node_inv E (d_hash N) keys content SF w" and key: "proper_key (d_hash N) k"
    and run: "ks_Remove E T (keystore_of w) k = (e, ks)"
  shows "node_inv E (d_hash N) keys content (provided_keys (d_hash N) (Forget k) e SF) (with_keystore ks w)"
proof -
  have lib: "lib_laws E" "datastore_laws E content" using set by (simp_all add: node_setting_def)
  let ?SF' = "(op_effect (OpRemove k) e (fst SF), failed_keys k e (snd SF))"
  have "ks_ok E (d_hash N) keys content (snd ?SF') ks" "keys (ks_index ks) = fst ?SF'"
    using ks_Remove_ok [OF lib trie _ key run, of "snd SF"] inv by (simp_all add: node_inv_def)
  from node_inv_keystore [OF inv this] show ?thesis by (cases SF; cases e) simp_all
qed

lemma node_exec_inv:
  assumes set: "node_setting E R Vi Vp T content N" and trie: "trie_laws (d_hash N) T keys"
    and inv: "node_inv E (d_hash N) keys content SF w" and self: "d_self N \<noteq> []" and ok: "op_ok N op"
    and run: "node_exec E T N op w = (e, w')"
  shows "node_inv E (d_hash N) keys content (provided_keys (d_hash N) op e SF) w'"
proof -
  note keeps = node_inv_keeps [OF set inv]
  show ?thesis
  proof (cases op)
    case (Requests p reqs)
    obtain ms w1 err where s: "serve N p reqs w = (ms, w1, err)" by (rule prod_cases3)
    then show ?thesis using keeps [OF node.serve_keeps [OF s]] run ok Requests by simp
  next
    case (Collect skip clk)
    have "datastore_laws E content" "node_namespaces (backends_of w)"
      using set inv by (simp_all add: node_setting_def node_inv_def)
    from collect_frames [OF this, of skip clk] show ?thesis
      using node_inv_frames [OF inv, of w'] run Collect by auto
  next
    case (Clock t)
    have "frames content (backends_of w) ((backends_of w)\<lparr>aw_now := t\<rparr>)"
      using inv by (simp add: frames_def node_inv_def node_namespaces_def)
    then show ?thesis using node_inv_frames [OF inv, of w'] run Clock by auto
  next
    case (Announce c brdcst)
    then show ?thesis using provide_inv [OF set trie inv self, of c brdcst e w'] run ok by simp
  next
    case (AnnounceOnce c brdcst)
    then show ?thesis
      using keeps [OF node.provideOnce_keeps [of c N w brdcst e w']] run ok self by (simp add: ProvideOnce_def)
  next
    case (LookupProviders c cnt)
    obtain r w1 where f: "FindProviders N w c cnt = (r, w1)" by (rule prod.exhaust)
    show ?thesis using keeps [OF node.find_providers_keeps [OF _ f]] f run ok LookupProviders by simp
  next
    case (LookupProvidersAsync accept c cnt)
    obtain r w1 where f: "findProvidersAsyncRoutine N accept w c cnt = (r, w1)" by (rule prod.exhaust)
    show ?thesis using keeps [OF node.find_async_keeps [OF _ f]] f run ok LookupProvidersAsync by simp
  next
    case (LookupPeer p)
    obtain r w1 where f: "FindPeer N w p = (r, w1)" by (rule prod.exhaust)
    show ?thesis using keeps [OF node.find_peer_op_keeps [OF f]] f run LookupPeer by simp
  next
    case (Put key v opts)
    have "confined_routing.has_path N key" using ok Put by (simp add: node.has_path_def)
    moreover have "PutValue N w key v opts = (e, w')" using run Put by simp
    ultimately show ?thesis using keeps [OF node.put_value_op_keeps] Put by simp
  next
    case (Get key opts ctx_err)
    obtain r w1 where f: "GetValue N w key opts ctx_err = (r, w1)" by (rule prod.exhaust)
    have path: "confined_routing.has_path N key" using ok Get by (simp add: node.has_path_def)
    show ?thesis using keeps [OF node.get_value_op_keeps [OF path f]] f run Get by simp
  next
    case (Forget k)
    obtain e1 ks where r: "ks_Remove E T (keystore_of w) k = (e1, ks)" by (rule prod.exhaust)
    then show ?thesis using forget_inv [OF set trie inv _ r] run ok Forget by simp
  qed
qed

lemma node_run_inv:
  assumes "node_setting E R Vi Vp T content N" "trie_laws (d_hash N) T keys" "d_self N \<noteq> []"
    and "node_inv E (d_hash N) keys content SF w" "\<forall>op \<in> set ops. op_ok N op" "node_run E T N ops w SF = (w', SF')"
  shows "node_inv E (d_hash N) keys content SF' w'"
  using assms(4-6)
proof (induction ops arbitrary: w SF)
  case (Cons op ops)
  obtain e w1 where x: "node_exec E T N op w = (e, w1)" by (rule prod.exhaust)
  have "node_inv E (d_hash N) keys content (provided_keys (d_hash N) op e SF) w1"
    using node_exec_inv [OF assms(1,2) Cons.prems(1) assms(3) _ x] Cons.prems(2) by simp
  then show ?case using Cons.IH Cons.prems(2,3) x by simp
qed simp

section \<open>A concrete node\<close>

definition mem_full ::
  "((bytes, mem_ds, mem_ab, mem_lru, bytes Key list) node_world, bytes, bytes) Node" where
  "mem_full =
     \<lparr>d_self = ''self'', d_BucketSize = 20, d_hash = id_hash, d_ma = demo_ma,
      d_NearestNodes = (\<lambda>w k n. []), d_PeerInfo = (\<lambda>w p. \<lparr>ai_ID = p, ai_Addrs = []\<rparr>),
      d_NotifyConnectivity = (\<lambda>w p. w), d_SplitKey = slash_SplitKey,
      d_backends = node_backends mem_env mem_rec_env len_validator len_validator,
      n_Connected = (\<lambda>w p. False), n_HostAddrs = [''h''], n_QueryClosest = (\<lambda>w k n. (([], None), w)),
      n_QueryMessage = (\<lambda>w m n. (([], None), w)), n_Publish = (\<lambda>w m. (Inr 1, w)),
      n_provideKeys_Add = Some (provideKeys_Add mem_env list_trie),
      n_MakePutRecord = (\<lambda>k v. \<lparr>rec_Key = k, rec_Value = v, rec_TimeReceived = []\<rparr>),
      n_Format_now = (\<lambda>w. []), n_DefaultQuorum = 0\<rparr>"

lemma mem_full_setting:
  "node_setting mem_env mem_rec_env len_validator len_validator list_trie map_of mem_full"
  using mem_env_lib mem_rec_lib mem_env_laws mem_rec_laws
  by (simp add: node_setting_def coordinator_only_def mem_full_def)

lemma mem_full_registers:
  "registers \<lparr>cid_Defined = True, cid_Hash = ''c''\<rparr> (fst (Provide mem_full w \<lparr>cid_Defined = True, cid_Hash = ''c''\<rparr> True))"
proof -
  let ?c = "\<lparr>cid_Defined = True, cid_Hash = ''c''\<rparr>"
  have hash: "d_hash mem_full = id_hash" by (simp add: mem_full_def)
  have add: "n_provideKeys_Add mem_full = Some (provideKeys_Add mem_env list_trie)" by (simp add: mem_full_def)
  have "fst (provideKeys_Add mem_env list_trie w (NewKey id_hash ''c'')) = None"
    by (simp add: provideKeys_Add_def ks_Add_def)
  then obtain w0 where w0: "provideKeys_Add mem_env list_trie w (NewKey id_hash ''c'') = (None, w0)"
    by (metis prod.collapse)
  obtain e w1 where once: "provideOnce mem_full w0 ?c True = (e, w1)" by (rule prod.exhaust)
  then have "Provide mem_full w ?c True = (e, w1)"
    using w0 hash by (simp add: Provide_def add)
  then show ?thesis
    using provideOnce_error [OF once] by (auto simp: registers_def split: option.split goerr.split)
qed

section \<open>Properties\<close>

text \<open>
  C1: The set of keys to reprovide is exactly what the node started with, plus the keys of the CIDs for
  which Provide got past the registration, minus those that were removed again - whatever peers request,
  whatever the node stores, looks up or provides once, and whatever the garbage collection deletes in
  between. A node that is started later on the same datastore finds this set, but for keys whose last registration or
  removal failed, and exactly this set if failed writes leave no trace in the datastore.
\<close>
theorem reprovide_set_exact:
  assumes set: "node_setting E R Vi Vp T content N" and trie: "trie_laws (d_hash N) T keys" and self: "d_self N \<noteq> []"
    and start: "node_namespaces (backends_of w)" "entries_ok E content (aw_ds (backends_of w))"
      "newProviderKeystore E (d_hash N) T (aw_ds (backends_of w)) = Inr (keystore_of w)"
    and ops: "\<forall>op \<in> set ops. op_ok N op"
    and run: "node_run E T N ops w (stored_keys (d_hash N) content (aw_ds (backends_of w)), {}) = (w', S, F)"
    and again: "newProviderKeystore E (d_hash N) T (aw_ds (backends_of w')) = Inr ks"
  shows "\<forall>pfx. set (KeysUnder T (keystore_of w') pfx) = {k \<in> S. key_under (d_hash N) pfx k} \<and>
           set (KeysUnder T ks pfx) - F = set (KeysUnder T (keystore_of w') pfx) - F \<and>
           (failed_writes_void E content \<longrightarrow> set (KeysUnder T ks pfx) = set (KeysUnder T (keystore_of w') pfx))"
proof -
  let ?S = "stored_keys (d_hash N) content (aw_ds (backends_of w))"
  have laws: "datastore_laws E content" using set by (simp add: node_setting_def)
  have "node_inv E (d_hash N) keys content (?S, {}) w"
    using start newProviderKeystore_keys(2) [OF laws trie start(3)]
    by (simp add: node_inv_def ks_ok_def stored_keys_def)
  from node_run_inv [OF set trie self this ops run] have inv: "node_inv E (d_hash N) keys content (S, F) w'" .
  have "keys (ks_index ks) = stored_keys (d_hash N) content (aw_ds (backends_of w'))"
    using newProviderKeystore_keys(2) [OF laws trie again] by (simp add: stored_keys_def)
  then have "keys (ks_index (keystore_of w')) = S" "\<forall>k. k \<notin> F \<or> failed_writes_void E content \<longrightarrow> (k \<in> S \<longleftrightarrow> k \<in> keys (ks_index ks))"
    using inv by (auto simp: node_inv_def ks_ok_def)
  then show ?thesis
    using trie by (auto simp: KeysUnder_def trie_laws_def)
qed

lemma reprovide_set_exact_witness:
  "\<exists>w' ks. node_run mem_env list_trie mem_full
       [Requests ''p'' [add_req], Announce \<lparr>cid_Defined = True, cid_Hash = ''c''\<rparr> True, Collect (\<lambda>_. {}) (\<lambda>_. 2000)]
       ((mem_amino, []), []) ({}, {}) = (w', {NewKey id_hash ''c''}, {}) \<and>
     newProviderKeystore mem_env id_hash list_trie (aw_ds (backends_of w')) = Inr ks \<and>
     set (KeysUnder list_trie ks []) = {NewKey id_hash ''c''}"
proof -
  let ?c = "\<lparr>cid_Defined = True, cid_Hash = ''c''\<rparr>"
  let ?ops = "[Requests ''p'' [add_req], Announce ?c True, Collect (\<lambda>_. {}) (\<lambda>_. 2000)] :: bytes node_op list"
  let ?w = "((mem_amino, []), []) :: (bytes, mem_ds, mem_ab, mem_lru, bytes Key list) node_world"
  have hash: "d_hash mem_full = id_hash" "d_self mem_full \<noteq> []" by (simp_all add: mem_full_def)
  have trie: "trie_laws (d_hash mem_full) list_trie set" using list_trie_laws hash by simp
  have none: "stored_keys (d_hash mem_full) map_of (aw_ds (backends_of ?w)) = {}" by (simp add: stored_keys_def stored_def mem_amino_def)
  have start: "node_namespaces (backends_of ?w)" "entries_ok mem_env map_of (aw_ds (backends_of ?w))"
    "newProviderKeystore mem_env (d_hash mem_full) list_trie (aw_ds (backends_of ?w)) = Inr (keystore_of ?w)"
    by (simp_all add: node_namespaces_def mem_amino_def mem_rb_def NewBackendIPNS_def NewBackendPublicKey_def
        namespace_defs entries_ok_def newProviderKeystore_def mem_query_def list_trie_def keystore_of_def
        AList.clearjunk.simps)
  have ops: "\<forall>op \<in> set ?ops. op_ok mem_full op" by simp
  obtain w' S F where run: "node_run mem_env list_trie mem_full ?ops ?w ({}, {}) = (w', S, F)" by (rule prod_cases3)
  have S: "S = {NewKey id_hash ''c''}" "F = {}"
    using run mem_full_registers by (auto simp: hash split_beta)
  obtain ks where again: "newProviderKeystore mem_env id_hash list_trie (aw_ds (backends_of w')) = Inr ks"
    using mem_load by blast
  have run1: "node_run mem_env list_trie mem_full ?ops ?w
      (stored_keys (d_hash mem_full) map_of (aw_ds (backends_of ?w)), {}) = (w', S, F)"
    unfolding none using run by simp
  have again1: "newProviderKeystore mem_env (d_hash mem_full) list_trie (aw_ds (backends_of w')) = Inr ks"
    using again hash by simp
  have "set (KeysUnder list_trie ks []) = {NewKey id_hash ''c''}"
    using reprovide_set_exact [OF mem_full_setting trie hash(2) start ops run1 again1] by (simp add: key_under_def S)
  then show ?thesis using run S again by blast
qed

end
