(* ===== verification/Config.thy ===== *)
theory Config
  imports Backend
begin

text \<open>
  \<open>config.go\<close> and \<open>bootstrap.go\<close>: the configuration of a node with its defaults and its
  validation, the address filters, and the list of the default bootstrap peers. Pointers and
  interface values of which only the presence matters here (the logger and the OpenTelemetry
  providers) are a \<open>unit option\<close>; parsing a multiaddress and classifying it are parameters.
  Durations are nanoseconds.
\<close>

section \<open>Constants\<close>

definition ProtocolIPFS :: string where "ProtocolIPFS = ''/ipfs/kad/1.0.0''"
definition ProtocolFilecoin :: string where "ProtocolFilecoin = ''/fil/kad/testnetnet/kad/1.0.0''"

definition ModeOptClient :: string where "ModeOptClient = ''client''"
definition ModeOptServer :: string where "ModeOptServer = ''server''"
definition ModeOptAutoClient :: string where "ModeOptAutoClient = ''auto-client''"
definition ModeOptAutoServer :: string where "ModeOptAutoServer = ''auto-server''"

lemmas ModeOpt_defs = ModeOptClient_def ModeOptServer_def ModeOptAutoClient_def ModeOptAutoServer_def

definition time_Minute :: int where "time_Minute = 60 * 1000000000"
definition time_Hour :: int where "time_Hour = 60 * time_Minute"

section \<open>Query configuration\<close>

record QueryConfig =
  q_Concurrency :: int
  q_Timeout :: int
  q_RequestConcurrency :: int
  q_RequestTimeout :: int
  q_DefaultQuorum :: int

definition DefaultQueryConfig :: QueryConfig where
  "DefaultQueryConfig =
     \<lparr>q_Concurrency = 3, q_Timeout = 5 * time_Minute, q_RequestConcurrency = 3,
      q_RequestTimeout = time_Minute, q_DefaultQuorum = 0\<rparr>"

definition QueryConfig_Validate :: "QueryConfig \<Rightarrow> goerr option" where
  "QueryConfig_Validate cfg =
     (if q_Concurrency cfg < 1 then
        Some (ConfigurationError ''QueryConfig'' (Errorf ''concurrency must be greater than zero''))
      else if q_Timeout cfg < 1 then
        Some (ConfigurationError ''QueryConfig'' (Errorf ''timeout must be greater than zero''))
      else if q_RequestConcurrency cfg < 1 then
        Some (ConfigurationError ''QueryConfig'' (Errorf ''request concurrency must be greater than zero''))
      else if q_RequestTimeout cfg < 1 then
        Some (ConfigurationError ''QueryConfig'' (Errorf ''request timeout must be greater than zero''))
      else if q_DefaultQuorum cfg < 0 then
        Some (ConfigurationError ''QueryConfig'' (Errorf ''default quorum must not be negative''))
      else None)"

section \<open>Configuration\<close>

record ('m, 'rt, 'b, 'ds) Config =
  cfg_Mode :: string
  cfg_Query :: "QueryConfig option"
  cfg_BucketSize :: int
  cfg_BootstrapPeers :: "'m addr_info list"
  cfg_BootstrapMinimumPopulation :: int
  cfg_ProtocolID :: string
  cfg_RoutingTable :: "'rt option"
  cfg_Backends :: "(string, 'b) gomap"
  cfg_Datastore :: "'ds option"
  cfg_Logger :: "unit option"
  cfg_TimeoutStreamIdle :: int
  cfg_AddressFilter :: "('m list \<Rightarrow> 'm list) option"
  cfg_MeterProvider :: "unit option"
  cfg_TracerProvider :: "unit option"
  cfg_EnableProviderReprovide :: bool
  cfg_ReprovideInterval :: int

text \<open>\<open>fmt.Errorf\<close> of the method, all of whose errors but the first are of this type.\<close>

abbreviation config_error :: "string \<Rightarrow> goerr option" where
  "config_error msg \<equiv> Some (ConfigurationError ''Config'' (Errorf msg))"

definition Config_Validate :: "('m, 'rt, 'b, 'ds) Config \<Rightarrow> goerr option" where
  "Config_Validate c =
     (if \<not> (cfg_Mode c = ModeOptClient \<or> cfg_Mode c = ModeOptServer \<or>
            cfg_Mode c = ModeOptAutoClient \<or> cfg_Mode c = ModeOptAutoServer)
      then Some (Errorf (''invalid mode option: '' @ cfg_Mode c))
      else
        (case cfg_Query c of
           None \<Rightarrow> config_error ''query configuration must not be nil''
         | Some q \<Rightarrow>
        (case QueryConfig_Validate q of
           Some err \<Rightarrow> Some (ConfigurationError ''Config'' (Wrapf ''invalid query configuration'' err))
         | None \<Rightarrow>
      if cfg_BucketSize c = 0 then config_error ''bucket size must not be 0''
      else if cfg_BootstrapMinimumPopulation c < 0 then
        config_error ''bootstrap minimum population must not be negative''
      else if length (cfg_BootstrapPeers c) = 0 then config_error ''no bootstrap peer''
      else if list_ex (\<lambda>bp. length (ai_Addrs bp) = 0) (cfg_BootstrapPeers c) then
        config_error ''bootstrap peer with no address''
      else if cfg_ProtocolID c = [] then config_error ''protocolID must not be empty''
      else if cfg_Logger c = None then config_error ''logger must not be nil''
      else if cfg_TimeoutStreamIdle c \<le> 0 then
        config_error ''stream idle timeout must be a positive duration''
      else
        (case (if cfg_ProtocolID c = ProtocolIPFS \<and> length (cfg_Backends c) \<noteq> 0 then
                 (if length (cfg_Backends c) \<noteq> 3 then
                    config_error ''ipfs protocol requires exactly three backends''
                  else if map_of (cfg_Backends c) namespaceIPNS = None then
                    config_error ''ipfs protocol requires an IPNS backend''
                  else if map_of (cfg_Backends c) namespacePublicKey = None then
                    config_error ''ipfs protocol requires a public key backend''
                  else if map_of (cfg_Backends c) namespaceProviders = None then
                    config_error ''ipfs protocol requires a providers backend''
                  else None)
               else None) of
           Some err \<Rightarrow> Some err
         | None \<Rightarrow>
      if cfg_AddressFilter c = None then
        config_error ''address filter must not be nil - use AddrFilterIdentity to disable filtering''
      else if cfg_MeterProvider c = None then
        config_error ''opentelemetry meter provider must not be nil''
      else if cfg_TracerProvider c = None then
        config_error ''opentelemetry tracer provider must not be nil''
      else None))))"

section \<open>Address filters\<close>

text \<open>\<open>manet.IsPublicAddr\<close> and \<open>manet.IsIPLoopback\<close> are parameters.\<close>

definition AddrFilterIdentity :: "'m list \<Rightarrow> 'm list" where
  "AddrFilterIdentity maddrs = maddrs"

definition AddrFilterPrivate :: "('m \<Rightarrow> bool) \<Rightarrow> 'm list \<Rightarrow> 'm list" where
  "AddrFilterPrivate IsPublicAddr maddrs = filter IsPublicAddr maddrs"

definition AddrFilterPublic :: "('m \<Rightarrow> bool) \<Rightarrow> 'm list \<Rightarrow> 'm list" where
  "AddrFilterPublic IsIPLoopback maddrs = filter (\<lambda>maddr. \<not> IsIPLoopback maddr) maddrs"

section \<open>Default bootstrap peers\<close>

text \<open>
  The loop of \<open>init\<close>. \<open>parse\<close> is \<open>peer.AddrInfoFromString\<close>; its failure is a panic.
  \<open>index\<close> maps a peer to the position of its entry.
\<close>

fun init_loop ::
  "(string \<Rightarrow> goerr + 'm addr_info) \<Rightarrow> string list \<Rightarrow> (peer_id, nat) gomap \<Rightarrow> 'm addr_info list
     \<Rightarrow> ('m addr_info list) may_panic" where
  "init_loop parse [] index peers = Inr peers"
| "init_loop parse (s # ss) index peers =
     (case parse s of
        Inl err \<Rightarrow> Inl ''panic(err)''
      | Inr addrInfo \<Rightarrow>
          (case map_of index (ai_ID addrInfo) of
             Some i \<Rightarrow>
               init_loop parse ss index
                 (peers[i := (peers ! i)\<lparr>ai_Addrs := ai_Addrs (peers ! i) @ ai_Addrs addrInfo\<rparr>])
           | None \<Rightarrow>
               init_loop parse ss (AList.update (ai_ID addrInfo) (length peers) index) (peers @ [addrInfo])))"

definition bootstrap_strings :: "string list" where
  "bootstrap_strings =
     [''/dnsaddr/bootstrap.libp2p.io/p2p/QmNnooDu7bfjPFoTZYxMNLWUQJyrVwtbZg5gBMjTezGAJN'',
      ''/dnsaddr/bootstrap.libp2p.io/p2p/QmQCU2EcMqAqQPR2i9bChDtGNJchTbq5TbXJJ16u19uLTa'',
      ''/dnsaddr/bootstrap.libp2p.io/p2p/QmbLHAnMoJPWSCR5Zhtx6BHJX9KiKNN6tpvbUcqanj75Nb'',
      ''/dnsaddr/bootstrap.libp2p.io/p2p/QmcZf59bWwK5XFi76CZX8cbJ4BhTzzA3gU1ZjYZcYW3dwt'',
      ''/dnsaddr/va1.bootstrap.libp2p.io/p2p/12D3KooWKnDdG3iXw9eTFijk3EWSunZcFi54Zka4wmtqtt6rPxc8'',
      ''/ip4/104.131.131.82/tcp/4001/p2p/QmaCpDMGvV2BGHeYERUEnRQAwe3N8SzbUtfsmvsqQLuvuJ'',
      ''/ip4/104.131.131.82/udp/4001/quic-v1/p2p/QmaCpDMGvV2BGHeYERUEnRQAwe3N8SzbUtfsmvsqQLuvuJ'']"

definition init_bootstrap :: "(string \<Rightarrow> goerr + 'm addr_info) \<Rightarrow> ('m addr_info list) may_panic" where
  "init_bootstrap parse = init_loop parse bootstrap_strings [] []"

definition DefaultBootstrapPeers :: "'m addr_info list \<Rightarrow> 'm addr_info list" where
  "DefaultBootstrapPeers defaultBootstrapPeers = defaultBootstrapPeers"

section \<open>Defaults\<close>

definition DefaultConfig ::
  "('m \<Rightarrow> bool) \<Rightarrow> 'm addr_info list \<Rightarrow> ('m, 'rt, 'b, 'ds) Config" where
  "DefaultConfig IsPublicAddr defaultBootstrapPeers =
     \<lparr>cfg_Mode = ModeOptAutoClient, cfg_Query = Some DefaultQueryConfig, cfg_BucketSize = 20,
      cfg_BootstrapPeers = DefaultBootstrapPeers defaultBootstrapPeers,
      cfg_BootstrapMinimumPopulation = 10, cfg_ProtocolID = ProtocolIPFS, cfg_RoutingTable = None,
      cfg_Backends = [], cfg_Datastore = None, cfg_Logger = Some (),
      cfg_TimeoutStreamIdle = time_Minute,
      cfg_AddressFilter = Some (AddrFilterPrivate IsPublicAddr), cfg_MeterProvider = Some (),
      cfg_TracerProvider = Some (), cfg_EnableProviderReprovide = True,
      cfg_ReprovideInterval = 22 * time_Hour\<rparr>"

end
