(* ===== verification/Telemetry.thy ===== *)
theory Telemetry
  imports Messages
begin

text \<open>
  Metrics: \<open>tele/tele.go\<close>, \<open>tele/log.go\<close> and \<open>telemetry.go\<close>. A context is the chain of values that
  \<open>context.WithValue\<close> builds, newest first; the attributes of the metrics travel in it. The
  attribute sets of OpenTelemetry are a parameter with the law that a later value of a key replaces an
  earlier one. Instruments are made by a meter, which may refuse; the gauges of the routing table are
  callbacks that are called when the metrics are collected.
\<close>

section \<open>Attributes\<close>

datatype attr_value = AttrString bytes | AttrBool bool | AttrInt int

type_synonym key_value = "bytes \<times> attr_value"

record 'a tele_lib =
  set_New :: "key_value list \<Rightarrow> 'a"
  set_ToSlice :: "'a \<Rightarrow> key_value list"
  lib_TypeString :: "32 word \<Rightarrow> bytes"     \<comment> \<open>name of a message type\<close>
  lib_Base64 :: "bytes \<Rightarrow> bytes"
  lib_PeerString :: "peer_id \<Rightarrow> bytes"

definition set_law :: "('a, 'z) tele_lib_scheme \<Rightarrow> bool" where
  "set_law A \<longleftrightarrow>
     (\<forall>kvs. map_of (set_ToSlice A (set_New A kvs)) = map_of (rev kvs)) \<and>
     (\<forall>s. distinct (map fst (set_ToSlice A s)))"

definition AttrKeyError :: bytes where "AttrKeyError = ''error''"
definition AttrKeyPeerID :: bytes where "AttrKeyPeerID = ''peer_id''"
definition AttrKeyKey :: bytes where "AttrKeyKey = ''key''"
definition AttrKeyCacheHit :: bytes where "AttrKeyCacheHit = ''hit''"
definition AttrKeyInEvent :: bytes where "AttrKeyInEvent = ''in_event''"
definition AttrKeyOutEvent :: bytes where "AttrKeyOutEvent = ''out_event''"

definition AttrInstanceID :: "bytes \<Rightarrow> key_value" where
  "AttrInstanceID instanceID = (''instance_id'', AttrString instanceID)"

definition AttrPeerID :: "bytes \<Rightarrow> key_value" where "AttrPeerID pid = (AttrKeyPeerID, AttrString pid)"
definition AttrCacheHit :: "bool \<Rightarrow> key_value" where "AttrCacheHit hit = (AttrKeyCacheHit, AttrBool hit)"
definition AttrRecordType :: "bytes \<Rightarrow> key_value" where "AttrRecordType v = (''record_type'', AttrString v)"
definition AttrMessageType :: "bytes \<Rightarrow> key_value" where "AttrMessageType v = (''message_type'', AttrString v)"
definition AttrKey :: "bytes \<Rightarrow> key_value" where "AttrKey v = (''key'', AttrString v)"

text \<open>An event is given by the name of its type, as \<open>%T\<close> prints it.\<close>

definition AttrInEvent :: "bytes \<Rightarrow> key_value" where "AttrInEvent t = (AttrKeyInEvent, AttrString t)"
definition AttrOutEvent :: "bytes \<Rightarrow> key_value" where "AttrOutEvent t = (AttrKeyOutEvent, AttrString t)"

text \<open>Attributes of log lines. The value of an error is the error itself.\<close>

datatype log_value = LogString bytes | LogError goerr

definition LogAttrError :: "goerr \<Rightarrow> bytes \<times> log_value" where
  "LogAttrError err = (AttrKeyError, LogError err)"

definition LogAttrPeerID :: "('a, 'z) tele_lib_scheme \<Rightarrow> peer_id \<Rightarrow> bytes \<times> log_value" where
  "LogAttrPeerID A p = (AttrKeyPeerID, LogString (lib_PeerString A p))"

definition LogAttrKey :: "('b, 'z) hash_lib_scheme \<Rightarrow> 'b Key \<Rightarrow> bytes \<times> log_value" where
  "LogAttrKey H kk = (AttrKeyKey, LogString (HexString H kk))"

text \<open>
  \<open>warnErr\<close> and \<open>debugErr\<close> of a node: the line that is logged, if any, with the attributes of the caller before
  that of the error.
\<close>

datatype log_level = LevelDebug | LevelWarn

type_synonym log_line = "log_level \<times> string \<times> (bytes \<times> log_value) list"

definition warnErr :: "goerr option \<Rightarrow> string \<Rightarrow> (bytes \<times> log_value) list \<Rightarrow> log_line option" where
  "warnErr err msg args =
     (case err of
        None \<Rightarrow> None
      | Some e \<Rightarrow>
          if length args = 0 then Some (LevelWarn, msg, [LogAttrError e])
          else Some (LevelWarn, msg, args @ [LogAttrError e]))"

definition debugErr :: "goerr option \<Rightarrow> string \<Rightarrow> (bytes \<times> log_value) list \<Rightarrow> log_line option" where
  "debugErr err msg args =
     (case err of
        None \<Rightarrow> None
      | Some e \<Rightarrow>
          if length args = 0 then Some (LevelDebug, msg, [LogAttrError e])
          else Some (LevelDebug, msg, args @ [LogAttrError e]))"

lemmas attr_defs = AttrInstanceID_def AttrPeerID_def AttrCacheHit_def AttrRecordType_def AttrMessageType_def
  AttrKey_def AttrKeyPeerID_def AttrKeyCacheHit_def

section \<open>Contexts\<close>

text \<open>The key \<open>attrsCtxKey\<close> has a type of its own, so no other package can use it.\<close>

datatype ctx_key = attrsCtxKey | OtherKey nat

datatype 'a ctx_value = SetValue 'a | OtherValue nat

type_synonym 'a tctx = "(ctx_key \<times> 'a ctx_value) list"

abbreviation ctx_Value :: "'a tctx \<Rightarrow> ctx_key \<Rightarrow> 'a ctx_value option" where "ctx_Value \<equiv> map_of"

definition WithAttributes :: "('a, 'z) tele_lib_scheme \<Rightarrow> 'a tctx \<Rightarrow> key_value list \<Rightarrow> 'a tctx" where
  "WithAttributes A ctx attrs =
     (let attr_set = set_New A attrs;
          attr_set = (case ctx_Value ctx attrsCtxKey of
                   Some (SetValue existing) \<Rightarrow> set_New A (set_ToSlice A existing @ attrs)
                 | _ \<Rightarrow> attr_set)
      in (attrsCtxKey, SetValue attr_set) # ctx)"

definition FromContext :: "('a, 'z) tele_lib_scheme \<Rightarrow> 'a tctx \<Rightarrow> key_value list \<Rightarrow> 'a" where
  "FromContext A ctx attrs =
     (case ctx_Value ctx attrsCtxKey of
        None \<Rightarrow> set_New A attrs
      | Some (SetValue existing) \<Rightarrow> set_New A (set_ToSlice A existing @ attrs)
      | Some _ \<Rightarrow> set_New A attrs)"

text \<open>What a set and a context say, as maps.\<close>

definition attrs_of :: "('a, 'z) tele_lib_scheme \<Rightarrow> 'a \<Rightarrow> bytes \<rightharpoonup> attr_value" where
  "attrs_of A s = map_of (set_ToSlice A s)"

definition ctx_attrs :: "('a, 'z) tele_lib_scheme \<Rightarrow> 'a tctx \<Rightarrow> bytes \<rightharpoonup> attr_value" where
  "ctx_attrs A ctx =
     (case ctx_Value ctx attrsCtxKey of Some (SetValue s) \<Rightarrow> attrs_of A s | _ \<Rightarrow> Map.empty)"

lemma map_of_rev_distinct: "distinct (map fst xs) \<Longrightarrow> map_of (rev xs) = map_of xs"
  by (rule map_of_eqI) (auto simp: map_of_eq_Some_iff distinct_rev simp flip: rev_map)

lemma attrs_of_New: "set_law A \<Longrightarrow> attrs_of A (set_New A kvs) = map_of (rev kvs)"
  by (simp add: set_law_def attrs_of_def)

lemma attrs_of_rev: "set_law A \<Longrightarrow> map_of (rev (set_ToSlice A s)) = attrs_of A s"
  by (simp add: attrs_of_def map_of_rev_distinct set_law_def)

lemma FromContext_attrs:
  "set_law A \<Longrightarrow> attrs_of A (FromContext A ctx kvs) = ctx_attrs A ctx ++ map_of (rev kvs)"
  by (simp add: FromContext_def ctx_attrs_def attrs_of_New attrs_of_rev split: option.split ctx_value.split)

lemma WithAttributes_attrs:
  "set_law A \<Longrightarrow> ctx_attrs A (WithAttributes A ctx kvs) = ctx_attrs A ctx ++ map_of (rev kvs)"
  by (simp add: WithAttributes_def ctx_attrs_def attrs_of_New attrs_of_rev Let_def
      split: option.split ctx_value.split)

section \<open>The attributes of a stream\<close>

text \<open>
  The context of \<open>streamHandler\<close>, and what the loop of \<open>handleNewStream\<close> makes of it: it assigns the
  extended context to the variable of the loop.
\<close>

definition handler_ctx :: "('a, 'z) tele_lib_scheme \<Rightarrow> peer_id \<Rightarrow> bytes \<Rightarrow> 'a tctx" where
  "handler_ctx A self instance_id =
     WithAttributes A [] [AttrPeerID (lib_PeerString A self), AttrInstanceID instance_id]"

definition message_ctx :: "('a, 'z) tele_lib_scheme \<Rightarrow> 'a tctx \<Rightarrow> Message \<Rightarrow> 'a tctx" where
  "message_ctx A ctx req =
     WithAttributes A ctx
       [AttrMessageType (lib_TypeString A (msg_Type req)), AttrKey (lib_Base64 A (msg_Key req))]"

definition stream_ctx :: "('a, 'z) tele_lib_scheme \<Rightarrow> peer_id \<Rightarrow> bytes \<Rightarrow> Message list \<Rightarrow> 'a tctx" where
  "stream_ctx A self instance_id reqs = foldl (message_ctx A) (handler_ctx A self instance_id) reqs"

text \<open>With what a handled message, and one that could not be read or unmarshalled, is counted.\<close>

definition handled_attrs :: "('a, 'z) tele_lib_scheme \<Rightarrow> 'a tctx \<Rightarrow> 'a" where
  "handled_attrs A ctx = FromContext A ctx []"

definition unread_attrs :: "('a, 'z) tele_lib_scheme \<Rightarrow> 'a tctx \<Rightarrow> 'a" where
  "unread_attrs A ctx = FromContext A ctx [AttrMessageType ''UNKNOWN'']"

definition trackCacheQuery :: "('a, 'z) tele_lib_scheme \<Rightarrow> 'a tctx \<Rightarrow> bool \<Rightarrow> 'a list \<Rightarrow> 'a list" where
  "trackCacheQuery A ctx hit counted =
     counted @ [FromContext A ctx [AttrCacheHit hit, AttrRecordType ''provider'']]"

definition base_attrs :: "('a, 'z) tele_lib_scheme \<Rightarrow> peer_id \<Rightarrow> bytes \<Rightarrow> bytes \<rightharpoonup> attr_value" where
  "base_attrs A self instance_id =
     [''peer_id'' \<mapsto> AttrString (lib_PeerString A self), ''instance_id'' \<mapsto> AttrString instance_id]"

definition message_attrs :: "('a, 'z) tele_lib_scheme \<Rightarrow> Message \<Rightarrow> bytes \<rightharpoonup> attr_value" where
  "message_attrs A req =
     [''message_type'' \<mapsto> AttrString (lib_TypeString A (msg_Type req)),
      ''key'' \<mapsto> AttrString (lib_Base64 A (msg_Key req))]"

lemma handler_ctx_attrs: "set_law A \<Longrightarrow> ctx_attrs A (handler_ctx A self i) = base_attrs A self i"
  by (auto simp: handler_ctx_def WithAttributes_attrs base_attrs_def ctx_attrs_def [of A "[]"] attr_defs)

lemma message_ctx_attrs: "set_law A \<Longrightarrow> ctx_attrs A (message_ctx A ctx req) = ctx_attrs A ctx ++ message_attrs A req"
  by (auto simp: message_ctx_def WithAttributes_attrs message_attrs_def attr_defs)

lemma message_attrs_shadow: "m ++ message_attrs A r ++ message_attrs A r' = m ++ message_attrs A r'"
  by (auto simp: message_attrs_def)

lemma stream_ctx_attrs:
  assumes "set_law A"
  shows "ctx_attrs A (stream_ctx A self i reqs) =
           (if reqs = [] then base_attrs A self i else base_attrs A self i ++ message_attrs A (last reqs))"
proof (induction reqs rule: rev_induct)
  case Nil
  then show ?case using assms by (simp add: stream_ctx_def handler_ctx_attrs)
next
  case (snoc req reqs)
  then show ?case
    by (simp add: stream_ctx_def message_ctx_attrs [OF assms] message_attrs_shadow)
qed

section \<open>Instruments\<close>

datatype instrument_kind = Int64Counter | Int64Histogram | Float64Histogram

text \<open>A meter makes an instrument of a kind under a name, or fails.\<close>

type_synonym 'i meter = "instrument_kind \<Rightarrow> bytes \<Rightarrow> goerr + 'i"

record 'i Telemetry =
  tl_ReceivedMessages :: 'i
  tl_ReceivedMessageErrors :: 'i
  tl_ReceivedBytes :: 'i
  tl_InboundRequestLatency :: 'i
  tl_OutboundRequestLatency :: 'i
  tl_SentMessages :: 'i
  tl_SentMessageErrors :: 'i
  tl_SentRequests :: 'i
  tl_SentRequestErrors :: 'i
  tl_SentBytes :: 'i
  tl_LRUCache :: 'i

definition wrap_err :: "string \<Rightarrow> goerr + 'a \<Rightarrow> goerr + 'a" where
  "wrap_err s r = (case r of Inl e \<Rightarrow> Inl (Wrapf s e) | Inr a \<Rightarrow> Inr a)"

lemma wrap_err_simps [simp]:
  "wrap_err s (Inl e) = Inl (Wrapf s e)"
  "wrap_err s (Inr a) = Inr a"
  by (simp_all add: wrap_err_def)

text \<open>A meter or tracer provider that is \<open>nil\<close> is replaced by the global one.\<close>

definition NewTelemetry :: "'i meter \<Rightarrow> 'i meter option \<Rightarrow> goerr + 'i Telemetry" where
  "NewTelemetry global_meter meterProvider =
     (let meter = (case meterProvider of None \<Rightarrow> global_meter | Some m \<Rightarrow> m)
      in bind_err (wrap_err ''received_messages counter'' (meter Int64Counter ''received_messages'')) (\<lambda>i1.
         bind_err (wrap_err ''received_message_errors counter'' (meter Int64Counter ''received_message_errors'')) (\<lambda>i2.
         bind_err (wrap_err ''received_bytes histogram'' (meter Int64Histogram ''received_bytes'')) (\<lambda>i3.
         bind_err (wrap_err ''inbound_request_latency histogram'' (meter Float64Histogram ''inbound_request_latency'')) (\<lambda>i4.
         bind_err (wrap_err ''outbound_request_latency histogram'' (meter Float64Histogram ''outbound_request_latency'')) (\<lambda>i5.
         bind_err (wrap_err ''sent_messages counter'' (meter Int64Counter ''sent_messages'')) (\<lambda>i6.
         bind_err (wrap_err ''sent_message_errors counter'' (meter Int64Counter ''sent_message_errors'')) (\<lambda>i7.
         bind_err (wrap_err ''sent_requests counter'' (meter Int64Counter ''sent_requests'')) (\<lambda>i8.
         bind_err (wrap_err ''sent_request_errors counter'' (meter Int64Counter ''sent_request_errors'')) (\<lambda>i9.
         bind_err (wrap_err ''sent_bytes histogram'' (meter Int64Histogram ''sent_bytes'')) (\<lambda>i10.
         bind_err (wrap_err ''lru_cache counter'' (meter Int64Counter ''lru_cache'')) (\<lambda>i11.
           Inr \<lparr>tl_ReceivedMessages = i1, tl_ReceivedMessageErrors = i2, tl_ReceivedBytes = i3,
                tl_InboundRequestLatency = i4, tl_OutboundRequestLatency = i5, tl_SentMessages = i6,
                tl_SentMessageErrors = i7, tl_SentRequests = i8, tl_SentRequestErrors = i9,
                tl_SentBytes = i10, tl_LRUCache = i11\<rparr>))))))))))))"

definition NewWithGlobalProviders :: "'i meter \<Rightarrow> goerr + 'i Telemetry" where
  "NewWithGlobalProviders global_meter = NewTelemetry global_meter (Some global_meter)"

text \<open>Telemetry is there exactly if the meter makes all its instruments.\<close>

definition instruments :: "(instrument_kind \<times> bytes) list" where
  "instruments =
     [(Int64Counter, ''received_messages''), (Int64Counter, ''received_message_errors''),
      (Int64Histogram, ''received_bytes''), (Float64Histogram, ''inbound_request_latency''),
      (Float64Histogram, ''outbound_request_latency''), (Int64Counter, ''sent_messages''),
      (Int64Counter, ''sent_message_errors''), (Int64Counter, ''sent_requests''),
      (Int64Counter, ''sent_request_errors''), (Int64Histogram, ''sent_bytes''), (Int64Counter, ''lru_cache'')]"

lemma bind_err_Inr: "bind_err r f = Inr b \<longleftrightarrow> (\<exists>a. r = Inr a \<and> f a = Inr b)"
  by (cases r) simp_all

lemma wrap_err_Inr: "wrap_err s r = Inr a \<longleftrightarrow> r = Inr a"
  by (cases r) simp_all

lemma NewTelemetry_ok:
  "(\<exists>t. NewTelemetry g (Some m) = Inr t) \<longleftrightarrow> (\<forall>(k, n) \<in> set instruments. \<exists>i. m k n = Inr i)"
  by (auto simp: NewTelemetry_def Let_def bind_err_Inr wrap_err_Inr instruments_def)

section \<open>Gauges of the routing table\<close>

text \<open>
  A routing table as the callbacks see it: \<open>Size\<close> only if the table has the method. A gauge is its
  name with its callback, which makes observations of a value with attributes.
\<close>

record 'rt table_ops =
  rt_Size :: "('rt \<Rightarrow> int) option"
  rt_CplSize :: "'rt \<Rightarrow> nat \<Rightarrow> int"

type_synonym observation = "int \<times> key_value list"

type_synonym 'rt gauge = "bytes \<times> ('rt \<Rightarrow> observation list)"

definition key_bits :: nat where "key_bits = 256"

definition observe_size :: "'rt table_ops \<Rightarrow> 'rt \<Rightarrow> observation list" where
  "observe_size R rt = (case rt_Size R of Some sizer \<Rightarrow> [(sizer rt, [])] | None \<Rightarrow> [])"

definition observe_occupied :: "'rt table_ops \<Rightarrow> 'rt \<Rightarrow> observation list" where
  "observe_occupied R rt =
     [(foldl (\<lambda>n cpl. if rt_CplSize R rt cpl > 0 then n + 1 else n) 0 [0..<key_bits], [])]"

definition observe_buckets :: "'rt table_ops \<Rightarrow> 'rt \<Rightarrow> observation list" where
  "observe_buckets R rt =
     foldl (\<lambda>obs cpl. let n = rt_CplSize R rt cpl
                     in if n > 0 then obs @ [(n, [(''cpl'', AttrInt (int cpl))])] else obs)
       [] [0..<key_bits]"

text \<open>The gauges that were registered, also when a later one was refused.\<close>

definition registerRoutingTableMetrics ::
  "(bytes \<Rightarrow> goerr option) \<Rightarrow> 'rt table_ops \<Rightarrow> goerr option \<times> 'rt gauge list" where
  "registerRoutingTableMetrics new_gauge R =
     (case new_gauge ''routing_table_size'' of
        Some err \<Rightarrow> (Some (Wrapf ''routing_table_size gauge'' err), [])
      | None \<Rightarrow>
     (case new_gauge ''routing_table_buckets_occupied'' of
        Some err \<Rightarrow>
          (Some (Wrapf ''routing_table_buckets_occupied gauge'' err), [(''routing_table_size'', observe_size R)])
      | None \<Rightarrow>
     (case new_gauge ''routing_table_bucket_size'' of
        Some err \<Rightarrow>
          (Some (Wrapf ''routing_table_bucket_size gauge'' err),
           [(''routing_table_size'', observe_size R), (''routing_table_buckets_occupied'', observe_occupied R)])
      | None \<Rightarrow>
          (None,
           [(''routing_table_size'', observe_size R), (''routing_table_buckets_occupied'', observe_occupied R),
            (''routing_table_bucket_size'', observe_buckets R)]))))"

definition occupied :: "(nat \<Rightarrow> int) \<Rightarrow> nat list" where
  "occupied sizes = filter (\<lambda>cpl. sizes cpl > 0) [0..<key_bits]"

lemma foldl_count: "foldl (\<lambda>n x. if P x then n + 1 else n) (m :: int) xs = m + int (length (filter P xs))"
  by (induction xs arbitrary: m) auto

lemma foldl_collect: "foldl (\<lambda>acc x. if P x then acc @ [f x] else acc) ys xs = ys @ map f (filter P xs)"
  by (induction xs arbitrary: ys) auto

lemma observe_occupied_eq: "observe_occupied R rt = [(int (length (occupied (rt_CplSize R rt))), [])]"
  by (simp add: observe_occupied_def occupied_def foldl_count)

lemma observe_buckets_eq:
  "observe_buckets R rt =
     map (\<lambda>cpl. (rt_CplSize R rt cpl, [(''cpl'', AttrInt (int cpl))])) (occupied (rt_CplSize R rt))"
  by (simp add: observe_buckets_def occupied_def Let_def foldl_collect)

section \<open>Properties\<close>

definition demo_tele :: "key_value list tele_lib" where
  "demo_tele = \<lparr>set_New = (\<lambda>kvs. AList.clearjunk (rev kvs)), set_ToSlice = AList.clearjunk,
     lib_TypeString = (\<lambda>t. ''T''), lib_Base64 = (\<lambda>b. b), lib_PeerString = (\<lambda>p. p)\<rparr>"

lemma demo_tele_law: "set_law demo_tele"
  by (simp add: set_law_def demo_tele_def map_of_clearjunk distinct_clearjunk)

text \<open>
  The attributes the messages of a stream are counted with: a handled message with the peer
  and the instance of this node and its own type and key, whatever came before on the stream. But the loop
  extends the context of the loop, so a message that cannot be read or unmarshalled is counted with the
  key of the request before it, next to the type UNKNOWN.
\<close>
lemma stream_attributes:
  assumes "set_law A"
  shows "attrs_of A (handled_attrs A (stream_ctx A self i (reqs @ [req]))) =
           base_attrs A self i ++ message_attrs A req \<and>
         attrs_of A (unread_attrs A (stream_ctx A self i [])) =
           (base_attrs A self i)(''message_type'' \<mapsto> AttrString ''UNKNOWN'') \<and>
         attrs_of A (unread_attrs A (stream_ctx A self i (reqs @ [req]))) ''key'' =
           Some (AttrString (lib_Base64 A (msg_Key req))) \<and>
         attrs_of A (unread_attrs A (stream_ctx A self i reqs)) ''message_type'' = Some (AttrString ''UNKNOWN'')"
  using assms
  by (simp add: handled_attrs_def unread_attrs_def FromContext_attrs stream_ctx_attrs attr_defs)
     (simp add: message_attrs_def)

lemma stream_attributes_witness:
  "attrs_of demo_tele
     (unread_attrs demo_tele (stream_ctx demo_tele ''n'' ''i'' [zero_Message\<lparr>msg_Key := ''k''\<rparr>])) ''key'' =
   Some (AttrString ''k'')"
  using stream_attributes [OF demo_tele_law, of "''n''" "''i''" "[]" "zero_Message\<lparr>msg_Key := ''k''\<rparr>"]
  by (simp add: demo_tele_def)

text \<open>
  What the gauges of the routing table report of a table: the number of occupied buckets is the
  number of buckets that are reported with their size; these are all that are not empty, each once in the
  order of their common prefix length, and if the size of the table is the sum of its buckets, so is
  the sum of the reported sizes.
\<close>
lemma routing_table_gauges:
  assumes "registerRoutingTableMetrics new_gauge R = (None, gauges)"
    and "\<forall>cpl. 0 \<le> rt_CplSize R rt cpl"
  shows "\<exists>occ buckets total.
           map_of gauges ''routing_table_buckets_occupied'' = Some occ \<and>
           map_of gauges ''routing_table_bucket_size'' = Some buckets \<and>
           map_of gauges ''routing_table_size'' = Some total \<and>
           occ rt = [(int (length (buckets rt)), [])] \<and>
           (\<forall>n kvs. (n, kvs) \<in> set (buckets rt) \<longleftrightarrow>
              (\<exists>cpl < 256. kvs = [(''cpl'', AttrInt (int cpl))] \<and> n = rt_CplSize R rt cpl \<and> n \<noteq> 0)) \<and>
           distinct (map snd (buckets rt)) \<and>
           sum_list (map fst (buckets rt)) = (\<Sum>cpl < 256. rt_CplSize R rt cpl) \<and>
           (\<forall>f. rt_Size R = Some f \<longrightarrow> total rt = [(f rt, [])])"
proof -
  have g: "gauges = [(''routing_table_size'', observe_size R), (''routing_table_buckets_occupied'', observe_occupied R),
      (''routing_table_bucket_size'', observe_buckets R)]"
    using assms(1) by (auto simp: registerRoutingTableMetrics_def split: option.splits)
  have pos: "0 < rt_CplSize R rt cpl \<longleftrightarrow> rt_CplSize R rt cpl \<noteq> 0" for cpl
    using assms(2) by (metis order_less_le)
  have "sum_list (map fst (observe_buckets R rt)) = (\<Sum>cpl \<leftarrow> [0..<256]. rt_CplSize R rt cpl)"
    by (simp add: observe_buckets_eq occupied_def key_bits_def comp_def pos sum_list_map_filter'
        cong: if_cong del: upt_rec_numeral) (rule arg_cong [of _ _ sum_list], simp)
  also have "\<dots> = (\<Sum>cpl < 256. rt_CplSize R rt cpl)"
    by (simp add: interv_sum_list_conv_sum_set_nat atLeast0LessThan)
  finally have sum: "sum_list (map fst (observe_buckets R rt)) = (\<Sum>cpl < 256. rt_CplSize R rt cpl)" .
  have dist: "distinct (map snd (observe_buckets R rt))"
    by (auto simp: observe_buckets_eq occupied_def comp_def distinct_map inj_on_def)
  have mem: "(n, kvs) \<in> set (observe_buckets R rt) \<longleftrightarrow>
      (\<exists>cpl < 256. kvs = [(''cpl'', AttrInt (int cpl))] \<and> n = rt_CplSize R rt cpl \<and> n \<noteq> 0)" for n kvs
    by (auto simp: observe_buckets_eq occupied_def key_bits_def pos image_iff)
  show ?thesis
    using sum dist mem by (auto simp: g observe_occupied_eq observe_size_def) (simp_all add: observe_buckets_eq)
qed

lemma routing_table_gauges_witness:
  "\<exists>gauges buckets.
     registerRoutingTableMetrics (\<lambda>name. None) \<lparr>rt_Size = None, rt_CplSize = (\<lambda>rt cpl. if cpl < 2 then rt else 0)\<rparr>
       = (None, gauges) \<and>
     map_of gauges ''routing_table_bucket_size'' = Some buckets \<and> distinct (map snd (buckets 3)) \<and>
     (3, [(''cpl'', AttrInt 1)]) \<in> set (buckets 3)"
proof -
  let ?R = "\<lparr>rt_Size = None, rt_CplSize = (\<lambda>rt cpl. if cpl < 2 then rt else 0)\<rparr> :: int table_ops"
  obtain gauges where g: "registerRoutingTableMetrics (\<lambda>name. None) ?R = (None, gauges)"
    by (simp add: registerRoutingTableMetrics_def)
  have "\<forall>cpl. 0 \<le> rt_CplSize ?R 3 cpl" by simp
  from routing_table_gauges [OF g this] obtain buckets where
    b: "map_of gauges ''routing_table_bucket_size'' = Some buckets" "distinct (map snd (buckets 3))"
    "\<forall>n kvs. (n, kvs) \<in> set (buckets 3) \<longleftrightarrow>
       (\<exists>cpl < 256. kvs = [(''cpl'', AttrInt (int cpl))] \<and> n = rt_CplSize ?R 3 cpl \<and> n \<noteq> 0)"
    by metis
  have "\<exists>cpl < 256. [(''cpl'', AttrInt 1)] = [(''cpl'', AttrInt (int cpl))] \<and> 3 = rt_CplSize ?R 3 cpl \<and> (3 :: int) \<noteq> 0"
    by (intro exI [of _ "1 :: nat"]) simp
  then have "(3, [(''cpl'', AttrInt 1)]) \<in> set (buckets 3)" using b(3) by blast
  then show ?thesis using g b(1,2) by blast
qed

end
