(* ===== verification/Lifecycle.thy ===== *)
theory Lifecycle
  imports Config Telemetry
begin

text \<open>
  The life of a node: its construction (\<open>New\<close>), the switching between client and server mode,
  the events that cause it and the closing (\<open>dht.go\<close>, \<open>notifee.go\<close>). The libp2p host
  is the record \<open>host\<close>: the protocols with a stream handler, the streams of each connection and
  the calls of \<open>AddAddrs\<close>. The coordinator is a value of type \<open>'k\<close>; what is called on it
  and what other constructors return is the record \<open>libs\<close>. Logging is left out; an error that
  the code only logs has no effect.
\<close>

section \<open>The host\<close>

datatype direction = DirUnknown | DirInbound | DirOutbound

record lstream =
  s_Protocol :: string
  s_Direction :: direction
  s_Reset :: bool

record 'm host =
  h_ID :: peer_id
  h_Handlers :: "string list"
  h_Conns :: "lstream list list"
  h_AddAddrs :: "(peer_id \<times> 'm list \<times> int) list"

definition PermanentAddrTTL :: int where "PermanentAddrTTL = 2 ^ 63 - 1"

section \<open>The node\<close>

text \<open>
  A backend as an interface value: the type it has, which matters to type assertions. A backend of
  the user may have a \<open>Close\<close> method; \<open>tracedBackend\<close> has none.
\<close>

datatype ('p, 'r) backend_val =
    ProvidersB 'p
  | RecordB 'r
  | UserB bool
  | TracedB string "('p, 'r) backend_val"

datatype event_kind =
    PeerIdentificationCompleted | PeerProtocolsUpdated | LocalAddressesUpdated
  | PeerConnectednessChanged | LocalReachabilityChanged

text \<open>The part of the coordinator's configuration that \<open>New\<close> derives from its own.\<close>

record coord_cfg =
  cc_ReplicationFactor :: int
  cc_Query_Concurrency :: int
  cc_Query_Timeout :: int
  cc_Query_RequestConcurrency :: int
  cc_Query_RequestTimeout :: int
  cc_BootstrapPeers :: "peer_id list"
  cc_BootstrapMinimumPopulation :: int
  cc_EnableExplore :: bool
  cc_Keystore :: bool
  cc_EnableSurvey :: bool
  cc_SurveyInterval :: int

record ('m, 'rt, 'p, 'r, 'ds, 'ks, 'k) node =
  t_cfg :: "('m, 'rt, ('p, 'r) backend_val, 'ds) Config"
  t_mode :: string
  t_kad :: 'k
  t_rt :: 'rt
  t_backends :: "(string, ('p, 'r) backend_val) gomap"
  t_provideKeys :: "'ks option"
  t_subscribed :: "event_kind list"
  t_subOpen :: bool
  t_stopped :: bool
  t_closedBackends :: "string list"
  t_datastoreClosed :: bool

record ('m, 'rt, 'p, 'r, 'ds, 'ks, 'k) libs =
  l_DefaultConfig :: "('m, 'rt, ('p, 'r) backend_val, 'ds) Config"
  l_triert_New :: "peer_id \<Rightarrow> goerr + 'rt"
  l_meter :: "unit meter"                 \<comment> \<open>of the meter provider, the global one or that of the configuration\<close>
  l_gauge :: "bytes \<Rightarrow> goerr option"     \<comment> \<open>\<open>Int64ObservableGauge\<close>\<close>
  l_table :: "'rt table_ops"
  l_initAminoBackends :: "('m, 'rt, ('p, 'r) backend_val, 'ds) Config \<Rightarrow> goerr + ('p \<times> 'r \<times> 'r \<times> 'ds)"
  l_newProviderKeystore :: "'ds \<Rightarrow> goerr + 'ks"
  l_DefaultCoordinatorConfig :: coord_cfg
  l_NewCoordinator :: "peer_id \<Rightarrow> 'rt \<Rightarrow> coord_cfg \<Rightarrow> goerr + 'k"
  l_Subscribe :: "event_kind list \<Rightarrow> goerr option"
  l_AddNodes :: "'k \<Rightarrow> peer_id list \<Rightarrow> goerr option \<times> 'k"
  l_Bootstrap :: "'k \<Rightarrow> goerr option \<times> 'k"
  l_kad_Close :: "'k \<Rightarrow> goerr option \<times> 'k"

definition modeClient :: string where "modeClient = ''client''"
definition modeServer :: string where "modeServer = ''server''"

lemma mode_distinct [simp]: "modeClient \<noteq> modeServer" "modeServer \<noteq> modeClient"
  by (simp_all add: modeClient_def modeServer_def)

section \<open>Modes\<close>

abbreviation proto :: "('m, 'rt, 'p, 'r, 'ds, 'ks, 'k, 'z) node_scheme \<Rightarrow> string" where
  "proto d \<equiv> cfg_ProtocolID (t_cfg d)"

definition setServerMode ::
  "('m, 'rt, 'p, 'r, 'ds, 'ks, 'k) node \<times> 'm host \<Rightarrow> ('m, 'rt, 'p, 'r, 'ds, 'ks, 'k) node \<times> 'm host" where
  "setServerMode s =
     (case s of (d, h) \<Rightarrow>
        (d\<lparr>t_mode := modeServer\<rparr>, h\<lparr>h_Handlers := List.insert (proto d) (h_Handlers h)\<rparr>))"

text \<open>A stream of the protocol is reset unless it is outbound.\<close>

definition reset_inbound :: "string \<Rightarrow> lstream \<Rightarrow> lstream" where
  "reset_inbound p s =
     (if s_Protocol s \<noteq> p then s
      else (case s_Direction s of DirOutbound \<Rightarrow> s | _ \<Rightarrow> s\<lparr>s_Reset := True\<rparr>))"

definition setClientMode ::
  "('m, 'rt, 'p, 'r, 'ds, 'ks, 'k) node \<times> 'm host \<Rightarrow> ('m, 'rt, 'p, 'r, 'ds, 'ks, 'k) node \<times> 'm host" where
  "setClientMode s =
     (case s of (d, h) \<Rightarrow>
        (d\<lparr>t_mode := modeClient\<rparr>,
         h\<lparr>h_Handlers := removeAll (proto d) (h_Handlers h),
           h_Conns := map (map (reset_inbound (proto d))) (h_Conns h)\<rparr>))"

section \<open>Events\<close>

datatype reachability = ReachabilityUnknown | ReachabilityPublic | ReachabilityPrivate | ReachabilityOther

datatype net_event =
    EvtLocalReachabilityChanged reachability
  | EvtLocalAddressesUpdated
  | EvtPeerProtocolsUpdated peer_id
  | EvtPeerIdentificationCompleted peer_id
  | EvtPeerConnectednessChanged peer_id

fun kind_of :: "net_event \<Rightarrow> event_kind" where
  "kind_of (EvtLocalReachabilityChanged r) = LocalReachabilityChanged"
| "kind_of EvtLocalAddressesUpdated = LocalAddressesUpdated"
| "kind_of (EvtPeerProtocolsUpdated p) = PeerProtocolsUpdated"
| "kind_of (EvtPeerIdentificationCompleted p) = PeerIdentificationCompleted"
| "kind_of (EvtPeerConnectednessChanged p) = PeerConnectednessChanged"

definition subscribed_kinds :: "('m, 'rt, 'b, 'ds) Config \<Rightarrow> event_kind list" where
  "subscribed_kinds cfg =
     [PeerIdentificationCompleted, PeerProtocolsUpdated, LocalAddressesUpdated, PeerConnectednessChanged] @
     (if cfg_Mode cfg = ModeOptAutoServer \<or> cfg_Mode cfg = ModeOptAutoClient
      then [LocalReachabilityChanged] else [])"

definition onEvtLocalReachabilityChanged ::
  "reachability \<Rightarrow> ('m, 'rt, 'p, 'r, 'ds, 'ks, 'k) node \<times> 'm host
     \<Rightarrow> ('m, 'rt, 'p, 'r, 'ds, 'ks, 'k) node \<times> 'm host" where
  "onEvtLocalReachabilityChanged r s =
     (case r of
        ReachabilityPrivate \<Rightarrow> setClientMode s
      | ReachabilityPublic \<Rightarrow> setServerMode s
      | ReachabilityUnknown \<Rightarrow>
          if cfg_Mode (t_cfg (fst s)) = ModeOptAutoClient then setClientMode s
          else if cfg_Mode (t_cfg (fst s)) = ModeOptAutoServer then setServerMode s
          else s
      | ReachabilityOther \<Rightarrow> s)"

definition onEvtPeerIdentificationCompleted ::
  "('m, 'rt, 'p, 'r, 'ds, 'ks, 'k) libs \<Rightarrow> peer_id \<Rightarrow> ('m, 'rt, 'p, 'r, 'ds, 'ks, 'k) node \<times> 'm host
     \<Rightarrow> ('m, 'rt, 'p, 'r, 'ds, 'ks, 'k) node \<times> 'm host" where
  "onEvtPeerIdentificationCompleted L p s =
     (case s of (d, h) \<Rightarrow> (d\<lparr>t_kad := snd (l_AddNodes L (t_kad d) [p])\<rparr>, h))"

text \<open>The body of the loop of \<open>consumeNetworkEvents\<close>, and the loop on the events of a channel.\<close>

definition consume_event ::
  "('m, 'rt, 'p, 'r, 'ds, 'ks, 'k) libs \<Rightarrow> net_event \<Rightarrow> ('m, 'rt, 'p, 'r, 'ds, 'ks, 'k) node \<times> 'm host
     \<Rightarrow> ('m, 'rt, 'p, 'r, 'ds, 'ks, 'k) node \<times> 'm host" where
  "consume_event L evt s =
     (case evt of
        EvtLocalReachabilityChanged r \<Rightarrow> onEvtLocalReachabilityChanged r s
      | EvtPeerIdentificationCompleted p \<Rightarrow> onEvtPeerIdentificationCompleted L p s
      | _ \<Rightarrow> s)"

fun consumeNetworkEvents ::
  "('m, 'rt, 'p, 'r, 'ds, 'ks, 'k) libs \<Rightarrow> net_event list \<Rightarrow> ('m, 'rt, 'p, 'r, 'ds, 'ks, 'k) node \<times> 'm host
     \<Rightarrow> ('m, 'rt, 'p, 'r, 'ds, 'ks, 'k) node \<times> 'm host" where
  "consumeNetworkEvents L [] s = s"
| "consumeNetworkEvents L (evt # evts) s = consumeNetworkEvents L evts (consume_event L evt s)"

section \<open>Construction\<close>

definition DefaultRoutingTable ::
  "('m, 'rt, 'p, 'r, 'ds, 'ks, 'k) libs \<Rightarrow> peer_id \<Rightarrow> goerr + 'rt" where
  "DefaultRoutingTable L nodeID =
     (case l_triert_New L nodeID of
        Inl err \<Rightarrow> Inl (Wrapf ''new trie routing table'' err)
      | Inr rt \<Rightarrow> Inr rt)"

definition addBootstrapPeers ::
  "('m, 'rt, 'b, 'ds) Config \<Rightarrow> 'm host \<Rightarrow> peer_id list \<times> 'm host" where
  "addBootstrapPeers cfg h =
     (map ai_ID (cfg_BootstrapPeers cfg),
      h\<lparr>h_AddAddrs := h_AddAddrs h @
          map (\<lambda>ai. (ai_ID ai, ai_Addrs ai, PermanentAddrTTL)) (cfg_BootstrapPeers cfg)\<rparr>)"

text \<open>\<open>initAminoBackends\<close> sets the datastore of the node besides returning the backends.\<close>

definition New_backends ::
  "('m, 'rt, 'p, 'r, 'ds, 'ks, 'k) libs \<Rightarrow> ('m, 'rt, ('p, 'r) backend_val, 'ds) Config
     \<Rightarrow> goerr + ((string, ('p, 'r) backend_val) gomap \<times> 'ds option)" where
  "New_backends L cfg =
     (if length (cfg_Backends cfg) \<noteq> 0 then Inr (cfg_Backends cfg, None)
      else if cfg_ProtocolID cfg = ProtocolIPFS then
        (case l_initAminoBackends L cfg of
           Inl err \<Rightarrow> Inl (Wrapf ''init amino backends'' err)
         | Inr (pbe, ipnsBe, pkBe, ds) \<Rightarrow>
             Inr ([(namespaceIPNS, RecordB ipnsBe), (namespacePublicKey, RecordB pkBe),
                   (namespaceProviders, ProvidersB pbe)], Some ds))
      else Inr ([], None))"

definition New_keystore ::
  "('m, 'rt, 'p, 'r, 'ds, 'ks, 'k) libs \<Rightarrow> 'ds option \<Rightarrow> goerr + 'ks option" where
  "New_keystore L datastore =
     (case datastore of
        None \<Rightarrow> Inr None
      | Some ds \<Rightarrow>
          (case l_newProviderKeystore L ds of
             Inl err \<Rightarrow> Inl (Wrapf ''new provider keystore'' err)
           | Inr ks \<Rightarrow> Inr (Some ks)))"

text \<open>What \<open>New\<close> sets in the default configuration of the coordinator; callbacks are left out.\<close>

definition New_coord_cfg ::
  "coord_cfg \<Rightarrow> ('m, 'rt, 'b, 'ds) Config \<Rightarrow> QueryConfig \<Rightarrow> peer_id list \<Rightarrow> bool \<Rightarrow> coord_cfg" where
  "New_coord_cfg coordCfg cfg q bootstrap keystore =
     (let coordCfg = coordCfg\<lparr>cc_ReplicationFactor := cfg_BucketSize cfg,
            cc_Query_Concurrency := q_Concurrency q, cc_Query_Timeout := q_Timeout q,
            cc_Query_RequestConcurrency := q_RequestConcurrency q,
            cc_Query_RequestTimeout := q_RequestTimeout q, cc_BootstrapPeers := bootstrap,
            cc_BootstrapMinimumPopulation := cfg_BootstrapMinimumPopulation cfg, cc_EnableExplore := True\<rparr>
      in if keystore
         then coordCfg\<lparr>cc_Keystore := True, cc_EnableSurvey := cfg_EnableProviderReprovide cfg,
                cc_SurveyInterval := cfg_ReprovideInterval cfg\<rparr>
         else coordCfg)"

text \<open>
  The result and the host as \<open>New\<close> leaves it. Without a query configuration the code would
  panic; validation excludes that.
\<close>

definition New ::
  "('m, 'rt, 'p, 'r, 'ds, 'ks, 'k) libs \<Rightarrow> 'm host \<Rightarrow> ('m, 'rt, ('p, 'r) backend_val, 'ds) Config option
     \<Rightarrow> (goerr + ('m, 'rt, 'p, 'r, 'ds, 'ks, 'k) node) may_panic \<times> 'm host" where
  "New L h cfg0 =
     (case (case cfg0 of
              None \<Rightarrow> Inr (l_DefaultConfig L)
            | Some cfg \<Rightarrow>
                (case Config_Validate cfg of
                   Some err \<Rightarrow> Inl (Wrapf ''validate DHT config'' err)
                 | None \<Rightarrow> Inr cfg)) of
        Inl err \<Rightarrow> (Inr (Inl err), h)
      | Inr cfg \<Rightarrow>
     (case (case cfg_RoutingTable cfg of Some rt \<Rightarrow> Inr rt | None \<Rightarrow> DefaultRoutingTable L (h_ID h)) of
        Inl err \<Rightarrow> (Inr (Inl (Wrapf ''new trie routing table'' err)), h)
      | Inr rt \<Rightarrow>
     (case NewTelemetry (l_meter L) (map_option (\<lambda>_. l_meter L) (cfg_MeterProvider cfg)) of
        Inl err \<Rightarrow> (Inr (Inl (Wrapf ''init telemetry'' err)), h)
      | Inr telemetry \<Rightarrow>
     (case fst (registerRoutingTableMetrics (l_gauge L) (l_table L)) of
        Some err \<Rightarrow> (Inr (Inl (Wrapf ''register routing table metrics'' err)), h)
      | None \<Rightarrow>
     (case New_backends L cfg of
        Inl err \<Rightarrow> (Inr (Inl err), h)
      | Inr (bs, datastore) \<Rightarrow>
     (case New_keystore L datastore of
        Inl err \<Rightarrow> (Inr (Inl err), h)
      | Inr ks \<Rightarrow>
     (case cfg_Query cfg of
        None \<Rightarrow> (Inl ''nil pointer dereference'', h)
      | Some q \<Rightarrow>
     (case addBootstrapPeers cfg h of (ids, h1) \<Rightarrow>
     (case l_NewCoordinator L (h_ID h) rt (New_coord_cfg (l_DefaultCoordinatorConfig L) cfg q ids (ks \<noteq> None)) of
        Inl err \<Rightarrow> (Inr (Inl (Wrapf ''new coordinator'' err)), h1)
      | Inr k \<Rightarrow>
     (let d = \<lparr>t_cfg = cfg, t_mode = [], t_kad = k, t_rt = rt,
               t_backends = map (\<lambda>(ns, be). (ns, TracedB ns be)) bs, t_provideKeys = ks,
               t_subscribed = subscribed_kinds cfg, t_subOpen = True, t_stopped = False,
               t_closedBackends = [], t_datastoreClosed = False\<rparr>
      in case (if cfg_Mode cfg = ModeOptClient \<or> cfg_Mode cfg = ModeOptAutoClient
               then Some (setClientMode (d, h1))
               else if cfg_Mode cfg = ModeOptServer \<or> cfg_Mode cfg = ModeOptAutoServer
               then Some (setServerMode (d, h1))
               else None) of
           None \<Rightarrow> (Inr (Inl (Errorf (''invalid dht mode '' @ cfg_Mode cfg))), h1)
         | Some (d2, h2) \<Rightarrow>
             (case l_Subscribe L (subscribed_kinds cfg) of
                Some err \<Rightarrow> (Inr (Inl (Wrapf ''failed subscribing to event bus'' err)), h2)
              | None \<Rightarrow> (Inr (Inr d2), h2))))))))))))"

section \<open>Other operations\<close>

definition AddAddresses ::
  "('m, 'rt, 'p, 'r, 'ds, 'ks, 'k) libs \<Rightarrow> ('m, 'rt, 'p, 'r, 'ds, 'ks, 'k) node \<times> 'm host
     \<Rightarrow> 'm addr_info list \<Rightarrow> int \<Rightarrow> goerr option \<times> ('m, 'rt, 'p, 'r, 'ds, 'ks, 'k) node \<times> 'm host" where
  "AddAddresses L s ais ttl =
     (case s of (d, h) \<Rightarrow>
        (case l_AddNodes L (t_kad d) (map ai_ID ais) of (e, k) \<Rightarrow>
           (e, d\<lparr>t_kad := k\<rparr>,
            h\<lparr>h_AddAddrs := h_AddAddrs h @ map (\<lambda>ai. (ai_ID ai, ai_Addrs ai, ttl)) ais\<rparr>)))"

definition Bootstrap ::
  "('m, 'rt, 'p, 'r, 'ds, 'ks, 'k) libs \<Rightarrow> ('m, 'rt, 'p, 'r, 'ds, 'ks, 'k) node \<times> 'm host
     \<Rightarrow> goerr option \<times> ('m, 'rt, 'p, 'r, 'ds, 'ks, 'k) node \<times> 'm host" where
  "Bootstrap L s =
     (case s of (d, h) \<Rightarrow> (case l_Bootstrap L (t_kad d) of (e, k) \<Rightarrow> (e, d\<lparr>t_kad := k\<rparr>, h)))"

text \<open>The estimator of the network size is part of the coordinator and only read.\<close>

definition NetworkSize ::
  "('k \<Rightarrow> goerr + 'e) \<Rightarrow> ('m, 'rt, 'p, 'r, 'ds, 'ks, 'k) node \<Rightarrow> goerr + 'e" where
  "NetworkSize kad_NetworkSize d = kad_NetworkSize (t_kad d)"

text \<open>\<open>typedBackend\<close> at the type of provider backends.\<close>

definition typedBackend ::
  "('m, 'rt, 'p, 'r, 'ds, 'ks, 'k) node \<Rightarrow> string \<Rightarrow> goerr + 'p" where
  "typedBackend d ns =
     (case map_of (t_backends d) ns of
        None \<Rightarrow> Inl (Errorf ''backend for namespace not found'')
      | Some (ProvidersB p) \<Rightarrow> Inr p
      | Some (TracedB _ be) \<Rightarrow>
          (case be of ProvidersB p \<Rightarrow> Inr p | _ \<Rightarrow> Inl (Errorf ''traced backend doesn't contain''))
      | Some _ \<Rightarrow> Inl (Errorf ''backend at namespace is no traced backend''))"

text \<open>The type assertion to \<open>io.Closer\<close>.\<close>

fun is_Closer :: "('p, 'r) backend_val \<Rightarrow> bool" where
  "is_Closer (ProvidersB p) = True"
| "is_Closer (RecordB r) = False"
| "is_Closer (UserB c) = c"
| "is_Closer (TracedB ns be) = False"

definition Close ::
  "('m, 'rt, 'p, 'r, 'ds, 'ks, 'k) libs \<Rightarrow> ('m, 'rt, 'p, 'r, 'ds, 'ks, 'k) node \<times> 'm host
     \<Rightarrow> goerr option \<times> ('m, 'rt, 'p, 'r, 'ds, 'ks, 'k) node \<times> 'm host" where
  "Close L s =
     (case s of (d, h) \<Rightarrow>
        if t_stopped d then (None, d, h)
        else
          (let d1 = d\<lparr>t_stopped := True, t_subOpen := False, t_kad := snd (l_kad_Close L (t_kad d)),
                      t_closedBackends := t_closedBackends d @ map fst (filter (is_Closer \<circ> snd) (t_backends d))\<rparr>;
               d2 = (if proto d = ProtocolIPFS \<and> cfg_Datastore (t_cfg d) = None \<and>
                        (\<exists>p. typedBackend d1 namespaceProviders = Inr p)
                     then d1\<lparr>t_datastoreClosed := True\<rparr> else d1)
           in (None, d2,
               h\<lparr>h_Conns := map (map (\<lambda>s. if s_Protocol s \<noteq> proto d then s else s\<lparr>s_Reset := True\<rparr>))
                              (h_Conns h)\<rparr>)))"

end
