(* ===== verification/ConfigProps.thy ===== *)
theory ConfigProps
  imports Config
begin

text \<open>
  What validation accepts, and what the list of bootstrap peers is: one entry per peer, in the order
  in which the peers are first named, with the addresses under which it is named.
\<close>

section \<open>Validation\<close>

text \<open>The configurations a node can run with.\<close>

definition valid_query :: "QueryConfig \<Rightarrow> bool" where
  "valid_query q \<longleftrightarrow> q_Concurrency q > 0 \<and> q_Timeout q > 0 \<and> q_RequestConcurrency q > 0 \<and>
     q_RequestTimeout q > 0 \<and> q_DefaultQuorum q \<ge> 0"

definition valid_config :: "('m, 'rt, 'b, 'ds) Config \<Rightarrow> bool" where
  "valid_config c \<longleftrightarrow>
     cfg_Mode c \<in> {ModeOptClient, ModeOptServer, ModeOptAutoClient, ModeOptAutoServer} \<and>
     (\<exists>q. cfg_Query c = Some q \<and> valid_query q) \<and>
     cfg_BucketSize c \<noteq> 0 \<and> cfg_BootstrapMinimumPopulation c \<ge> 0 \<and>
     cfg_BootstrapPeers c \<noteq> [] \<and> (\<forall>bp \<in> set (cfg_BootstrapPeers c). ai_Addrs bp \<noteq> []) \<and>
     cfg_ProtocolID c \<noteq> [] \<and> cfg_Logger c \<noteq> None \<and> cfg_TimeoutStreamIdle c > 0 \<and>
     (cfg_ProtocolID c = ProtocolIPFS \<longrightarrow>
        fst ` set (cfg_Backends c) \<in> {{}, {namespaceIPNS, namespacePublicKey, namespaceProviders}}) \<and>
     cfg_AddressFilter c \<noteq> None \<and> cfg_MeterProvider c \<noteq> None \<and> cfg_TracerProvider c \<noteq> None"

lemma query_validate_exact: "QueryConfig_Validate q = None \<longleftrightarrow> valid_query q"
  by (auto simp: QueryConfig_Validate_def valid_query_def)

lemma namespaces_distinct: "card {namespaceIPNS, namespacePublicKey, namespaceProviders} = 3"
  by (simp add: namespaceIPNS_def namespacePublicKey_def namespaceProviders_def)

text \<open>Three keys that include three given distinct ones are these.\<close>

lemma three_backends:
  assumes "distinct (map fst bs)"
  shows "(length bs = 3 \<and> map_of bs namespaceIPNS \<noteq> None \<and> map_of bs namespacePublicKey \<noteq> None \<and>
            map_of bs namespaceProviders \<noteq> None) \<longleftrightarrow>
         fst ` set bs = {namespaceIPNS, namespacePublicKey, namespaceProviders}"
proof -
  have len: "length bs = card (fst ` set bs)"
    using distinct_card [OF assms] by simp
  have sub: "(map_of bs namespaceIPNS \<noteq> None \<and> map_of bs namespacePublicKey \<noteq> None \<and>
      map_of bs namespaceProviders \<noteq> None) \<longleftrightarrow>
      {namespaceIPNS, namespacePublicKey, namespaceProviders} \<subseteq> fst ` set bs"
    by (simp add: map_of_eq_None_iff)
  show ?thesis
    unfolding sub len using namespaces_distinct card_seteq [of "fst ` set bs"] by (metis List.finite_set finite_imageI order_refl)
qed

lemma validate_accepts:
  assumes Some: "cfg_Query c = Some q" and dist: "distinct (map fst (cfg_Backends c))"
  shows "Config_Validate c = None \<longleftrightarrow> valid_config c"
proof -
  have three: "fst ` set (cfg_Backends c) = {namespaceIPNS, namespacePublicKey, namespaceProviders} \<longleftrightarrow>
      length (cfg_Backends c) = 3 \<and> map_of (cfg_Backends c) namespaceIPNS \<noteq> None \<and>
      map_of (cfg_Backends c) namespacePublicKey \<noteq> None \<and> map_of (cfg_Backends c) namespaceProviders \<noteq> None"
    using three_backends [OF dist] by blast
  have opt: "(case x of None \<Rightarrow> f | Some e \<Rightarrow> Some (g e)) = None \<longleftrightarrow> x = None \<and> f = None" for x :: "goerr option" and f g
    by (cases x) auto
  have ite: "(if b then Some e else f) = None \<longleftrightarrow> \<not> b \<and> f = None" for b f and e :: goerr by simp
  have ite2: "(if b then f else None) = None \<longleftrightarrow> (b \<longrightarrow> f = None)" for b and f :: "goerr option" by simp
  show "Config_Validate c = None \<longleftrightarrow> valid_config c"
    unfolding valid_config_def Config_Validate_def Some option.case opt ite ite2 insert_iff three query_validate_exact [symmetric]
    by (simp only: list_ex_iff not_less not_le length_0_conv de_Morgan_disj de_Morgan_conj not_not option.inject ex_simps simp_thms image_is_empty set_empty empty_iff length_greater_0_conv) blast
qed

lemma validate_query:
  assumes "Config_Validate c = None"
  shows "cfg_Query c \<noteq> None"
proof
  assume "cfg_Query c = None"
  then have "Config_Validate c \<noteq> None" unfolding Config_Validate_def by simp
  then show False using assms by contradiction
qed

text \<open>Results that are a ConfigurationError if they are an error.\<close>

definition config_err :: "goerr option \<Rightarrow> bool" where
  "config_err r \<longleftrightarrow> (\<forall>e. r = Some e \<longrightarrow> (\<exists>cause. e = ConfigurationError ''Config'' cause))"

lemma config_err_intros:
  "config_err None" "config_err (Some (ConfigurationError ''Config'' x))"
  "config_err f \<Longrightarrow> config_err g \<Longrightarrow> config_err (if b then f else g)"
  "config_err f \<Longrightarrow> (\<And>x. config_err (h x)) \<Longrightarrow> config_err (case y of None \<Rightarrow> f | Some x \<Rightarrow> h x)"
  by (auto simp: config_err_def split: option.split)

lemma config_err_case:
  "config_err f \<Longrightarrow> config_err g \<Longrightarrow> config_err (case f of None \<Rightarrow> g | Some e \<Rightarrow> Some e)"
  by (auto simp: config_err_def split: option.split)

lemma validate_config_err:
  assumes "cfg_Mode c \<in> {ModeOptClient, ModeOptServer, ModeOptAutoClient, ModeOptAutoServer}"
  shows "config_err (Config_Validate c)"
proof -
  have mode: "\<not> \<not> (cfg_Mode c = ModeOptClient \<or> cfg_Mode c = ModeOptServer \<or>
      cfg_Mode c = ModeOptAutoClient \<or> cfg_Mode c = ModeOptAutoServer)"
    using assms by blast
  show ?thesis
    unfolding Config_Validate_def if_not_P [OF mode] by (intro config_err_case config_err_intros)
qed

section \<open>Bootstrap peers\<close>

definition keep_first :: "'a list \<Rightarrow> 'a list" where
  "keep_first xs = rev (remdups (rev xs))"

lemma keep_first_simps [simp]:
  "keep_first [] = []"
  "keep_first (xs @ [x]) = (if x \<in> set xs then keep_first xs else keep_first xs @ [x])"
  "set (keep_first xs) = set xs" "distinct (keep_first xs)"
  by (simp_all add: keep_first_def)

definition merged :: "'m addr_info list \<Rightarrow> 'm addr_info list" where
  "merged infos =
     map (\<lambda>p. \<lparr>ai_ID = p, ai_Addrs = concat (map ai_Addrs (filter (\<lambda>a. ai_ID a = p) infos))\<rparr>)
       (keep_first (map ai_ID infos))"

definition positions :: "(peer_id, nat) gomap \<Rightarrow> peer_id list \<Rightarrow> bool" where
  "positions index ps \<longleftrightarrow> (\<forall>p i. map_of index p = Some i \<longleftrightarrow> i < length ps \<and> ps ! i = p)"

lemma length_merged [simp]: "length (merged infos) = length (keep_first (map ai_ID infos))"
  by (simp add: merged_def)

lemma merged_known:
  assumes "i < length (keep_first (map ai_ID infos))" "keep_first (map ai_ID infos) ! i = ai_ID a"
  shows "(merged infos)[i := (merged infos ! i)\<lparr>ai_Addrs := ai_Addrs (merged infos ! i) @ ai_Addrs a\<rparr>] =
         merged (infos @ [a])"
proof -
  let ?ks = "keep_first (map ai_ID infos)"
  have mem: "ai_ID a \<in> set (map ai_ID infos)" using assms nth_mem by (metis keep_first_simps(3))
  show ?thesis
  proof (rule nth_equalityI)
    show "length ((merged infos)[i := (merged infos ! i)\<lparr>ai_Addrs := ai_Addrs (merged infos ! i) @ ai_Addrs a\<rparr>]) =
        length (merged (infos @ [a]))"
      using mem by (simp add: merged_def)
    fix j assume "j < length ((merged infos)[i := (merged infos ! i)\<lparr>ai_Addrs := ai_Addrs (merged infos ! i) @ ai_Addrs a\<rparr>])"
    then have j: "j < length ?ks" by (simp add: merged_def)
    have "?ks ! j = ai_ID a \<longleftrightarrow> j = i"
      using nth_eq_iff_index_eq [of ?ks j i] assms j by simp
    then show "(merged infos)[i := (merged infos ! i)\<lparr>ai_Addrs := ai_Addrs (merged infos ! i) @ ai_Addrs a\<rparr>] ! j =
        merged (infos @ [a]) ! j"
      using j mem assms by (auto simp: merged_def nth_list_update)
  qed
qed

lemma merged_new:
  assumes "ai_ID a \<notin> ai_ID ` set infos"
  shows "merged infos @ [a] = merged (infos @ [a])"
proof -
  have "filter (\<lambda>b. ai_ID b = ai_ID a) infos = []"
    using assms by (metis (mono_tags, lifting) filter_False image_eqI)
  moreover have "concat (map ai_Addrs (filter (\<lambda>b. ai_ID b = p) (infos @ [a]))) =
      concat (map ai_Addrs (filter (\<lambda>b. ai_ID b = p) infos))" if "p \<in> ai_ID ` set infos" for p
    using assms that by auto
  ultimately show ?thesis using assms by (simp add: merged_def)
qed

lemma positions_new:
  assumes "positions index ps" "p \<notin> set ps"
  shows "positions (AList.update p (length ps) index) (ps @ [p])"
  using assms unfolding positions_def
  by (auto simp: nth_append less_Suc_eq split: if_splits)

lemma init_loop_merged:
  assumes "\<forall>s \<in> set ss. \<exists>a. parse s = Inr a"
    and "positions index (keep_first (map ai_ID infos))"
  shows "init_loop parse ss index (merged infos) = Inr (merged (infos @ map (projr \<circ> parse) ss))"
  using assms
proof (induction ss arbitrary: index infos)
  case (Cons s ss)
  then obtain a where a: "parse s = Inr a" by auto
  let ?ks = "keep_first (map ai_ID infos)"
  show ?case
  proof (cases "map_of index (ai_ID a)")
    case None
    then have new: "ai_ID a \<notin> set ?ks"
      using Cons.prems(2) unfolding positions_def by (metis in_set_conv_nth option.distinct(1))
    then have "positions (AList.update (ai_ID a) (length ?ks) index) (keep_first (map ai_ID (infos @ [a])))"
      using positions_new [OF Cons.prems(2) new] by simp
    then show ?thesis
      using Cons.IH [of _ "infos @ [a]"] Cons.prems(1) None new merged_new [of a infos] a
      by simp
  next
    case (Some i)
    then have i: "i < length ?ks" "?ks ! i = ai_ID a" using Cons.prems(2) unfolding positions_def by auto
    then have "ai_ID a \<in> set (map ai_ID infos)" using nth_mem by (metis keep_first_simps(3))
    then have "positions index (keep_first (map ai_ID (infos @ [a])))" using Cons.prems(2) by simp
    then show ?thesis
      using Cons.IH [of _ "infos @ [a]"] Cons.prems(1) Some merged_known [OF i] a by simp
  qed
qed simp

lemma distinct_merged: "distinct (map ai_ID (merged infos))"
  by (simp add: merged_def comp_def)

lemma merged_Nil: "merged infos = [] \<longleftrightarrow> infos = []"
  by (simp add: merged_def keep_first_def)

lemma merged_addrs:
  assumes "\<forall>a \<in> set infos. ai_Addrs a \<noteq> []"
  shows "\<forall>bp \<in> set (merged infos). ai_Addrs bp \<noteq> []"
  using assms by (fastforce simp: merged_def)

text \<open>Parsing for the examples: the peer is what follows the last slash.\<close>

definition demo_parse :: "string \<Rightarrow> goerr + string addr_info" where
  "demo_parse s = Inr \<lparr>ai_ID = rev (takeWhile (\<lambda>c. c \<noteq> CHR ''/'') (rev s)), ai_Addrs = [s]\<rparr>"

text \<open>An accepted configuration has an address filter.\<close>

lemma validate_filter: "Config_Validate c = None \<Longrightarrow> cfg_AddressFilter c \<noteq> None"
  by (auto simp: Config_Validate_def split: option.splits if_splits)

section \<open>Properties\<close>

text \<open>
  Validation accepts exactly the configurations that a node can run with; in particular a node
  of the IPFS network has no backends of its own or exactly those for ipns, pk and providers. An
  error other than that of the mode is a ConfigurationError.
\<close>
lemma config_validate_exact:
  assumes "distinct (map fst (cfg_Backends c))"
  shows "(Config_Validate c = None \<longleftrightarrow> valid_config c) \<and>
         (\<forall>e. Config_Validate c = Some e \<longrightarrow>
            cfg_Mode c \<notin> {ModeOptClient, ModeOptServer, ModeOptAutoClient, ModeOptAutoServer} \<or>
            (\<exists>cause. e = ConfigurationError ''Config'' cause))"
proof (cases "cfg_Query c")
  case None
  then have "Config_Validate c = None \<longleftrightarrow> valid_config c"
    by (simp add: Config_Validate_def valid_config_def)
  then show ?thesis using validate_config_err [of c] unfolding config_err_def by blast
next
  case (Some q)
  show ?thesis
    using validate_accepts [OF Some assms] validate_config_err [of c] unfolding config_err_def by blast
qed

lemma config_validate_exact_witness:
  "Config_Validate ((DefaultConfig (\<lambda>m. True) [] :: (string, nat, nat, nat) Config)
      \<lparr>cfg_BootstrapPeers := [\<lparr>ai_ID = ''p'', ai_Addrs = [''a'']\<rparr>], cfg_Backends := [(namespaceIPNS, 1)]\<rparr>) \<noteq> None"
proof -
  let ?c = "(DefaultConfig (\<lambda>m. True) [] :: (string, nat, nat, nat) Config)
      \<lparr>cfg_BootstrapPeers := [\<lparr>ai_ID = ''p'', ai_Addrs = [''a'']\<rparr>], cfg_Backends := [(namespaceIPNS, 1)]\<rparr>"
  have "distinct (map fst (cfg_Backends ?c))" by simp
  from config_validate_exact [OF this] show ?thesis
    by (simp add: valid_config_def DefaultConfig_def doubleton_eq_iff namespaceIPNS_def namespacePublicKey_def
        namespaceProviders_def)
qed

text \<open>
  Where the addresses of the default bootstrap peers parse, the package starts without a panic;
  the list names each peer once, in the order in which the addresses first name it, with all
  of its addresses, and the default configuration with it passes validation.
\<close>
lemma bootstrap_merged:
  assumes "\<forall>s \<in> set bootstrap_strings. \<exists>a. parse s = Inr a \<and> ai_Addrs a \<noteq> []"
  shows "\<exists>peers. init_bootstrap parse = Inr peers \<and>
           peers = merged (map (projr \<circ> parse) bootstrap_strings) \<and> distinct (map ai_ID peers) \<and>
           Config_Validate (DefaultConfig IsPublicAddr peers :: ('m, 'rt, 'b, 'ds) Config) = None"
proof -
  let ?infos = "map (projr \<circ> parse) bootstrap_strings"
  let ?c = "DefaultConfig IsPublicAddr (merged ?infos) :: ('m, 'rt, 'b, 'ds) Config"
  have "init_bootstrap parse = Inr (merged ?infos)"
    using init_loop_merged [of bootstrap_strings parse "[]" "[]"] assms
    by (fastforce simp: init_bootstrap_def merged_def positions_def)
  moreover have "distinct (map ai_ID (merged ?infos))" by (rule distinct_merged)
  moreover have "\<forall>a \<in> set ?infos. ai_Addrs a \<noteq> []" using assms by auto
  then have "\<forall>bp \<in> set (merged ?infos). ai_Addrs bp \<noteq> []" by (rule merged_addrs)
  moreover have "bootstrap_strings \<noteq> []" by (simp add: bootstrap_strings_def)
  then have "merged ?infos \<noteq> []" by (simp add: merged_Nil)
  ultimately have "valid_config ?c \<and> init_bootstrap parse = Inr (merged ?infos) \<and> distinct (map ai_ID (merged ?infos))"
    by (simp add: valid_config_def DefaultConfig_def DefaultBootstrapPeers_def DefaultQueryConfig_def
        valid_query_def time_Hour_def time_Minute_def ProtocolIPFS_def)
  then show ?thesis
    using validate_accepts [of ?c DefaultQueryConfig] by (simp add: DefaultConfig_def)
qed

lemma bootstrap_merged_witness:
  "\<exists>peers. init_bootstrap demo_parse = Inr peers \<and> length peers = 6 \<and> length (ai_Addrs (peers ! 5)) = 2"
proof -
  have "\<forall>s \<in> set bootstrap_strings. \<exists>a. demo_parse s = Inr a \<and> ai_Addrs a \<noteq> []"
    by (simp add: demo_parse_def)
  from bootstrap_merged [OF this] obtain peers where
    "init_bootstrap demo_parse = Inr peers" "peers = merged (map (projr \<circ> demo_parse) bootstrap_strings)"
    by blast
  moreover have "length (merged (map (projr \<circ> demo_parse) bootstrap_strings)) = 6 \<and>
      length (ai_Addrs (merged (map (projr \<circ> demo_parse) bootstrap_strings) ! 5)) = 2"
    by code_simp
  ultimately show ?thesis by blast
qed

end
