(* ===== verification/LifecycleProps.thy ===== *)
theory LifecycleProps
  imports Lifecycle ConfigProps
begin

text \<open>
  What holds of a node as it runs: the steps it and its host can take, the invariant that ties the
  mode to the stream handler and to the streams, the mode as a function of the reachability events,
  and what closing leaves behind.
\<close>

section \<open>Steps\<close>

text \<open>
  A node and its host: an event that was subscribed to is consumed, a peer opens a stream to a
  protocol with a handler, the node opens a stream, streams end, a connection is made, another
  part of the process adds or removes handlers of other protocols, addresses are added, the node is
  closed.
\<close>

inductive node_step ::
  "('m, 'rt, 'p, 'r, 'ds, 'ks, 'k) libs \<Rightarrow> ('m, 'rt, 'p, 'r, 'ds, 'ks, 'k) node \<times> 'm host
     \<Rightarrow> ('m, 'rt, 'p, 'r, 'ds, 'ks, 'k) node \<times> 'm host \<Rightarrow> bool"
  for L :: "('m, 'rt, 'p, 'r, 'ds, 'ks, 'k) libs" where
  event: "t_subOpen d \<Longrightarrow> kind_of evt \<in> set (t_subscribed d) \<Longrightarrow>
            node_step L (d, h) (consume_event L evt (d, h))"
| inbound: "p \<in> set (h_Handlers h) \<Longrightarrow> i < length (h_Conns h) \<Longrightarrow> dir \<noteq> DirOutbound \<Longrightarrow>
            node_step L (d, h) (d, h\<lparr>h_Conns := (h_Conns h)[i :=
              \<lparr>s_Protocol = p, s_Direction = dir, s_Reset = False\<rparr> # h_Conns h ! i]\<rparr>)"
| outbound: "i < length (h_Conns h) \<Longrightarrow>
            node_step L (d, h) (d, h\<lparr>h_Conns := (h_Conns h)[i :=
              \<lparr>s_Protocol = p, s_Direction = DirOutbound, s_Reset = False\<rparr> # h_Conns h ! i]\<rparr>)"
| ended: "node_step L (d, h) (d, h\<lparr>h_Conns := map (filter P) (h_Conns h)\<rparr>)"
| connected: "node_step L (d, h) (d, h\<lparr>h_Conns := h_Conns h @ [[]]\<rparr>)"
| other: "proto d \<in> set hs \<longleftrightarrow> proto d \<in> set (h_Handlers h) \<Longrightarrow>
            node_step L (d, h) (d, h\<lparr>h_Handlers := hs\<rparr>)"
| addresses: "AddAddresses L (d, h) ais ttl = (e, s) \<Longrightarrow> node_step L (d, h) s"
| bootstrap: "Bootstrap L (d, h) = (e, s) \<Longrightarrow> node_step L (d, h) s"
| closing: "Close L (d, h) = (e, s) \<Longrightarrow> node_step L (d, h) s"

inductive_cases node_stepE: "node_step L (d, h) s"

abbreviation runs_to where "runs_to L \<equiv> (node_step L)\<^sup>*\<^sup>*"

section \<open>The invariant\<close>

definition serves :: "('m, 'rt, 'p, 'r, 'ds, 'ks, 'k) node \<times> 'm host \<Rightarrow> bool" where
  "serves s \<longleftrightarrow> proto (fst s) \<in> set (h_Handlers (snd s))"

definition inbound_dead :: "string \<Rightarrow> lstream list list \<Rightarrow> bool" where
  "inbound_dead p conns \<longleftrightarrow>
     (\<forall>c \<in> set conns. \<forall>s \<in> set c. s_Protocol s = p \<and> s_Direction s \<noteq> DirOutbound \<longrightarrow> s_Reset s)"

text \<open>The modes that a configuration allows.\<close>

definition allowed_modes :: "string \<Rightarrow> string set" where
  "allowed_modes m =
     (if m = ModeOptClient then {modeClient} else if m = ModeOptServer then {modeServer}
      else {modeClient, modeServer})"

definition mode_inv ::
  "('m, 'rt, ('p, 'r) backend_val, 'ds) Config \<Rightarrow> ('m, 'rt, 'p, 'r, 'ds, 'ks, 'k) node \<times> 'm host \<Rightarrow> bool" where
  "mode_inv cfg s \<longleftrightarrow>
     t_cfg (fst s) = cfg \<and> t_subscribed (fst s) = subscribed_kinds cfg \<and>
     t_mode (fst s) \<in> allowed_modes (cfg_Mode cfg) \<and>
     (serves s \<longleftrightarrow> t_mode (fst s) = modeServer) \<and>
     (t_mode (fst s) = modeClient \<longrightarrow> inbound_dead (cfg_ProtocolID cfg) (h_Conns (snd s)))"

lemma reset_inbound_sel:
  "s_Protocol (reset_inbound p s) = p \<Longrightarrow> s_Direction (reset_inbound p s) \<noteq> DirOutbound \<Longrightarrow>
     s_Reset (reset_inbound p s)"
  by (cases "s_Direction s") (simp_all add: reset_inbound_def split: if_splits)

lemma reset_inbound_dead: "inbound_dead p (map (map (reset_inbound p)) conns)"
  using reset_inbound_sel [of p] by (simp add: inbound_dead_def)

lemma client_mode_inv:
  assumes "t_cfg d = cfg" "t_subscribed d = subscribed_kinds cfg" "modeClient \<in> allowed_modes (cfg_Mode cfg)"
  shows "mode_inv cfg (setClientMode (d, h))"
  unfolding mode_inv_def setClientMode_def serves_def using assms reset_inbound_dead by auto

lemma server_mode_inv:
  assumes "t_cfg d = cfg" "t_subscribed d = subscribed_kinds cfg" "modeServer \<in> allowed_modes (cfg_Mode cfg)"
  shows "mode_inv cfg (setServerMode (d, h))"
  unfolding mode_inv_def setServerMode_def serves_def using assms by auto

lemmas set_mode_inv = client_mode_inv server_mode_inv

lemma inbound_dead_cons:
  assumes "inbound_dead p conns" "i < length conns"
    and "s_Protocol s = p \<Longrightarrow> s_Direction s \<noteq> DirOutbound \<Longrightarrow> s_Reset s"
  shows "inbound_dead p (conns[i := s # conns ! i])"
proof -
  have "\<forall>x \<in> set c. s_Protocol x = p \<and> s_Direction x \<noteq> DirOutbound \<longrightarrow> s_Reset x"
    if "c \<in> set (conns[i := s # conns ! i])" for c
  proof -
    have "c = s # conns ! i \<or> c \<in> set conns"
      using that set_update_subset_insert [of conns i "s # conns ! i"] by blast
    moreover have "\<forall>x \<in> set (conns ! i). s_Protocol x = p \<and> s_Direction x \<noteq> DirOutbound \<longrightarrow> s_Reset x"
      using assms(1) nth_mem [OF assms(2)] unfolding inbound_dead_def by blast
    ultimately show ?thesis using assms(1,3) unfolding inbound_dead_def by fastforce
  qed
  then show ?thesis unfolding inbound_dead_def by blast
qed

lemma auto_modes:
  "LocalReachabilityChanged \<in> set (subscribed_kinds cfg) \<Longrightarrow>
     modeClient \<in> allowed_modes (cfg_Mode cfg) \<and> modeServer \<in> allowed_modes (cfg_Mode cfg)"
  by (auto simp: subscribed_kinds_def allowed_modes_def ModeOpt_defs split: if_splits)

lemma event_inv:
  assumes "mode_inv cfg (d, h)" "kind_of evt \<in> set (t_subscribed d)"
  shows "mode_inv cfg (consume_event L evt (d, h))"
proof (cases evt)
  case (EvtLocalReachabilityChanged r)
  then have "LocalReachabilityChanged \<in> set (subscribed_kinds cfg)"
    using assms by (simp add: mode_inv_def)
  moreover have d: "t_cfg d = cfg" "t_subscribed d = subscribed_kinds cfg"
    using assms(1) by (simp_all add: mode_inv_def)
  ultimately show ?thesis
    using set_mode_inv [OF d, of h] auto_modes [of cfg] assms(1)
    by (cases r) (simp_all add: EvtLocalReachabilityChanged consume_event_def onEvtLocalReachabilityChanged_def)
next
  case (EvtPeerIdentificationCompleted p)
  then show ?thesis
    using assms(1)
    by (auto simp: consume_event_def onEvtPeerIdentificationCompleted_def mode_inv_def serves_def)
qed (use assms(1) in \<open>simp_all add: consume_event_def\<close>)

text \<open>Steps that leave the mode and the handler alone.\<close>

lemma mode_inv_same:
  assumes "mode_inv cfg (d, h)"
    and "t_cfg d' = t_cfg d" "t_subscribed d' = t_subscribed d" "t_mode d' = t_mode d" "h_Handlers h' = h_Handlers h"
    and "t_mode d = modeClient \<Longrightarrow> inbound_dead (cfg_ProtocolID cfg) (h_Conns h')"
  shows "mode_inv cfg (d', h')"
  using assms by (auto simp: mode_inv_def serves_def)

lemma inbound_dead_filter: "inbound_dead p conns \<Longrightarrow> inbound_dead p (map (filter P) conns)"
  by (simp add: inbound_dead_def)

lemma inbound_dead_new: "inbound_dead p conns \<Longrightarrow> inbound_dead p (conns @ [[]])"
  by (auto simp: inbound_dead_def)

lemma AddAddresses_inv:
  assumes "AddAddresses L (d, h) ais ttl = (e, d', h')" "mode_inv cfg (d, h)"
  shows "mode_inv cfg (d', h')"
proof (rule mode_inv_same [OF assms(2)])
  show "t_cfg d' = t_cfg d" "t_subscribed d' = t_subscribed d" "t_mode d' = t_mode d" "h_Handlers h' = h_Handlers h"
    using assms(1) by (auto simp: AddAddresses_def split: prod.splits)
  have "h_Conns h' = h_Conns h" using assms(1) by (auto simp: AddAddresses_def split: prod.splits)
  then show "t_mode d = modeClient \<Longrightarrow> inbound_dead (cfg_ProtocolID cfg) (h_Conns h')"
    using assms(2) by (simp add: mode_inv_def)
qed

text \<open>What \<open>Close\<close> does to the streams.\<close>

definition reset_stream :: "string \<Rightarrow> lstream \<Rightarrow> lstream" where
  "reset_stream p s = (if s_Protocol s \<noteq> p then s else s\<lparr>s_Reset := True\<rparr>)"

definition reset_all :: "string \<Rightarrow> lstream list list \<Rightarrow> lstream list list" where
  "reset_all p conns = map (map (reset_stream p)) conns"

lemma reset_stream_sel: "s_Protocol (reset_stream p s) = p \<Longrightarrow> s_Reset (reset_stream p s)"
  by (simp add: reset_stream_def split: if_splits)

lemma reset_all_dead: "\<forall>c \<in> set (reset_all p conns). \<forall>s \<in> set c. s_Protocol s = p \<longrightarrow> s_Reset s"
  using reset_stream_sel [of p] by (simp add: reset_all_def)

lemma Close_effect:
  assumes "Close L (d, h) = (e, d', h')"
  shows "e = None" "t_stopped d'" "t_cfg d' = t_cfg d" "t_subscribed d' = t_subscribed d" "t_mode d' = t_mode d"
    "t_backends d' = t_backends d" "h_Handlers h' = h_Handlers h"
    "h_Conns h' = (if t_stopped d then h_Conns h else reset_all (proto d) (h_Conns h))"
    "t_stopped d \<Longrightarrow> d' = d"  "\<not> t_stopped d \<Longrightarrow> \<not> t_subOpen d'"
    "\<not> t_stopped d \<Longrightarrow>
       t_closedBackends d' = t_closedBackends d @ map fst (filter (is_Closer \<circ> snd) (t_backends d))"
  using assms by (auto simp: Close_def Let_def reset_all_def reset_stream_def [abs_def] split: if_splits)

lemma Close_inv:
  assumes "Close L (d, h) = (e, d', h')" "mode_inv cfg (d, h)"
  shows "mode_inv cfg (d', h')"
proof (rule mode_inv_same [OF assms(2) Close_effect(3-5,7) [OF assms(1)]])
  assume "t_mode d = modeClient"
  then show "inbound_dead (cfg_ProtocolID cfg) (h_Conns h')"
    using assms(2) reset_all_dead [of "proto d" "h_Conns h"] Close_effect(8) [OF assms(1)]
    by (auto simp: mode_inv_def inbound_dead_def)
qed

lemma node_step_inv:
  assumes "node_step L s s'" "mode_inv cfg s"
  shows "mode_inv cfg s'"
  using assms
proof (induction rule: node_step.induct)
  case (event d evt h)
  then show ?case using event_inv by blast
next
  case (inbound p h i dir d)
  let ?new = "\<lparr>s_Protocol = p, s_Direction = dir, s_Reset = False\<rparr>"
  have "inbound_dead (cfg_ProtocolID cfg) ((h_Conns h)[i := ?new # h_Conns h ! i])" if "t_mode d = modeClient"
  proof (rule inbound_dead_cons)
    show "inbound_dead (cfg_ProtocolID cfg) (h_Conns h)" using inbound(4) that by (simp add: mode_inv_def)
    have "p \<noteq> cfg_ProtocolID cfg" using inbound(1,4) that by (auto simp: mode_inv_def serves_def)
    then show "s_Protocol ?new = cfg_ProtocolID cfg \<Longrightarrow> s_Reset ?new" by simp
  qed (rule inbound(2))
  then show ?case by (intro mode_inv_same [OF inbound(4)]) simp_all
next
  case (outbound i h d p)
  let ?new = "\<lparr>s_Protocol = p, s_Direction = DirOutbound, s_Reset = False\<rparr>"
  have "inbound_dead (cfg_ProtocolID cfg) ((h_Conns h)[i := ?new # h_Conns h ! i])" if "t_mode d = modeClient"
  proof (rule inbound_dead_cons)
    show "inbound_dead (cfg_ProtocolID cfg) (h_Conns h)" using outbound(2) that by (simp add: mode_inv_def)
  qed (use outbound(1) in simp_all)
  then show ?case by (intro mode_inv_same [OF outbound(2)]) simp_all
next
  case (ended d h P)
  then show ?case by (intro mode_inv_same [OF ended]) (simp_all add: mode_inv_def inbound_dead_filter)
next
  case (connected d h)
  then show ?case by (intro mode_inv_same [OF connected]) (simp_all add: mode_inv_def inbound_dead_new)
next
  case (other d hs h)
  then show ?case by (auto simp: mode_inv_def serves_def)
next
  case (addresses d h ais ttl e s)
  then show ?case using AddAddresses_inv [of L d h ais ttl e "fst s" "snd s"] by simp
next
  case (bootstrap d h e s)
  then show ?case by (auto simp: Bootstrap_def mode_inv_def serves_def split: prod.splits)
next
  case (closing d h e s)
  then show ?case using Close_inv [of L d h e "fst s" "snd s"] by simp
qed

lemma runs_to_inv: "runs_to L s s' \<Longrightarrow> mode_inv cfg s \<Longrightarrow> mode_inv cfg s'"
  by (induction rule: rtranclp_induct) (auto intro: node_step_inv)

section \<open>Construction\<close>

lemma start_inv:
  assumes "cfg_Mode cfg \<in> {ModeOptClient, ModeOptServer, ModeOptAutoClient, ModeOptAutoServer}"
    and "t_cfg d = cfg" "t_subscribed d = subscribed_kinds cfg"
    and "s = (if cfg_Mode cfg = ModeOptClient \<or> cfg_Mode cfg = ModeOptAutoClient
              then setClientMode (d, h) else setServerMode (d, h))"
  shows "mode_inv cfg s"
  using set_mode_inv [OF assms(2,3), of h] assms(1,4)
  by (auto simp: allowed_modes_def ModeOpt_defs)

text \<open>The fields that starting a mode leaves alone.\<close>

lemma set_mode_keeps [simp]:
  "fst (setClientMode (d, h)) = d\<lparr>t_mode := modeClient\<rparr>"
  "fst (setServerMode (d, h)) = d\<lparr>t_mode := modeServer\<rparr>"
  by (simp_all add: setClientMode_def setServerMode_def)

text \<open>The configuration that \<open>New\<close> works with.\<close>

definition used_config ::
  "('m, 'rt, 'p, 'r, 'ds, 'ks, 'k) libs \<Rightarrow> ('m, 'rt, ('p, 'r) backend_val, 'ds) Config option
     \<Rightarrow> ('m, 'rt, ('p, 'r) backend_val, 'ds) Config" where
  "used_config L cfg0 = (case cfg0 of None \<Rightarrow> l_DefaultConfig L | Some c \<Rightarrow> c)"

text \<open>What a node is like that \<open>New\<close> returns.\<close>

lemma New_node:
  assumes "New L h cfg0 = (Inr (Inr d), h1)"
  shows "mode_inv (used_config L cfg0) (d, h1)" and "\<not> t_stopped d" "t_subOpen d"
    and "t_closedBackends d = []" "\<not> t_datastoreClosed d"
    and "t_mode d = (if cfg_Mode (used_config L cfg0) \<in> {ModeOptClient, ModeOptAutoClient}
                     then modeClient else modeServer)"
    and "\<exists>bs ds. New_backends L (used_config L cfg0) = Inr (bs, ds) \<and>
           t_backends d = map (\<lambda>(ns, be). (ns, TracedB ns be)) bs"
    and "cfg0 = Some c \<Longrightarrow> Config_Validate c = None"
    and "\<exists>bs ds. New_backends L (used_config L cfg0) = Inr (bs, ds) \<and> New_keystore L ds = Inr (t_provideKeys d)"
proof -
  let ?cfg = "used_config L cfg0"
  obtain bs datastore k rt ks ids h0 where
    parts: "New_backends L ?cfg = Inr (bs, datastore)" "New_keystore L datastore = Inr ks" and
    valid: "cfg0 = Some c \<Longrightarrow> Config_Validate c = None" and
    start: "(if cfg_Mode ?cfg = ModeOptClient \<or> cfg_Mode ?cfg = ModeOptAutoClient
        then Some (setClientMode (\<lparr>t_cfg = ?cfg, t_mode = [], t_kad = k, t_rt = rt,
               t_backends = map (\<lambda>(ns, be). (ns, TracedB ns be)) bs, t_provideKeys = ks,
               t_subscribed = subscribed_kinds ?cfg, t_subOpen = True, t_stopped = False,
               t_closedBackends = [], t_datastoreClosed = False\<rparr>, h0))
        else if cfg_Mode ?cfg = ModeOptServer \<or> cfg_Mode ?cfg = ModeOptAutoServer
        then Some (setServerMode (\<lparr>t_cfg = ?cfg, t_mode = [], t_kad = k, t_rt = rt,
               t_backends = map (\<lambda>(ns, be). (ns, TracedB ns be)) bs, t_provideKeys = ks,
               t_subscribed = subscribed_kinds ?cfg, t_subOpen = True, t_stopped = False,
               t_closedBackends = [], t_datastoreClosed = False\<rparr>, h0))
        else None) = Some (d, h1)"
  proof -
    show ?thesis
      using assms that
      unfolding New_def used_config_def Let_def
      by (auto split: option.splits sum.splits prod.splits if_splits) blast+
  qed
  show "cfg0 = Some c \<Longrightarrow> Config_Validate c = None" by (rule valid)
  let ?d = "\<lparr>t_cfg = ?cfg, t_mode = [], t_kad = k, t_rt = rt,
               t_backends = map (\<lambda>(ns, be). (ns, TracedB ns be)) bs, t_provideKeys = ks,
               t_subscribed = subscribed_kinds ?cfg, t_subOpen = True, t_stopped = False,
               t_closedBackends = [], t_datastoreClosed = False\<rparr>"
  have mode: "cfg_Mode ?cfg \<in> {ModeOptClient, ModeOptServer, ModeOptAutoClient, ModeOptAutoServer}"
    using start by (auto split: if_splits)
  have s: "(d, h1) = (if cfg_Mode ?cfg = ModeOptClient \<or> cfg_Mode ?cfg = ModeOptAutoClient
              then setClientMode (?d, h0) else setServerMode (?d, h0))"
    using start by (auto split: if_splits)
  show "mode_inv ?cfg (d, h1)" using start_inv [OF mode _ _ s] by simp
  have d: "d = ?d\<lparr>t_mode := if cfg_Mode ?cfg \<in> {ModeOptClient, ModeOptAutoClient} then modeClient else modeServer\<rparr>"
    using arg_cong [OF s, of fst] by simp
  show "\<not> t_stopped d" "t_subOpen d" "t_closedBackends d = []" "\<not> t_datastoreClosed d"
    "t_mode d = (if cfg_Mode ?cfg \<in> {ModeOptClient, ModeOptAutoClient} then modeClient else modeServer)"
    by (simp_all add: d)
  show "\<exists>bs ds. New_backends L ?cfg = Inr (bs, ds) \<and> t_backends d = map (\<lambda>(ns, be). (ns, TracedB ns be)) bs"
    using parts by (simp add: d)
  show "\<exists>bs ds. New_backends L ?cfg = Inr (bs, ds) \<and> New_keystore L ds = Inr (t_provideKeys d)"
    using parts by (simp add: d)
qed

lemma New_backends_IPFS:
  assumes "valid_config cfg" "New_backends L cfg = Inr (bs, ds)" "cfg_ProtocolID cfg = ProtocolIPFS"
  shows "fst ` set bs = {namespaceIPNS, namespacePublicKey, namespaceProviders}"
  using assms by (auto simp: New_backends_def valid_config_def split: if_splits sum.splits)

text \<open>The results of \<open>New\<close>: a node, or the error of something it called.\<close>

definition component_result :: "(goerr + 'd) may_panic \<times> 'h \<Rightarrow> bool" where
  "component_result r \<longleftrightarrow> (\<exists>x. fst r = Inr x \<and> (\<forall>e. x = Inl e \<longrightarrow> (\<exists>m cause. e = Wrapf m cause)))"

lemma component_result_intros:
  "component_result (Inr (Inl (Wrapf m cause)), h)" "component_result (Inr (Inr d), h)"
  "(\<And>e. y = Inl e \<Longrightarrow> component_result (f e)) \<Longrightarrow> (\<And>x. y = Inr x \<Longrightarrow> component_result (g x)) \<Longrightarrow>
     component_result (case y of Inl e \<Rightarrow> f e | Inr x \<Rightarrow> g x)"
  "component_result f' \<Longrightarrow> (\<And>x. component_result (g' x)) \<Longrightarrow>
     component_result (case z of None \<Rightarrow> f' | Some x \<Rightarrow> g' x)"
  "(\<And>a b. component_result (k a b)) \<Longrightarrow> component_result (case p of (a, b) \<Rightarrow> k a b)"
  by (auto simp: component_result_def split: sum.split option.split prod.split)

lemma backends_keystore_errors:
  "New_backends L cfg = Inl e \<Longrightarrow> component_result (Inr (Inl e), h)"
  "New_keystore L datastore = Inl e \<Longrightarrow> component_result (Inr (Inl e), h)"
  by (auto simp: component_result_def New_backends_def New_keystore_def split: if_splits sum.splits option.splits)

lemma New_component_result:
  assumes "valid_config cfg" "Config_Validate cfg = None"
  shows "component_result (New L h (Some cfg))"
proof -
  obtain q where q: "cfg_Query cfg = Some q" using assms(1) by (auto simp: valid_config_def)
  have mode: "(if cfg_Mode cfg = ModeOptClient \<or> cfg_Mode cfg = ModeOptAutoClient then Some a
      else if cfg_Mode cfg = ModeOptServer \<or> cfg_Mode cfg = ModeOptAutoServer then Some b else None) =
      Some (if cfg_Mode cfg = ModeOptClient \<or> cfg_Mode cfg = ModeOptAutoClient then a else b)" for a b :: 'x
    using assms(1) by (auto simp: valid_config_def)
  show ?thesis
    unfolding New_def Let_def option.case assms(2) sum.case q mode
    by (intro component_result_intros) (erule backends_keystore_errors)+
qed

section \<open>The mode as a function of the events\<close>

text \<open>The mode that a reachability calls for, if it calls for one.\<close>

fun wanted_mode :: "string \<Rightarrow> net_event \<Rightarrow> string option" where
  "wanted_mode m (EvtLocalReachabilityChanged ReachabilityPrivate) = Some modeClient"
| "wanted_mode m (EvtLocalReachabilityChanged ReachabilityPublic) = Some modeServer"
| "wanted_mode m (EvtLocalReachabilityChanged ReachabilityUnknown) =
     (if m = ModeOptAutoClient then Some modeClient
      else if m = ModeOptAutoServer then Some modeServer else None)"
| "wanted_mode m evt = None"

lemma consume_event_mode:
  "t_mode (fst (consume_event L evt s)) =
     (case wanted_mode (cfg_Mode (t_cfg (fst s))) evt of None \<Rightarrow> t_mode (fst s) | Some m \<Rightarrow> m)"
  "t_cfg (fst (consume_event L evt s)) = t_cfg (fst s)"
proof -
  obtain d h where s: "s = (d, h)" by (cases s)
  have "t_mode (fst (consume_event L evt s)) =
       (case wanted_mode (cfg_Mode (t_cfg (fst s))) evt of None \<Rightarrow> t_mode (fst s) | Some m \<Rightarrow> m) \<and>
     t_cfg (fst (consume_event L evt s)) = t_cfg (fst s)"
  proof (cases evt)
    case (EvtLocalReachabilityChanged r)
    then show ?thesis by (cases r) (simp_all add: s consume_event_def onEvtLocalReachabilityChanged_def)
  qed (simp_all add: s consume_event_def onEvtPeerIdentificationCompleted_def)
  then show "t_mode (fst (consume_event L evt s)) =
       (case wanted_mode (cfg_Mode (t_cfg (fst s))) evt of None \<Rightarrow> t_mode (fst s) | Some m \<Rightarrow> m)"
    "t_cfg (fst (consume_event L evt s)) = t_cfg (fst s)" by blast+
qed

lemma last_map_filter_Cons:
  "last (a # List.map_filter f (x # xs)) = last ((case f x of None \<Rightarrow> a | Some b \<Rightarrow> b) # List.map_filter f xs)"
  by (cases "f x") (simp_all add: List.map_filter_def)

lemma consume_events_mode:
  "t_mode (fst (consumeNetworkEvents L evts s)) =
     last (t_mode (fst s) # List.map_filter (wanted_mode (cfg_Mode (t_cfg (fst s)))) evts)"
proof (induction evts arbitrary: s)
  case Nil
  then show ?case by (simp add: List.map_filter_def)
next
  case (Cons evt evts)
  show ?case
    unfolding consumeNetworkEvents.simps Cons.IH consume_event_mode last_map_filter_Cons ..
qed

section \<open>Closing\<close>

definition closes_nothing :: "('m, 'rt, 'p, 'r, 'ds, 'ks, 'k) node \<Rightarrow> bool" where
  "closes_nothing d \<longleftrightarrow> (\<forall>be \<in> snd ` set (t_backends d). \<not> is_Closer be) \<and> t_closedBackends d = []"

lemma New_closes_nothing:
  assumes "New L h cfg0 = (Inr (Inr d), h1)"
  shows "closes_nothing d"
  using New_node(4,7) [OF assms] by (auto simp: closes_nothing_def)

lemma consume_event_keeps:
  "t_backends (fst (consume_event L evt s)) = t_backends (fst s)"
  "t_closedBackends (fst (consume_event L evt s)) = t_closedBackends (fst s)"
proof -
  obtain d h where s: "s = (d, h)" by (cases s)
  have "t_backends (fst (consume_event L evt s)) = t_backends (fst s) \<and>
      t_closedBackends (fst (consume_event L evt s)) = t_closedBackends (fst s)"
  proof (cases evt)
    case (EvtLocalReachabilityChanged r)
    then show ?thesis by (cases r) (simp_all add: s consume_event_def onEvtLocalReachabilityChanged_def)
  qed (simp_all add: s consume_event_def onEvtPeerIdentificationCompleted_def)
  then show "t_backends (fst (consume_event L evt s)) = t_backends (fst s)"
    "t_closedBackends (fst (consume_event L evt s)) = t_closedBackends (fst s)" by blast+
qed

lemma Close_keeps:
  assumes "Close L (d, h) = (e, d', h')" "closes_nothing d"
  shows "closes_nothing d'"
proof -
  have "filter (is_Closer \<circ> snd) (t_backends d) = []"
    using assms(2) by (auto simp: closes_nothing_def filter_empty_conv)
  then show ?thesis
    using assms(2) Close_effect(6,9,11) [OF assms(1)] by (cases "t_stopped d") (simp_all add: closes_nothing_def)
qed

lemma node_step_closes_nothing: "node_step L s s' \<Longrightarrow> closes_nothing (fst s) \<Longrightarrow> closes_nothing (fst s')"
proof (induction rule: node_step.induct)
  case (event d evt h)
  then show ?case by (simp add: closes_nothing_def consume_event_keeps)
next
  case (addresses d h ais ttl e s)
  then show ?case by (auto simp: AddAddresses_def closes_nothing_def split: prod.splits)
next
  case (bootstrap d h e s)
  then show ?case by (auto simp: Bootstrap_def closes_nothing_def split: prod.splits)
next
  case (closing d h e s)
  then show ?case using Close_keeps [of L d h e "fst s" "snd s"] by simp
qed simp_all

lemma runs_to_closes_nothing: "runs_to L s s' \<Longrightarrow> closes_nothing (fst s) \<Longrightarrow> closes_nothing (fst s')"
  by (induction rule: rtranclp_induct) (auto intro: node_step_closes_nothing)

section \<open>A concrete node\<close>

text \<open>The coordinator of the examples is the list of the nodes it was told about.\<close>

type_synonym demo_config = "(nat, nat, (nat, nat) backend_val, nat) Config"

definition demo_libs :: "(nat, nat, nat, nat, nat, nat, peer_id list) libs" where
  "demo_libs =
     \<lparr>l_DefaultConfig = DefaultConfig (\<lambda>m. True) [], l_triert_New = (\<lambda>p. Inr 0), l_meter = (\<lambda>kind name. Inr ()),
      l_gauge = (\<lambda>name. None), l_table = \<lparr>rt_Size = None, rt_CplSize = (\<lambda>rt cpl. 0)\<rparr>,
      l_initAminoBackends = (\<lambda>c. Inr (1, 2, 3, 4)),
      l_newProviderKeystore = (\<lambda>ds. Inr 5),
      l_DefaultCoordinatorConfig = \<lparr>cc_ReplicationFactor = 20, cc_Query_Concurrency = 3, cc_Query_Timeout = 1,
        cc_Query_RequestConcurrency = 3, cc_Query_RequestTimeout = 1, cc_BootstrapPeers = [],
        cc_BootstrapMinimumPopulation = 0, cc_EnableExplore = False, cc_Keystore = False,
        cc_EnableSurvey = False, cc_SurveyInterval = 1\<rparr>,
      l_NewCoordinator = (\<lambda>p rt c. Inr []),
      l_Subscribe = (\<lambda>ks. None), l_AddNodes = (\<lambda>k ps. (None, k @ ps)), l_Bootstrap = (\<lambda>k. (None, k)), l_kad_Close = (\<lambda>k. (None, k))\<rparr>"

definition demo_config :: "string \<Rightarrow> demo_config" where
  "demo_config m =
     (DefaultConfig (\<lambda>m. True) [])\<lparr>cfg_Mode := m, cfg_BootstrapPeers := [\<lparr>ai_ID = ''b'', ai_Addrs = [7]\<rparr>]\<rparr>"

definition demo_host :: "nat host" where
  "demo_host = \<lparr>h_ID = ''self'', h_Handlers = [], h_Conns = [[]], h_AddAddrs = []\<rparr>"

definition demo_start :: "string \<Rightarrow> (nat, nat, nat, nat, nat, nat, peer_id list) node" where
  "demo_start m = projr (projr (fst (New demo_libs demo_host (Some (demo_config m)))))"

lemma demo_valid:
  assumes "m \<in> {ModeOptClient, ModeOptServer, ModeOptAutoClient, ModeOptAutoServer}"
  shows "Config_Validate (demo_config m) = None"
proof -
  have "valid_config (demo_config m)"
    using assms
    by (simp add: valid_config_def demo_config_def DefaultConfig_def valid_query_def DefaultQueryConfig_def
        time_Minute_def time_Hour_def ProtocolIPFS_def)
  then show ?thesis
    using validate_accepts [of "demo_config m"] by (simp add: demo_config_def DefaultConfig_def)
qed

lemma demo_config_sel:
  "cfg_Mode (demo_config m) = m" "cfg_RoutingTable (demo_config m) = None" "cfg_Backends (demo_config m) = []"
  "cfg_ProtocolID (demo_config m) = ProtocolIPFS" "cfg_Query (demo_config m) = Some DefaultQueryConfig"
  by (simp_all add: demo_config_def DefaultConfig_def)

definition demo_telemetry :: "unit Telemetry" where
  "demo_telemetry = \<lparr>tl_ReceivedMessages = (), tl_ReceivedMessageErrors = (), tl_ReceivedBytes = (),
     tl_InboundRequestLatency = (), tl_OutboundRequestLatency = (), tl_SentMessages = (), tl_SentMessageErrors = (),
     tl_SentRequests = (), tl_SentRequestErrors = (), tl_SentBytes = (), tl_LRUCache = ()\<rparr>"

lemma demo_libs_sel:
  "DefaultRoutingTable demo_libs p = Inr 0" "NewTelemetry (l_meter demo_libs) (map_option (\<lambda>_. l_meter demo_libs) mp) = Inr demo_telemetry"
  "fst (registerRoutingTableMetrics (l_gauge demo_libs) (l_table demo_libs)) = None" "l_NewCoordinator demo_libs p rt c = Inr []"
  "New_backends demo_libs (demo_config m) =
     Inr ([(namespaceIPNS, RecordB 2), (namespacePublicKey, RecordB 3), (namespaceProviders, ProvidersB 1)], Some 4)"
  "New_keystore demo_libs (Some ds) = Inr (Some 5)" "l_Subscribe demo_libs ks = None"
  unfolding New_backends_def New_keystore_def DefaultRoutingTable_def demo_config_sel
  by (simp_all add: demo_libs_def NewTelemetry_def registerRoutingTableMetrics_def demo_telemetry_def
      split: option.split)

lemma demo_New:
  assumes "m \<in> {ModeOptClient, ModeOptServer, ModeOptAutoClient, ModeOptAutoServer}"
  shows "\<exists>h1. New demo_libs demo_host (Some (demo_config m)) = (Inr (Inr (demo_start m)), h1)"
proof -
  have "\<exists>d h1. New demo_libs demo_host (Some (demo_config m)) = (Inr (Inr d), h1)"
    using assms
    by (auto simp: New_def demo_valid [OF assms] demo_config_sel demo_libs_sel Let_def split: prod.split)
  then show ?thesis unfolding demo_start_def by fastforce
qed

section \<open>Properties\<close>

text \<open>
  C18: In every state a node can reach after it was created, it has a stream handler for its protocol
  exactly if it is in server mode, and in client mode every stream of the protocol that it did not
  open itself has been reset. A node configured as a client never serves, one configured as a
  server always does.
\<close>
theorem mode_governs_serving:
  assumes "New L h cfg0 = (Inr (Inr d), h1)" and "runs_to L (d, h1) (d', h')"
  shows "(cfg_ProtocolID (t_cfg d') \<in> set (h_Handlers h') \<longleftrightarrow> t_mode d' = modeServer) \<and>
         (t_mode d' = modeClient \<longrightarrow> inbound_dead (cfg_ProtocolID (t_cfg d')) (h_Conns h')) \<and>
         t_mode d' \<in> {modeClient, modeServer} \<and>
         (cfg_Mode (used_config L cfg0) = ModeOptClient \<longrightarrow> t_mode d' = modeClient) \<and>
         (cfg_Mode (used_config L cfg0) = ModeOptServer \<longrightarrow> t_mode d' = modeServer)"
  using runs_to_inv [OF assms(2) New_node(1) [OF assms(1)]]
  by (auto simp: mode_inv_def serves_def allowed_modes_def ModeOpt_defs split: if_splits)

lemma mode_governs_serving_witness:
  "\<exists>h1 s. runs_to demo_libs (demo_start ModeOptClient, h1) s \<and> t_stopped (fst s) \<and>
     t_mode (fst s) = modeClient"
proof -
  obtain h1 where new: "New demo_libs demo_host (Some (demo_config ModeOptClient)) = (Inr (Inr (demo_start ModeOptClient)), h1)"
    using demo_New [of ModeOptClient] by blast
  obtain e d h where c: "Close demo_libs (demo_start ModeOptClient, h1) = (e, d, h)"
    by (cases "Close demo_libs (demo_start ModeOptClient, h1)")
  then have run: "runs_to demo_libs (demo_start ModeOptClient, h1) (d, h)"
    by (intro r_into_rtranclp node_step.closing)
  have "t_stopped d" using c by (auto simp: Close_def Let_def split: if_splits)
  moreover have "used_config demo_libs (Some (demo_config ModeOptClient)) = demo_config ModeOptClient"
    by (simp add: used_config_def)
  ultimately show ?thesis
    using mode_governs_serving [OF new run] run by (auto simp: demo_config_def)
qed

text \<open>
  C35: After any sequence of events an automatic node is in the mode of the last reachability event
  that calls for one (private: client, public: server, unknown: the mode it was configured to start
  in), and in the mode it had if there is none; other events never change it.
\<close>
theorem mode_follows_reachability:
  "t_mode (fst (consumeNetworkEvents L evts (d, h))) =
     last (t_mode d # List.map_filter (wanted_mode (cfg_Mode (t_cfg d))) evts)"
  using consume_events_mode [of L evts "(d, h)"] by simp

text \<open>
  Creating a node with a configuration that passes validation never panics and fails
  only with the error of something it called, never for the mode; a node of the IPFS network has exactly the backends for ipns, pk and providers, and each
  backend of any node is wrapped in tracing.
\<close>
lemma new_total:
  assumes valid: "Config_Validate cfg = None" and dist: "distinct (map fst (cfg_Backends cfg))"
    and res: "New L h (Some cfg) = (res, h1)"
  shows "(\<exists>r. res = Inr r) \<and> (\<forall>e. res = Inr (Inl e) \<longrightarrow> (\<exists>m cause. e = Wrapf m cause)) \<and>
         (\<forall>d. res = Inr (Inr d) \<longrightarrow>
            (cfg_ProtocolID cfg = ProtocolIPFS \<longrightarrow>
               fst ` set (t_backends d) = {namespaceIPNS, namespacePublicKey, namespaceProviders}) \<and>
            (\<forall>(ns, be) \<in> set (t_backends d). \<exists>inner. be = TracedB ns inner))"
proof -
  have "cfg_Query cfg \<noteq> None" by (rule validate_query [OF valid])
  then have ok: "valid_config cfg"
    using validate_accepts [OF _ dist] valid by blast
  have 1: "(\<exists>r. res = Inr r) \<and> (\<forall>e. res = Inr (Inl e) \<longrightarrow> (\<exists>m cause. e = Wrapf m cause))"
    using New_component_result [OF ok valid, of L h] by (auto simp: res component_result_def)
  have 2: "(cfg_ProtocolID cfg = ProtocolIPFS \<longrightarrow>
               fst ` set (t_backends d) = {namespaceIPNS, namespacePublicKey, namespaceProviders}) \<and>
            (\<forall>(ns, be) \<in> set (t_backends d). \<exists>inner. be = TracedB ns inner)"
    if "res = Inr (Inr d)" for d
  proof -
    have "New L h (Some cfg) = (Inr (Inr d), h1)" using res that by simp
    from New_node(7) [OF this] obtain bs ds where bs: "New_backends L cfg = Inr (bs, ds)"
      "t_backends d = map (\<lambda>(ns, be). (ns, TracedB ns be)) bs"
      by (auto simp: used_config_def)
    have "fst ` set (t_backends d) = fst ` set bs" by (force simp: bs(2))
    moreover have "cfg_ProtocolID cfg = ProtocolIPFS \<longrightarrow>
        fst ` set bs = {namespaceIPNS, namespacePublicKey, namespaceProviders}"
      using New_backends_IPFS [OF ok bs(1)] by blast
    ultimately show ?thesis by (auto simp: bs(2))
  qed
  show ?thesis using 1 2 by blast
qed

lemma new_total_witness:
  "\<exists>d h1. New demo_libs demo_host (Some (demo_config ModeOptAutoServer)) = (Inr (Inr d), h1) \<and>
     fst ` set (t_backends d) = {namespaceIPNS, namespacePublicKey, namespaceProviders}"
proof -
  obtain h1 where new: "New demo_libs demo_host (Some (demo_config ModeOptAutoServer)) =
      (Inr (Inr (demo_start ModeOptAutoServer)), h1)"
    using demo_New [of ModeOptAutoServer] by blast
  have "distinct (map fst (cfg_Backends (demo_config ModeOptAutoServer)))" by (simp add: demo_config_sel)
  from new_total [OF demo_valid this new] new show ?thesis by (simp add: demo_config_sel)
qed

text \<open>
  C36: Closing a node never fails, cuts it off from events and resets every stream of its protocol,
  and closing it again does nothing. But it closes no backend, whatever backends the node was given,
  because \<open>New\<close> wraps them all in a type without a \<open>Close\<close> method; and it leaves the
  stream handler in place, so a server still accepts streams.
\<close>
theorem close_effect:
  assumes new: "New L h cfg0 = (Inr (Inr d), h1)" and run: "runs_to L (d, h1) (d2, h2)"
    and close: "Close L (d2, h2) = (e, d3, h3)"
  shows "e = None \<and> t_stopped d3 \<and> Close L (d3, h3) = (None, d3, h3) \<and>
         (\<not> t_stopped d2 \<longrightarrow> \<not> t_subOpen d3 \<and>
            (\<forall>c \<in> set (h_Conns h3). \<forall>s \<in> set c. s_Protocol s = cfg_ProtocolID (t_cfg d3) \<longrightarrow> s_Reset s)) \<and>
         t_closedBackends d3 = [] \<and> h_Handlers h3 = h_Handlers h2"
proof -
  note eff = Close_effect [OF close]
  have "closes_nothing d2"
    using runs_to_closes_nothing [OF run] New_closes_nothing [OF new] by simp
  then have "t_closedBackends d3 = []"
    using Close_keeps [OF close] by (simp add: closes_nothing_def)
  moreover have "Close L (d3, h3) = (None, d3, h3)" using eff(2) by (simp add: Close_def)
  ultimately show ?thesis using eff reset_all_dead [of "cfg_ProtocolID (t_cfg d3)" "h_Conns h2"] by simp
qed

lemma close_effect_witness:
  "\<exists>h1 d3 h3. Close demo_libs (demo_start ModeOptServer, h1) = (None, d3, h3) \<and>
     ProtocolIPFS \<in> set (h_Handlers h3) \<and> t_closedBackends d3 = []"
proof -
  obtain h1 where new: "New demo_libs demo_host (Some (demo_config ModeOptServer)) =
      (Inr (Inr (demo_start ModeOptServer)), h1)"
    using demo_New [of ModeOptServer] by blast
  have "mode_inv (demo_config ModeOptServer) (demo_start ModeOptServer, h1)"
    using New_node(1) [OF new] by (simp add: used_config_def)
  moreover have "ModeOptServer \<noteq> ModeOptClient" by (simp add: ModeOpt_defs)
  ultimately have "ProtocolIPFS \<in> set (h_Handlers h1)"
    by (auto simp: mode_inv_def serves_def allowed_modes_def demo_config_sel)
  moreover obtain e d3 h3 where close: "Close demo_libs (demo_start ModeOptServer, h1) = (e, d3, h3)"
    by (cases "Close demo_libs (demo_start ModeOptServer, h1)")
  moreover have "e = None \<and> t_closedBackends d3 = [] \<and> h_Handlers h3 = h_Handlers h1"
    using close_effect [OF new rtranclp.rtrancl_refl close] by blast
  ultimately show ?thesis by (intro exI [of _ h1] exI [of _ d3] exI [of _ h3]) simp
qed

end
