(* ===== verification/Assembly.thy ===== *)
theory Assembly
  imports Node LifecycleProps
begin

text \<open>
  \<open>New\<close> (\<open>dht.go\<close>) with the parts that the repository itself provides: \<open>DefaultConfig\<close>,
  \<open>initAminoBackends\<close> and \<open>newProviderKeystore\<close> take the place of the arguments that stand for them in
  \<open>Lifecycle\<close>. A node for the IPFS network that is constructed without backends of its own starts in the
  state that \<open>Node\<close> reasons about, and a restart on the same datastore continues where the last run
  stopped.
\<close>

section \<open>The parts of a node\<close>

text \<open>What the parts of the repository need of the libraries, apart from those that \<open>libs\<close> holds.\<close>

record ('m, 'ds, 'tx, 'ab, 'c, 'b, 't) node_parts =
  np_env :: "('m, 'ds, 'tx, 'ab, 'c) prov_env"
  np_hash :: "'b hash_lib"
  np_trie :: "('b, 't) trie_lib"
  np_lru_New :: "int \<Rightarrow> goerr + 'c"
  np_InMemoryDatastore :: "goerr + 'ds"
  np_ipns_Validator :: validator
  np_pk_Validator :: validator
  np_IsPublicAddr :: "'m \<Rightarrow> bool"
  np_bootstrap :: "'m addr_info list"
  np_peerstore :: 'ab
  np_now :: int

text \<open>
  \<open>initAminoBackends\<close> as \<open>New\<close> calls it. The address filter of a configuration that was validated is
  not nil.
\<close>

definition init_backends ::
  "('m, 'ds, 'tx, 'ab, 'c, 'b, 't) node_parts \<Rightarrow> ('m, 'rt, 'be, 'ds) Config \<Rightarrow> goerr + ('m, 'ds, 'ab, 'c) amino_world" where
  "init_backends P cfg =
     initAminoBackends (np_lru_New P) (np_InMemoryDatastore P) (np_ipns_Validator P) (np_pk_Validator P)
       (cfg_Datastore cfg) (the (cfg_AddressFilter cfg)) (np_peerstore P) (np_now P)"

type_synonym ('m, 'rt, 'ds, 'ab, 'c, 't, 'k) amino_libs =
  "('m, 'rt, ('m, 'ds, 'ab, 'c) ProvidersBackend, 'ds RecordBackend, 'ds, ('ds, 't) providerKeystore, 'k) libs"

type_synonym ('m, 'rt, 'ds, 'ab, 'c, 't, 'k) amino_dht =
  "('m, 'rt, ('m, 'ds, 'ab, 'c) ProvidersBackend, 'ds RecordBackend, 'ds, ('ds, 't) providerKeystore, 'k) node"

definition assemble ::
  "('m, 'ds, 'tx, 'ab, 'c, 'b, 't) node_parts \<Rightarrow> ('m, 'rt, 'ds, 'ab, 'c, 't, 'k) amino_libs
     \<Rightarrow> ('m, 'rt, 'ds, 'ab, 'c, 't, 'k) amino_libs" where
  "assemble P L = L
     \<lparr>l_DefaultConfig := DefaultConfig (np_IsPublicAddr P) (np_bootstrap P),
      l_initAminoBackends := (\<lambda>cfg. case init_backends P cfg of
          Inl err \<Rightarrow> Inl err
        | Inr w \<Rightarrow> Inr (aw_pb w, aw_ipns w, aw_pk w, aw_ds w)),
      l_newProviderKeystore := newProviderKeystore (np_env P) (np_hash P) (np_trie P)\<rparr>"

text \<open>The state of the backends that a node holds, if they are the default ones.\<close>

definition backends_world ::
  "int \<Rightarrow> ('m, 'rt, 'ds, 'ab, 'c, 't, 'k) amino_dht \<Rightarrow> ('m, 'ds, 'ab, 'c) amino_world option" where
  "backends_world now d =
     (case (map_of (t_backends d) namespaceProviders, map_of (t_backends d) namespaceIPNS,
            map_of (t_backends d) namespacePublicKey) of
        (Some (TracedB _ (ProvidersB p)), Some (TracedB _ (RecordB i)), Some (TracedB _ (RecordB k))) \<Rightarrow>
          Some \<lparr>aw_now = now, aw_ds = pb_datastore p, aw_ab = pb_addrBook p, aw_pb = p, aw_ipns = i, aw_pk = k\<rparr>
      | _ \<Rightarrow> None)"

section \<open>Construction\<close>

lemma initAminoBackends_world:
  assumes "initAminoBackends lru_New InMem Vi Vp ods af pstore now = Inr w"
  shows "node_namespaces w" "pb_datastore (aw_pb w) = aw_ds w" "pb_addrBook (aw_pb w) = aw_ab w" "aw_now w = now"
    "aw_ab w = pstore" "(case ods of Some d \<Rightarrow> Inr d | None \<Rightarrow> InMem) = Inr (aw_ds w)"
    "rb_datastore (aw_ipns w) = aw_ds w" "rb_datastore (aw_pk w) = aw_ds w"
    "rb_validator (aw_ipns w) = Vi" "rb_validator (aw_pk w) = Vp"
    "pb_cfg (aw_pb w) = DefaultProviderBackendConfig\<lparr>AddressFilter := af\<rparr>"
    "rb_MaxRecordAge (aw_ipns w) = DefaultRecordBackendConfig" "rb_MaxRecordAge (aw_pk w) = DefaultRecordBackendConfig"
proof -
  obtain dstore pbe where p: "(case ods of Some d \<Rightarrow> Inr d | None \<Rightarrow> InMem) = Inr dstore"
    "NewBackendProvider lru_New pstore dstore (Some (DefaultProviderBackendConfig\<lparr>AddressFilter := af\<rparr>)) = Inr pbe"
    "w = \<lparr>aw_now = now, aw_ds = dstore, aw_ab = pstore, aw_pb = pbe,
          aw_ipns = NewBackendIPNS Vi dstore (Some DefaultRecordBackendConfig),
          aw_pk = NewBackendPublicKey Vp dstore (Some DefaultRecordBackendConfig)\<rparr>"
    using assms by (auto simp: initAminoBackends_def split: sum.splits)
  have b: "pb_namespace pbe = namespaceProviders" "pb_datastore pbe = dstore" "pb_addrBook pbe = pstore"
    "pb_cfg pbe = DefaultProviderBackendConfig\<lparr>AddressFilter := af\<rparr>"
    using p(2) by (auto simp: NewBackendProvider_def Let_def split: sum.splits)
  show "node_namespaces w" "pb_datastore (aw_pb w) = aw_ds w" "pb_addrBook (aw_pb w) = aw_ab w" "aw_now w = now"
    "aw_ab w = pstore" "(case ods of Some d \<Rightarrow> Inr d | None \<Rightarrow> InMem) = Inr (aw_ds w)"
    "rb_datastore (aw_ipns w) = aw_ds w" "rb_datastore (aw_pk w) = aw_ds w"
    "rb_validator (aw_ipns w) = Vi" "rb_validator (aw_pk w) = Vp"
    "pb_cfg (aw_pb w) = DefaultProviderBackendConfig\<lparr>AddressFilter := af\<rparr>"
    "rb_MaxRecordAge (aw_ipns w) = DefaultRecordBackendConfig" "rb_MaxRecordAge (aw_pk w) = DefaultRecordBackendConfig"
    using p(1) b by (simp_all add: p(3) node_namespaces_def NewBackendIPNS_def NewBackendPublicKey_def)
qed

text \<open>A configuration for the IPFS network that leaves the backends to \<open>New\<close>.\<close>

definition default_backends :: "('m, 'rt, 'be, 'ds) Config \<Rightarrow> bool" where
  "default_backends cfg \<longleftrightarrow> cfg_ProtocolID cfg = ProtocolIPFS \<and> cfg_Backends cfg = []"

lemma assembled_node:
  assumes new: "New (assemble P L) h cfg0 = (Inr (Inr d), h1)"
    and cfg: "default_backends (used_config (assemble P L) cfg0)"
  shows "\<exists>w ks. init_backends P (used_config (assemble P L) cfg0) = Inr w \<and> backends_world (np_now P) d = Some w \<and>
           t_provideKeys d = Some ks \<and>
           newProviderKeystore (np_env P) (np_hash P) (np_trie P) (aw_ds w) = Inr ks"
proof -
  let ?L = "assemble P L" and ?cfg = "used_config (assemble P L) cfg0"
  obtain bs ds where nb: "New_backends ?L ?cfg = Inr (bs, ds)" and ks: "New_keystore ?L ds = Inr (t_provideKeys d)"
    using New_node(9) [OF new] by blast
  have bs: "t_backends d = map (\<lambda>(ns, be). (ns, TracedB ns be)) bs"
    using New_node(7) [OF new] nb by auto
  obtain w where w: "init_backends P ?cfg = Inr w"
    "bs = [(namespaceIPNS, RecordB (aw_ipns w)), (namespacePublicKey, RecordB (aw_pk w)),
           (namespaceProviders, ProvidersB (aw_pb w))]" "ds = Some (aw_ds w)"
    using nb cfg by (auto simp: New_backends_def default_backends_def assemble_def split: sum.splits)
  note init = initAminoBackends_world [OF w(1) [unfolded init_backends_def]]
  have world: "backends_world (np_now P) d = Some w"
    using init(2-4) by (simp add: backends_world_def bs w(2) namespace_defs)
  obtain k where "newProviderKeystore (np_env P) (np_hash P) (np_trie P) (aw_ds w) = Inr k" "t_provideKeys d = Some k"
    using ks w(3) by (auto simp: New_keystore_def assemble_def split: sum.splits)
  then show ?thesis using w(1) world by blast
qed

text \<open>Construction succeeds where its parts do.\<close>

lemma New_starts:
  assumes "Config_Validate cfg = None" "valid_config cfg" "cfg_RoutingTable cfg = None"
    and "l_triert_New L (h_ID h) = Inr rt" "NewTelemetry (l_meter L) (map_option (\<lambda>_. l_meter L) (cfg_MeterProvider cfg)) = Inr tel"
    and "fst (registerRoutingTableMetrics (l_gauge L) (l_table L)) = None"
    and "New_backends L cfg = Inr (bs, ds)" "New_keystore L ds = Inr ks"
    and "\<And>p rt c. l_NewCoordinator L p rt c = Inr k" "\<And>ks. l_Subscribe L ks = None"
  shows "\<exists>d h1. New L h (Some cfg) = (Inr (Inr d), h1)"
proof -
  obtain q where q: "cfg_Query cfg = Some q" using assms(2) by (auto simp: valid_config_def)
  have mode: "cfg_Mode cfg \<in> {ModeOptClient, ModeOptServer, ModeOptAutoClient, ModeOptAutoServer}"
    using assms(2) by (simp add: valid_config_def)
  then show ?thesis
    using assms q by (auto simp: New_def DefaultRoutingTable_def Let_def split: prod.split)
qed

section \<open>A concrete node\<close>

definition mem_parts :: "(bytes, mem_ds, mem_ds, mem_ab, mem_lru, bytes, bytes Key list) node_parts" where
  "mem_parts =
     \<lparr>np_env = mem_env, np_hash = id_hash, np_trie = list_trie, np_lru_New = (\<lambda>n. Inr []),
      np_InMemoryDatastore = Inr [], np_ipns_Validator = len_validator, np_pk_Validator = len_validator,
      np_IsPublicAddr = (\<lambda>m. True), np_bootstrap = [\<lparr>ai_ID = ''b'', ai_Addrs = [''a'']\<rparr>], np_peerstore = [],
      np_now = 1000\<rparr>"

definition mem_libs :: "(bytes, nat, mem_ds, mem_ab, mem_lru, bytes Key list, peer_id list) amino_libs" where
  "mem_libs = assemble mem_parts
     \<lparr>l_DefaultConfig = DefaultConfig (\<lambda>m. True) [], l_triert_New = (\<lambda>p. Inr 0), l_meter = (\<lambda>kind name. Inr ()),
      l_gauge = (\<lambda>name. None), l_table = \<lparr>rt_Size = None, rt_CplSize = (\<lambda>rt cpl. 0)\<rparr>,
      l_initAminoBackends = (\<lambda>c. Inl ErrNotFound), l_newProviderKeystore = (\<lambda>ds. Inl ErrNotFound),
      l_DefaultCoordinatorConfig = l_DefaultCoordinatorConfig demo_libs,
      l_NewCoordinator = (\<lambda>p rt c. Inr []),
      l_Subscribe = (\<lambda>ks. None), l_AddNodes = (\<lambda>k ps. (None, k @ ps)), l_Bootstrap = (\<lambda>k. (None, k)), l_kad_Close = (\<lambda>k. (None, k))\<rparr>"

definition mem_host :: "bytes host" where
  "mem_host = \<lparr>h_ID = ''self'', h_Handlers = [], h_Conns = [[]], h_AddAddrs = []\<rparr>"

definition mem_config ::
  "mem_ds option \<Rightarrow> (bytes, nat, ((bytes, mem_ds, mem_ab, mem_lru) ProvidersBackend, mem_ds RecordBackend) backend_val,
     mem_ds) Config" where
  "mem_config d = (l_DefaultConfig mem_libs)\<lparr>cfg_Datastore := d\<rparr>"

lemma mem_config_sel:
  "cfg_Backends (mem_config d) = []" "cfg_ProtocolID (mem_config d) = ProtocolIPFS" "cfg_RoutingTable (mem_config d) = None"
  "cfg_Datastore (mem_config d) = d" "cfg_AddressFilter (mem_config d) = Some (AddrFilterPrivate (\<lambda>m. True))"
  "used_config L (Some c) = c"
  by (simp_all add: mem_config_def mem_libs_def assemble_def mem_parts_def DefaultConfig_def used_config_def)

lemma mem_New: "\<exists>d h1. New mem_libs mem_host (Some (mem_config ods)) = (Inr (Inr d), h1)"
proof -
  have valid: "valid_config (mem_config ods)"
    by (simp add: valid_config_def mem_config_def mem_libs_def assemble_def mem_parts_def DefaultConfig_def
        DefaultBootstrapPeers_def valid_query_def DefaultQueryConfig_def time_Minute_def time_Hour_def ProtocolIPFS_def)
  then have check: "Config_Validate (mem_config ods) = None"
    using validate_accepts [of "mem_config ods"] by (auto simp: mem_config_sel valid_config_def)
  have "l_initAminoBackends mem_libs (mem_config ods) = (case init_backends mem_parts (mem_config ods) of
      Inl err \<Rightarrow> Inl err | Inr w \<Rightarrow> Inr (aw_pb w, aw_ipns w, aw_pk w, aw_ds w))"
    by (simp add: mem_libs_def assemble_def)
  moreover have "\<exists>w. init_backends mem_parts (mem_config ods) = Inr w"
    by (cases ods) (simp_all add: init_backends_def initAminoBackends_def NewBackendProvider_def mem_parts_def
        mem_config_sel Let_def)
  ultimately obtain bs ds where nb: "New_backends mem_libs (mem_config ods) = Inr (bs, Some ds)"
    by (auto simp: New_backends_def mem_config_sel)
  obtain ks where "newProviderKeystore mem_env id_hash list_trie ds = Inr ks" using mem_load by blast
  then have nk: "New_keystore mem_libs (Some ds) = Inr (Some ks)"
    by (simp add: New_keystore_def mem_libs_def assemble_def mem_parts_def)
  show ?thesis
    by (rule New_starts [OF check valid _ _ _ _ nb nk])
       (simp_all add: mem_config_sel, simp_all add: mem_libs_def assemble_def NewTelemetry_def registerRoutingTableMetrics_def
          split: option.split)
qed

section \<open>Properties\<close>

text \<open>
  C4: A node that is created for the IPFS network without backends of its own starts as the other
  theorems require: the three default backends under their namespaces, all on the datastore of the
  configuration or, without one, on the fresh one in memory; provider records filtered by the address
  filter of the configuration; and a keystore that was loaded from that same datastore.
\<close>
theorem new_assembles_amino_node:
  assumes "New (assemble P L) h cfg0 = (Inr (Inr d), h1)" and "default_backends (used_config (assemble P L) cfg0)"
  shows "\<exists>w ks. backends_world (np_now P) d = Some w \<and> node_namespaces w \<and>
           (case cfg_Datastore (used_config (assemble P L) cfg0) of
              Some ds \<Rightarrow> aw_ds w = ds | None \<Rightarrow> np_InMemoryDatastore P = Inr (aw_ds w)) \<and>
           pb_datastore (aw_pb w) = aw_ds w \<and> rb_datastore (aw_ipns w) = aw_ds w \<and> rb_datastore (aw_pk w) = aw_ds w \<and>
           cfg_AddressFilter (used_config (assemble P L) cfg0) \<noteq> None \<and>
           cfg_AddressFilter (used_config (assemble P L) cfg0) = Some (AddressFilter (pb_cfg (aw_pb w))) \<and>
           rb_validator (aw_ipns w) = np_ipns_Validator P \<and> rb_validator (aw_pk w) = np_pk_Validator P \<and>
           t_provideKeys d = Some ks \<and>
           newProviderKeystore (np_env P) (np_hash P) (np_trie P) (aw_ds w) = Inr ks"
proof -
  let ?cfg = "used_config (assemble P L) cfg0"
  obtain w ks where w: "init_backends P ?cfg = Inr w" "backends_world (np_now P) d = Some w"
    "t_provideKeys d = Some ks" "newProviderKeystore (np_env P) (np_hash P) (np_trie P) (aw_ds w) = Inr ks"
    using assembled_node [OF assms] by blast
  note init = initAminoBackends_world [OF w(1) [unfolded init_backends_def]]
  have filt: "cfg_AddressFilter ?cfg \<noteq> None"
  proof (cases cfg0)
    case None
    then show ?thesis by (simp add: used_config_def assemble_def DefaultConfig_def)
  next
    case (Some c)
    then have "Config_Validate c = None" using New_node(8) [OF assms(1)] by blast
    then show ?thesis using validate_filter Some by (simp add: used_config_def)
  qed
  moreover have "case cfg_Datastore ?cfg of Some ds \<Rightarrow> aw_ds w = ds | None \<Rightarrow> np_InMemoryDatastore P = Inr (aw_ds w)"
    using init(6) by (simp split: option.splits)
  ultimately show ?thesis using w(2-4) init by (intro exI [of _ w] exI [of _ ks]) auto
qed

lemma new_assembles_amino_node_witness:
  "\<exists>d h1 w. New mem_libs mem_host (Some (mem_config None)) = (Inr (Inr d), h1) \<and>
     backends_world 1000 d = Some w \<and> aw_ds w = [] \<and> node_namespaces w"
proof -
  obtain d h1 where new: "New mem_libs mem_host (Some (mem_config None)) = (Inr (Inr d), h1)"
    using mem_New by blast
  then have asm: "New (assemble mem_parts mem_libs) mem_host (Some (mem_config None)) = (Inr (Inr d), h1)"
    by (simp add: mem_libs_def assemble_def)
  have db: "default_backends (used_config (assemble mem_parts mem_libs) (Some (mem_config None)))"
    by (simp add: default_backends_def mem_config_sel)
  have "np_now mem_parts = 1000" "np_InMemoryDatastore mem_parts = Inr []" by (simp_all add: mem_parts_def)
  then show ?thesis
    using new_assembles_amino_node [OF asm db] new by (auto simp: mem_config_sel)
qed

text \<open>
  C5: A restart keeps the reprovide set: a node that was created by New, ran any operations and is created
  again on the datastore it left has in its keystore exactly the keys it was created with and those that
  were provided since, without those that were removed - but for keys whose last registration or removal failed, and
  for these too if failed writes leave no trace in the datastore.
\<close>
theorem restart_keeps_provide_set:
  assumes new: "New (assemble P L) h cfg0 = (Inr (Inr d), h1)" "default_backends (used_config (assemble P L) cfg0)"
    and start: "backends_world (np_now P) d = Some w" "t_provideKeys d = Some ks"
    and node: "node_setting (np_env P) R Vi Vp (np_trie P) content N" "d_hash N = np_hash P" "d_self N \<noteq> []"
    and laws: "trie_laws (np_hash P) (np_trie P) keys" "entries_ok (np_env P) content (aw_ds w)"
    and ops: "\<forall>op \<in> set ops. op_ok N op"
    and run: "node_run (np_env P) (np_trie P) N ops ((w, log), ks_index ks)
                (stored_keys (np_hash P) content (aw_ds w), {}) = (w', S, F)"
    and again: "New (assemble P2 L2) h2 (Some cfg2) = (Inr (Inr d2), h3)" "default_backends cfg2"
      "cfg_Datastore cfg2 = Some (aw_ds (backends_of w'))"
    and same: "np_env P2 = np_env P" "np_hash P2 = np_hash P" "np_trie P2 = np_trie P"
  shows "\<exists>ks2. t_provideKeys d2 = Some ks2 \<and>
           (\<forall>pfx. set (KeysUnder (np_trie P) ks2 pfx) - F = {k \<in> S. key_under (np_hash P) pfx k} - F \<and>
              (failed_writes_void (np_env P) content \<longrightarrow>
                 set (KeysUnder (np_trie P) ks2 pfx) = {k \<in> S. key_under (np_hash P) pfx k}))"
proof -
  obtain w0 ks0 where w0: "init_backends P (used_config (assemble P L) cfg0) = Inr w0"
    "backends_world (np_now P) d = Some w0" "t_provideKeys d = Some ks0"
    "newProviderKeystore (np_env P) (np_hash P) (np_trie P) (aw_ds w0) = Inr ks0"
    using assembled_node [OF new] by blast
  then have eq: "w0 = w" "ks0 = ks" using start by simp_all
  have ns: "node_namespaces w" using initAminoBackends_world(1) [OF w0(1) [unfolded init_backends_def]] eq by simp
  have ds: "datastore_laws (np_env P) content" using node(1) by (simp add: node_setting_def)
  have k: "ks_dstore ks = aw_ds w" "keys (ks_index ks) = stored_keys (np_hash P) content (aw_ds w)"
    using newProviderKeystore_keys [OF ds laws(1)] w0(4) eq by (simp_all add: stored_keys_def)
  have "node_inv (np_env P) (d_hash N) keys content (stored_keys (np_hash P) content (aw_ds w), {}) ((w, log), ks_index ks)"
    using ns k laws(2) node(2) by (simp add: node_inv_def ks_ok_def)
  from node_run_inv [OF node(1) _ node(3) this ops run] laws(1) node(2)
  have inv: "node_inv (np_env P) (np_hash P) keys content (S, F) w'" by simp
  have used: "used_config (assemble P2 L2) (Some cfg2) = cfg2" by (simp add: used_config_def)
  obtain w2 ks2 where w2: "init_backends P2 cfg2 = Inr w2" "t_provideKeys d2 = Some ks2"
    "newProviderKeystore (np_env P2) (np_hash P2) (np_trie P2) (aw_ds w2) = Inr ks2"
    using assembled_node [OF again(1)] again(2) unfolding used by blast
  have "aw_ds w2 = aw_ds (backends_of w')"
    using initAminoBackends_world(6) [OF w2(1) [unfolded init_backends_def]] again(3) by simp
  then have "keys (ks_index ks2) = stored_keys (np_hash P) content (aw_ds (backends_of w'))"
    using newProviderKeystore_keys(2) [OF ds laws(1)] w2(3) same by (simp add: stored_keys_def)
  then have "\<forall>k. k \<notin> F \<or> failed_writes_void (np_env P) content \<longrightarrow> (k \<in> S \<longleftrightarrow> k \<in> keys (ks_index ks2))"
    using inv by (auto simp: node_inv_def ks_ok_def)
  then show ?thesis using w2(2) laws(1) by (auto simp: KeysUnder_def trie_laws_def)
qed

lemma restart_keeps_provide_set_witness:
  "\<exists>d d2 ks2 h1 h2 ds. New mem_libs mem_host (Some (mem_config None)) = (Inr (Inr d), h1) \<and>
     New mem_libs mem_host (Some (mem_config (Some ds))) = (Inr (Inr d2), h2) \<and>
     t_provideKeys d2 = Some ks2 \<and> set (KeysUnder list_trie ks2 []) = {NewKey id_hash ''c''}"
proof -
  let ?op = "Announce \<lparr>cid_Defined = True, cid_Hash = ''c''\<rparr> True :: bytes node_op"
  have libs: "assemble mem_parts mem_libs = mem_libs" by (simp add: mem_libs_def assemble_def)
  have sel: "np_env mem_parts = mem_env" "np_hash mem_parts = id_hash" "np_trie mem_parts = list_trie"
    "np_InMemoryDatastore mem_parts = Inr []" "d_hash mem_full = id_hash" "d_self mem_full \<noteq> []"
    by (simp_all add: mem_parts_def mem_full_def)
  have db: "default_backends (used_config (assemble mem_parts mem_libs) (Some (mem_config x)))" for x
    by (simp add: default_backends_def mem_config_sel)
  obtain d h1 where new: "New (assemble mem_parts mem_libs) mem_host (Some (mem_config None)) = (Inr (Inr d), h1)"
    using mem_New unfolding libs by blast
  obtain w ks where w: "init_backends mem_parts (mem_config None) = Inr w" "backends_world (np_now mem_parts) d = Some w"
    "t_provideKeys d = Some ks"
    using assembled_node [OF new db] unfolding mem_config_sel(6) by blast
  have empty: "aw_ds w = []"
    using initAminoBackends_world(6) [OF w(1) [unfolded init_backends_def]] by (simp add: mem_config_sel sel)
  have set: "node_setting (np_env mem_parts) mem_rec_env len_validator len_validator (np_trie mem_parts) map_of mem_full"
    using mem_full_setting sel by simp
  have laws: "trie_laws (np_hash mem_parts) (np_trie mem_parts) set" "entries_ok (np_env mem_parts) map_of (aw_ds w)"
    using list_trie_laws sel by (simp_all add: empty entries_ok_def)
  have none: "stored_keys (np_hash mem_parts) map_of (aw_ds w) = {}" by (simp add: stored_keys_def stored_def empty)
  obtain e w' where x: "Provide mem_full ((w, []), ks_index ks) \<lparr>cid_Defined = True, cid_Hash = ''c''\<rparr> True = (e, w')"
    by (rule prod.exhaust)
  then have "registers \<lparr>cid_Defined = True, cid_Hash = ''c''\<rparr> e" using mem_full_registers by (metis fst_conv)
  then have run: "node_run (np_env mem_parts) (np_trie mem_parts) mem_full [?op] ((w, []), ks_index ks)
      (stored_keys (np_hash mem_parts) map_of (aw_ds w), {}) = (w', {NewKey id_hash ''c''}, {})"
    unfolding none by (simp add: x sel Let_def)
  obtain d2 h2 where again: "New (assemble mem_parts mem_libs) mem_host (Some (mem_config (Some (aw_ds (backends_of w'))))) =
      (Inr (Inr d2), h2)"
    using mem_New unfolding libs by blast
  have ops: "\<forall>op \<in> set [?op]. op_ok mem_full op" by simp
  have hash: "d_hash mem_full = np_hash mem_parts" using sel by simp
  obtain ks2 where "t_provideKeys d2 = Some ks2"
    "set (KeysUnder list_trie ks2 []) = {NewKey id_hash ''c''}"
    using restart_keeps_provide_set [OF new db w(2,3) set hash sel(6) laws ops run again _ _ refl refl refl]
    by (auto simp: default_backends_def mem_config_sel sel key_under_def)
  then show ?thesis using new again unfolding libs by blast
qed

end
