(* ===== verification/Scout.thy ===== *)
theory Scout
  imports RoutingProps LifecycleProps
begin

text \<open>
  The command line tool \<open>cmd/scout\<close>: the start of a node from the flags, the command line of its
  terminal interface, the traces of its two queries, and the text of its panels. The terminal library is
  not modelled: a handler is a function from the key and the text to what it does. Elapsed times,
  printed floating point numbers, the printed forms of identities and addresses and the decoding of
  identities are parameters; whole numbers are printed here (\<open>fmt_d\<close>).
\<close>

section \<open>Printing and splitting\<close>

fun dec_nat :: "nat \<Rightarrow> string" where
  "dec_nat n = (if n < 10 then [char_of (48 + n)] else dec_nat (n div 10) @ [char_of (48 + n mod 10)])"

declare dec_nat.simps [simp del]

definition fmt_d :: "int \<Rightarrow> string" where
  "fmt_d i = (if i < 0 then CHR ''-'' # dec_nat (nat (- i)) else dec_nat (nat i))"

text \<open>\<open>strings.TrimRight(s, " ")\<close>\<close>

definition trim_right_spaces :: "string \<Rightarrow> string" where
  "trim_right_spaces s = rev (dropWhile (\<lambda>c. c = CHR '' '') (rev s))"

text \<open>
  The white space of \<open>unicode.IsSpace\<close> in UTF-8: how many bytes of it the text starts with. UTF-8
  is self-synchronizing, so other characters may be passed over byte by byte.
\<close>

definition ascii_spaces :: "nat set" where "ascii_spaces = {9, 10, 11, 12, 13, 32}"
definition space_pairs :: "(nat \<times> nat) set" where "space_pairs = {(0xC2, 0x85), (0xC2, 0xA0)}"

definition space_triples :: "(nat \<times> nat \<times> nat) set" where
  "space_triples =
     {(0xE1, 0x9A, 0x80), (0xE2, 0x80, 0x80), (0xE2, 0x80, 0x81), (0xE2, 0x80, 0x82), (0xE2, 0x80, 0x83),
      (0xE2, 0x80, 0x84), (0xE2, 0x80, 0x85), (0xE2, 0x80, 0x86), (0xE2, 0x80, 0x87), (0xE2, 0x80, 0x88),
      (0xE2, 0x80, 0x89), (0xE2, 0x80, 0x8A), (0xE2, 0x80, 0xA8), (0xE2, 0x80, 0xA9), (0xE2, 0x80, 0xAF),
      (0xE2, 0x81, 0x9F), (0xE3, 0x80, 0x80)}"

fun space_len :: "bytes \<Rightarrow> nat" where
  "space_len [] = 0"
| "space_len (a # s) =
     (if of_char a \<in> ascii_spaces then 1
      else (case s of
              [] \<Rightarrow> 0
            | b # s' \<Rightarrow>
                if (of_char a, of_char b) \<in> space_pairs then 2
                else (case s' of
                        [] \<Rightarrow> 0
                      | c # _ \<Rightarrow> if (of_char a, of_char b, of_char c) \<in> space_triples then 3 else 0)))"

declare space_len.simps(2) [simp del]

text \<open>\<open>strings.Fields\<close> and \<open>strings.TrimSpace\<close>.\<close>

fun fields_from :: "bytes \<Rightarrow> bytes \<Rightarrow> bytes list" where
  "fields_from w [] = (if w = [] then [] else [w])"
| "fields_from w (c # cs) =
     (if space_len (c # cs) = 0 then fields_from (w @ [c]) cs
      else (if w = [] then [] else [w]) @ fields_from [] (drop (space_len (c # cs) - 1) cs))"

definition Fields :: "bytes \<Rightarrow> bytes list" where "Fields s = fields_from [] s"

fun trim_left :: "bytes \<Rightarrow> bytes" where
  "trim_left [] = []"
| "trim_left (c # cs) =
     (if space_len (c # cs) = 0 then c # cs else trim_left (drop (space_len (c # cs) - 1) cs))"

fun trim_right :: "bytes \<Rightarrow> bytes" where
  "trim_right [] = []"
| "trim_right (c # cs) = (if trim_left (c # cs) = [] then [] else c # trim_right cs)"

definition TrimSpace :: "bytes \<Rightarrow> bytes" where "TrimSpace s = trim_right (trim_left s)"

declare fields_from.simps(2) [simp del] trim_left.simps(2) [simp del] trim_right.simps(2) [simp del]

section \<open>The command line\<close>

datatype tui_key = KeyEnter | KeyCtrlC | KeyOther

datatype tui_action =
    SetInput bytes | SetStatus bytes | Stop | RunFindPeer bytes | RunFindProviders bytes

definition input_done :: "tui_key \<Rightarrow> bytes \<Rightarrow> (tui_action list) may_panic" where
  "input_done key input =
     (if key \<noteq> KeyEnter then Inr []
      else
        (let text = TrimSpace input
         in if text = [] then Inr [SetInput []]
            else
              (case Fields text of
                 [] \<Rightarrow> Inl ''index out of range''
               | cmd # args \<Rightarrow>
                   Inr (SetInput [] #
                     (if cmd = ''exit'' then [Stop]
                      else if cmd = ''findpeer'' then
                        (case args of
                           [] \<Rightarrow> [SetStatus ''usage: findpeer <peerid>'']
                         | arg # _ \<Rightarrow> [SetStatus (''finding '' @ arg @ '' ...''), RunFindPeer arg])
                      else if cmd = ''findproviders'' then
                        (case args of
                           [] \<Rightarrow> [SetStatus ''usage: findproviders <cid>'']
                         | arg # _ \<Rightarrow> [SetStatus (''finding providers for '' @ arg @ '' ...''), RunFindProviders arg])
                      else [SetStatus (''unknown command: '' @ cmd)])))))"

text \<open>Ctrl-C is caught before the input field sees it.\<close>

definition input_capture :: "tui_key \<Rightarrow> tui_key option \<times> tui_action list" where
  "input_capture key = (if key = KeyCtrlC then (None, [Stop]) else (Some key, []))"

section \<open>The traces of the queries\<close>

record 'm scout_lib =
  sl_PeerDecode :: "bytes \<Rightarrow> goerr + peer_id"
  sl_CidDecode :: "bytes \<Rightarrow> goerr + cid"
  sl_PeerString :: "peer_id \<Rightarrow> string"
  sl_AddrString :: "'m \<Rightarrow> string"
  sl_ErrString :: "goerr \<Rightarrow> string"
  sl_Since :: string                              \<comment> \<open>the time since the query began\<close>
  sl_Stats :: "nat \<Rightarrow> int \<times> int \<times> int"            \<comment> \<open>requests, successes and failures at the i-th visit\<close>

definition shorten :: "('m, 'z) scout_lib_scheme \<Rightarrow> peer_id \<Rightarrow> string" where
  "shorten L p =
     (let s = sl_PeerString L p
      in if length s \<le> 16 then s else take 8 s @ ''..'' @ drop (length s - 6) s)"

definition contacted_line :: "('m, 'z) scout_lib_scheme \<Rightarrow> nat \<Rightarrow> peer_id \<Rightarrow> string" where
  "contacted_line L i p =
     (case sl_Stats L i of (req, ok, fl) \<Rightarrow>
        ''  contacted '' @ shorten L p @ ''  req='' @ fmt_d req @ '' ok='' @ fmt_d ok @ '' fail='' @ fmt_d fl)"

definition contacted_lines :: "('m, 'z) scout_lib_scheme \<Rightarrow> peer_id list \<Rightarrow> string list" where
  "contacted_lines L visited = map (\<lambda>(i, p). contacted_line L i p) (List.enumerate 0 visited)"

definition runFindPeer ::
  "('m, 'y) scout_lib_scheme \<Rightarrow> ('w, 'm, 'b, 'z) Node_scheme \<Rightarrow> 'w \<Rightarrow> bytes \<Rightarrow> string list \<times> 'w" where
  "runFindPeer L N w pid_text =
     (case sl_PeerDecode L pid_text of
        Inl err \<Rightarrow> ([''  bad peer id: '' @ sl_ErrString L err], w)
      | Inr pid \<Rightarrow>
          (case FindPeerProgress N w pid of (r, visited, w') \<Rightarrow>
             (contacted_lines L visited @
              (case r of
                 Inl err \<Rightarrow> [''  not found after '' @ sl_Since L @ '': '' @ sl_ErrString L err]
               | Inr ai \<Rightarrow>
                   (''  found '' @ shorten L (ai_ID ai) @ '' with '' @ fmt_d (int (length (ai_Addrs ai))) @
                      '' addrs in '' @ sl_Since L) #
                   map (\<lambda>a. ''    '' @ sl_AddrString L a) (ai_Addrs ai)),
              w')))"

definition runFindProviders ::
  "('m, 'y) scout_lib_scheme \<Rightarrow> ('w, 'm, 'b, 'z) Node_scheme \<Rightarrow> 'w \<Rightarrow> bytes \<Rightarrow> string list \<times> 'w" where
  "runFindProviders L N w key =
     (case sl_CidDecode L key of
        Inl err \<Rightarrow> ([''  bad cid: '' @ sl_ErrString L err], w)
      | Inr c \<Rightarrow>
          (case FindProvidersProgress N w c 0 of (r, visited, w') \<Rightarrow>
             (contacted_lines L visited @
              (case r of
                 Inl err \<Rightarrow> [''  failed after '' @ sl_Since L @ '': '' @ sl_ErrString L err]
               | Inr provs \<Rightarrow>
                   (''  found '' @ fmt_d (int (length provs)) @ '' providers in '' @ sl_Since L) #
                   concat (map (\<lambda>p.
                     (''    '' @ shorten L (ai_ID p) @ ''  ('' @ fmt_d (int (length (ai_Addrs p))) @ '' addrs)'') #
                     map (\<lambda>a. ''      '' @ sl_AddrString L a) (ai_Addrs p)) provs)),
              w')))"

section \<open>The panels\<close>

definition nl :: string where "nl = [char_of (10 :: nat)]"

definition occupiedCpls :: "'rt table_ops \<Rightarrow> 'rt \<Rightarrow> int" where
  "occupiedCpls R rt = foldl (\<lambda>n cpl. if rt_CplSize R rt cpl > 0 then n + 1 else n) 0 [0..<256]"

definition max_cpl :: "'rt table_ops \<Rightarrow> 'rt \<Rightarrow> int" where
  "max_cpl R rt = foldl (\<lambda>m cpl. if rt_CplSize R rt cpl > 0 then int cpl else m) (-1) [0..<256]"

definition bucketsLine :: "'rt table_ops \<Rightarrow> 'rt \<Rightarrow> string" where
  "bucketsLine R rt =
     (if max_cpl R rt < 0 then ''buckets:   (empty)''
      else trim_right_spaces
             (foldl (\<lambda>b cpl. b @ fmt_d (rt_CplSize R rt cpl) @ '' '') ''buckets:   '' [0..<nat (max_cpl R rt) + 1]))"

definition rtText :: "('rt \<Rightarrow> int) \<Rightarrow> 'rt table_ops \<Rightarrow> 'rt \<Rightarrow> string \<Rightarrow> string" where
  "rtText sz R rt elapsed =
     ''elapsed:       '' @ elapsed @ nl @ ''size:          '' @ fmt_d (sz rt) @ nl @
     ''occupied CPLs: '' @ fmt_d (occupiedCpls R rt)"

text \<open>Floating point numbers are a parameter; an estimate comes with its printed parts.\<close>

record estimate =
  e_Size :: int
  e_StdErr :: string
  e_Fit :: string
  e_Samples :: int

definition nsText :: "(goerr \<Rightarrow> string) \<Rightarrow> string \<Rightarrow> goerr + estimate \<Rightarrow> string" where
  "nsText err_string elapsed r =
     (case r of
        Inl err \<Rightarrow> ''elapsed: '' @ elapsed @ nl @ ''size:    unknown ('' @ err_string err @ '')''
      | Inr est \<Rightarrow>
          ''elapsed: '' @ elapsed @ nl @ ''size:    '' @ fmt_d (e_Size est) @ nl @ ''std err: '' @ e_StdErr est @ nl @
          ''fit:     '' @ e_Fit est @ nl @ ''samples: '' @ fmt_d (e_Samples est))"

record 'f float_ops =
  f_zero :: 'f
  f_add :: "'f \<Rightarrow> 'f \<Rightarrow> 'f"
  f_of_int :: "int \<Rightarrow> 'f"
  f_to_int :: "'f \<Rightarrow> int"

datatype 'f metric_data = SumInt "int list" | GaugeInt "int list" | SumFloat "'f list" | GaugeFloat "'f list" | OtherData

type_synonym 'f metric_vals = "string \<rightharpoonup> 'f"

definition add_val :: "'f float_ops \<Rightarrow> string \<Rightarrow> 'f metric_vals \<Rightarrow> 'f \<Rightarrow> 'f metric_vals" where
  "add_val F name m x = m(name \<mapsto> f_add F (case m name of Some y \<Rightarrow> y | None \<Rightarrow> f_zero F) x)"

fun add_metric :: "'f float_ops \<Rightarrow> 'f metric_vals \<Rightarrow> string \<times> 'f metric_data \<Rightarrow> 'f metric_vals" where
  "add_metric F m (name, SumInt xs) = foldl (add_val F name) m (map (f_of_int F) xs)"
| "add_metric F m (name, GaugeInt xs) = foldl (add_val F name) m (map (f_of_int F) xs)"
| "add_metric F m (name, SumFloat xs) = foldl (add_val F name) m xs"
| "add_metric F m (name, GaugeFloat xs) = foldl (add_val F name) m xs"
| "add_metric F m (name, OtherData) = m"

text \<open>The scopes of a snapshot, each with its instruments.\<close>

definition collectMetrics ::
  "'f float_ops \<Rightarrow> goerr + (string \<times> 'f metric_data) list list \<Rightarrow> goerr + 'f metric_vals" where
  "collectMetrics F snapshot =
     (case snapshot of
        Inl err \<Rightarrow> Inl err
      | Inr scopes \<Rightarrow> Inr (foldl (foldl (add_metric F)) Map.empty scopes))"

definition metric_get :: "'f float_ops \<Rightarrow> 'f metric_vals \<Rightarrow> string \<Rightarrow> string" where
  "metric_get F m name = fmt_d (f_to_int F (case m name of Some x \<Rightarrow> x | None \<Rightarrow> f_zero F))"

definition metricsText ::
  "'f float_ops \<Rightarrow> (goerr \<Rightarrow> string) \<Rightarrow> 'rt table_ops \<Rightarrow> goerr + (string \<times> 'f metric_data) list list \<Rightarrow> 'rt \<Rightarrow> string" where
  "metricsText F err_string R snapshot rt =
     (case collectMetrics F snapshot of
        Inl err \<Rightarrow> ''metrics unavailable: '' @ err_string err
      | Inr m \<Rightarrow>
          (let g = metric_get F m
           in ''network:   size='' @ g ''network_size'' @ ''  in-flight='' @ g ''network_requests_in_flight'' @
                ''  handlers='' @ g ''network_node_handlers'' @ nl @
              ''bootstrap: running='' @ g ''bootstrap_running'' @ ''  sent='' @ g ''bootstrap_find_sent'' @
                '' ok='' @ g ''bootstrap_find_succeeded'' @ '' fail='' @ g ''bootstrap_find_failed'' @ nl @
              ''explore:   running='' @ g ''explore_running'' @ ''  sent='' @ g ''explore_find_sent'' @
                '' ok='' @ g ''explore_find_succeeded'' @ '' fail='' @ g ''explore_find_failed'' @ nl @
              ''survey:    running='' @ g ''survey_running'' @ ''  sent='' @ g ''survey_find_sent'' @
                '' ok='' @ g ''survey_find_succeeded'' @ '' fail='' @ g ''survey_find_failed'' @ nl @
              ''include:   queued='' @ g ''include_candidate_count'' @ ''  sent='' @ g ''include_checks_sent'' @
                '' ok='' @ g ''include_checks_passed'' @ '' fail='' @ g ''include_checks_failed'' @ nl @
              ''probe:     pending='' @ g ''probe_pending_count'' @ ''  sent='' @ g ''probe_checks_sent'' @
                '' ok='' @ g ''probe_checks_passed'' @ '' fail='' @ g ''probe_checks_failed'' @ nl @
              ''regions:   count='' @ g ''survey_regions'' @ ''  oldest='' @ g ''survey_oldest_region_age_seconds'' @
                ''s  done='' @ g ''surveys_completed'' @ '' timeout='' @ g ''surveys_timeout'' @
                '' fail='' @ g ''surveys_failed'' @ nl @
              ''table:     size='' @ g ''routing_table_size'' @ ''  buckets='' @ g ''routing_table_buckets_occupied'' @
                ''  added='' @ g ''routing_table_additions'' @ '' removed='' @ g ''routing_table_removals'' @ nl @
              ''loop:      passes='' @ g ''coordinator_event_loop_passes'' @ ''  queue='' @ g ''routing_inbound_queue_depth'' @
                '' dropped='' @ g ''routing_inbound_events_dropped'' @ nl @
              bucketsLine R rt))"

text \<open>The refresh loop on the events it selects; the texts are those at the time of the event.\<close>

datatype refresh_event = Ticker string string | SizeTicker string | CtxDone

record panels =
  rtPanel :: string
  nsPanel :: string
  metricsPanel :: string

fun refresh :: "refresh_event list \<Rightarrow> panels \<Rightarrow> panels" where
  "refresh [] p = p"
| "refresh (CtxDone # evs) p = p"
| "refresh (Ticker rt_line metrics_line # evs) p =
     refresh evs (p\<lparr>rtPanel := rt_line, metricsPanel := metrics_line\<rparr>)"
| "refresh (SizeTicker ns_line # evs) p = refresh evs (p\<lparr>nsPanel := ns_line\<rparr>)"

section \<open>The start\<close>

record flags =
  fl_mode :: string
  fl_level :: string
  fl_logFile :: string

record 'm scout_io =
  so_OpenFile :: "string \<Rightarrow> goerr option"
  so_Level :: "string \<Rightarrow> goerr option"          \<comment> \<open>\<open>UnmarshalText\<close> of a log level\<close>
  so_Host :: "goerr + 'm host"

definition newLogger :: "'m scout_io \<Rightarrow> string \<Rightarrow> goerr option" where
  "newLogger io level = map_option (Wrapf ''log level'') (so_Level io level)"

definition scout_mode :: "string \<Rightarrow> goerr + string" where
  "scout_mode mode =
     (if mode = ''client'' then Inr ModeOptClient
      else if mode = ''server'' then Inr ModeOptServer
      else Inl (Errorf ''unknown mode''))"

definition scout_config ::
  "('m, 'rt, 'p, 'r, 'ds, 'ks, 'k) libs \<Rightarrow> 'rt \<Rightarrow> string \<Rightarrow> ('m, 'rt, ('p, 'r) backend_val, 'ds) Config" where
  "scout_config L rt m =
     (l_DefaultConfig L)\<lparr>cfg_Logger := Some (), cfg_RoutingTable := Some rt, cfg_MeterProvider := Some (),
       cfg_Mode := m\<rparr>"

definition scout_run ::
  "('m, 'rt, 'p, 'r, 'ds, 'ks, 'k) libs \<Rightarrow> 'm scout_io \<Rightarrow> flags
     \<Rightarrow> (goerr + ('m, 'rt, 'p, 'r, 'ds, 'ks, 'k) node \<times> 'm host) may_panic" where
  "scout_run L io fl =
     (case (if fl_logFile fl \<noteq> [] then so_OpenFile io (fl_logFile fl) else None) of
        Some err \<Rightarrow> Inr (Inl (Wrapf ''open log file'' err))
      | None \<Rightarrow>
     (case newLogger io (fl_level fl) of
        Some err \<Rightarrow> Inr (Inl err)
      | None \<Rightarrow>
     (case so_Host io of
        Inl err \<Rightarrow> Inr (Inl (Wrapf ''new host'' err))
      | Inr h \<Rightarrow>
     (case l_triert_New L (h_ID h) of
        Inl err \<Rightarrow> Inr (Inl (Wrapf ''new routing table'' err))
      | Inr rt \<Rightarrow>
     (case scout_mode (fl_mode fl) of
        Inl err \<Rightarrow> Inr (Inl err)
      | Inr m \<Rightarrow>
     (case New L h (Some (scout_config L rt m)) of
        (Inl panic, h') \<Rightarrow> Inl panic
      | (Inr (Inl err), h') \<Rightarrow> Inr (Inl (Wrapf ''new dht'' err))
      | (Inr (Inr d), h') \<Rightarrow> Inr (Inr (d, h'))))))))"

section \<open>Numbers in a text\<close>

definition dec_val :: "string \<Rightarrow> nat" where
  "dec_val s = foldl (\<lambda>v c. 10 * v + (of_char c - 48)) 0 s"

definition solid :: "bytes \<Rightarrow> bool" where "solid w \<longleftrightarrow> (\<forall>c \<in> set w. \<forall>s. space_len (c # s) = 0)"

lemma solid_simps [simp]:
  "solid []" "solid (c # w) \<longleftrightarrow> (\<forall>s. space_len (c # s) = 0) \<and> solid w" "solid (v @ w) \<longleftrightarrow> solid v \<and> solid w"
  by (auto simp: solid_def)

lemma space_len_space [simp]: "space_len (CHR '' '' # s) = 1"
  by (simp add: space_len.simps ascii_spaces_def)

lemma ascii_solid:
  "33 \<le> (of_char c :: nat) \<Longrightarrow> (of_char c :: nat) < 128 \<Longrightarrow> space_len (c # s) = 0"
  by (auto simp: space_len.simps ascii_spaces_def space_pairs_def space_triples_def split: list.split)

lemma digit_value: "k < 10 \<Longrightarrow> (of_char (char_of (48 + k)) :: nat) = 48 + k"
  by (simp add: of_char_of)

lemma dec_nat_solid: "solid (dec_nat n)"
proof (induction n rule: dec_nat.induct)
  case (1 n)
  have "space_len (char_of (48 + n mod 10) # s) = 0" for s
    by (rule ascii_solid) (simp_all add: digit_value)
  moreover have "n < 10 \<Longrightarrow> n mod 10 = n" by simp
  ultimately show ?case using 1 by (subst dec_nat.simps) auto
qed

lemma dec_nat_nonempty [simp]: "dec_nat n \<noteq> []"
  by (subst dec_nat.simps) simp

lemma dec_val_nat [simp]: "dec_val (dec_nat n) = n"
proof (induction n rule: dec_nat.induct)
  case (1 n)
  show ?case
  proof (cases "n < 10")
    case True
    then show ?thesis by (subst dec_nat.simps) (simp add: dec_val_def digit_value)
  next
    case False
    have "dec_val (dec_nat n) = 10 * dec_val (dec_nat (n div 10)) + n mod 10"
      using False by (subst dec_nat.simps) (simp add: dec_val_def digit_value)
    then show ?thesis using 1 False by simp
  qed
qed

lemma fields_solid: "solid v \<Longrightarrow> w @ v \<noteq> [] \<Longrightarrow> fields_from w v = [w @ v]"
  by (induction v arbitrary: w) (auto simp: fields_from.simps(2))

lemma fields_word: "solid v \<Longrightarrow> w @ v \<noteq> [] \<Longrightarrow> fields_from w (v @ CHR '' '' # s) = (w @ v) # fields_from [] s"
  by (induction v arbitrary: w) (auto simp: fields_from.simps(2))

lemma fields_words:
  assumes "\<forall>x. solid (f x)" "\<forall>x. f x \<noteq> []"
  shows "fields_from [] (concat (map (\<lambda>x. f x @ '' '') xs) @ f y) = map f xs @ [f y]"
proof (induction xs)
  case Nil
  then show ?case using assms by (simp add: fields_solid)
next
  case (Cons x xs)
  then show ?case using assms fields_word [of "f x" "[]"] by simp
qed

lemma solid_last: "solid w \<Longrightarrow> w \<noteq> [] \<Longrightarrow> last w \<noteq> CHR '' ''"
proof
  assume "solid w" "w \<noteq> []" "last w = CHR '' ''"
  then have "space_len (CHR '' '' # []) = 0" unfolding solid_def using last_in_set by metis
  then show False by simp
qed

lemma trim_right_spaces_word:
  assumes "solid w" "w \<noteq> []"
  shows "trim_right_spaces (s @ w @ '' '') = s @ w"
proof -
  obtain v c where w: "w = v @ [c]" using assms(2) by (metis rev_exhaust)
  then have "c \<noteq> CHR '' ''" using solid_last [OF assms] by simp
  then show ?thesis by (simp add: trim_right_spaces_def w)
qed

lemma foldl_texts: "foldl (\<lambda>b x. b @ f x) s xs = s @ concat (map f xs)"
  by (induction xs arbitrary: s) auto

lemma foldl_last:
  "foldl (\<lambda>m x. if P x then g x else m) d xs = (if filter P xs = [] then d else g (last (filter P xs)))"
  by (induction xs rule: rev_induct) auto

lemma max_cpl_eq:
  "max_cpl R rt = (let occ = occupied (rt_CplSize R rt) in if occ = [] then -1 else int (last occ))"
  by (simp only: max_cpl_def occupied_def key_bits_def foldl_last Let_def)

section \<open>White space\<close>

lemma trim_left_append: "trim_left s = [] \<Longrightarrow> trim_left (s @ t) = trim_left t"
proof (induction s rule: trim_left.induct)
  case (2 c cs)
  have pos: "space_len (c # cs) \<noteq> 0" using 2(2) by (auto simp: trim_left.simps(2) split: if_splits)
  then have "space_len (c # cs @ t) = space_len (c # cs)" "space_len (c # cs) - 1 \<le> length cs"
    by (auto simp: space_len.simps split: if_splits list.splits)
  then show ?case using 2 pos by (auto simp: trim_left.simps(2))
qed simp

lemma trim_right_rest: "\<exists>r. s = trim_right s @ r \<and> trim_left r = []"
proof (induction s)
  case (Cons c cs)
  then obtain r where "cs = trim_right cs @ r" "trim_left r = []" by blast
  then show ?case by (cases "trim_left (c # cs) = []") (auto simp: trim_right.simps(2))
qed simp

lemma trim_right_solid: "trim_left (trim_right s) = [] \<Longrightarrow> trim_left s = []"
  using trim_right_rest [of s] trim_left_append [of "trim_right s"] by metis

lemma trim_left_idem: "trim_left (trim_left s) = trim_left s"
  by (induction s rule: trim_left.induct) (auto simp: trim_left.simps(2))

lemma fields_nonempty: "w \<noteq> [] \<or> trim_left s \<noteq> [] \<Longrightarrow> fields_from w s \<noteq> []"
  by (induction w s rule: fields_from.induct)
     (auto simp: fields_from.simps(2) trim_left.simps(2) split: if_splits)

lemma Fields_TrimSpace: "TrimSpace s \<noteq> [] \<Longrightarrow> Fields (TrimSpace s) \<noteq> []"
proof -
  assume nonempty: "TrimSpace s \<noteq> []"
  have "trim_left (TrimSpace s) \<noteq> []"
  proof
    assume "trim_left (TrimSpace s) = []"
    then have "trim_left s = []" using trim_right_solid trim_left_idem unfolding TrimSpace_def by metis
    then show False using nonempty by (simp add: TrimSpace_def)
  qed
  then show ?thesis unfolding Fields_def by (intro fields_nonempty) simp
qed

end
