(* ===== verification/ScoutProps.thy ===== *)
theory ScoutProps
  imports Scout
begin

text \<open>
  What the command line tool shows and does: its line of buckets can be read back, the trace of a
  query names the nodes that were contacted and the outcome, the command line never fails, and the node
  it starts runs in the mode of its flag.
\<close>

section \<open>Lines\<close>

lemma contacted_lines_length [simp]: "length (contacted_lines L ps) = length ps"
  by (simp add: contacted_lines_def)

lemma fmt_d_nonneg: "0 \<le> i \<Longrightarrow> fmt_d i = dec_nat (nat i)"
  by (simp add: fmt_d_def)

lemma sorted_last: "sorted xs \<Longrightarrow> x \<in> set xs \<Longrightarrow> x \<le> last xs"
  by (induction xs) auto

lemma bucketsLine_Fields:
  assumes "\<forall>cpl. 0 \<le> rt_CplSize R rt cpl" "max_cpl R rt = int m"
  shows "Fields (bucketsLine R rt) = ''buckets:'' # map (\<lambda>cpl. fmt_d (rt_CplSize R rt cpl)) [0..<Suc m]"
proof -
  let ?f = "\<lambda>cpl. fmt_d (rt_CplSize R rt cpl)"
  have f: "solid (?f cpl)" "?f cpl \<noteq> []" for cpl
    by (simp_all add: fmt_d_nonneg dec_nat_solid assms(1))
  have "bucketsLine R rt =
      trim_right_spaces ((''buckets:   '' @ concat (map (\<lambda>cpl. ?f cpl @ '' '') [0..<m])) @ ?f m @ '' '')"
    using assms(2) by (simp add: bucketsLine_def foldl_texts)
  also have "\<dots> = (''buckets:   '' @ concat (map (\<lambda>cpl. ?f cpl @ '' '') [0..<m])) @ ?f m"
    using f by (rule trim_right_spaces_word)
  finally have line: "bucketsLine R rt =
      ''buckets:'' @ CHR '' '' # (CHR '' '' # CHR '' '' # concat (map (\<lambda>cpl. ?f cpl @ '' '') [0..<m]) @ ?f m)"
    by simp
  have "solid ''buckets:''" by (simp add: ascii_solid)
  then have "Fields (bucketsLine R rt) =
      ''buckets:'' # fields_from [] (concat (map (\<lambda>cpl. ?f cpl @ '' '') [0..<m]) @ ?f m)"
    unfolding line Fields_def by (subst fields_word) (simp_all add: fields_from.simps(2))
  also have "\<dots> = ''buckets:'' # map ?f [0..<m] @ [?f m]"
    using f by (subst fields_words) simp_all
  finally show ?thesis by simp
qed

lemma max_cpl_last:
  assumes "\<forall>cpl. 0 \<le> rt_CplSize R rt cpl" "\<exists>cpl < 256. rt_CplSize R rt cpl \<noteq> 0"
  obtains m where "max_cpl R rt = int m" "m < 256" "0 < rt_CplSize R rt m"
    "\<forall>cpl < 256. m < cpl \<longrightarrow> rt_CplSize R rt cpl = 0"
proof -
  let ?occ = "occupied (rt_CplSize R rt)"
  obtain c where c: "c < 256" "0 < rt_CplSize R rt c" using assms by (metis order_le_less)
  have mem: "cpl \<in> set ?occ \<longleftrightarrow> cpl < 256 \<and> 0 < rt_CplSize R rt cpl" for cpl
    by (auto simp: occupied_def key_bits_def)
  have ne: "?occ \<noteq> []" using c mem [of c] by auto
  have last: "last ?occ < 256" "0 < rt_CplSize R rt (last ?occ)"
    using mem [of "last ?occ"] ne by simp_all
  have "sorted ?occ" by (simp add: occupied_def sorted_wrt_filter)
  then have "x \<in> set ?occ \<Longrightarrow> x \<le> last ?occ" for x by (rule sorted_last)
  then have "\<forall>cpl < 256. last ?occ < cpl \<longrightarrow> rt_CplSize R rt cpl = 0"
    using mem assms(1) by (metis linorder_not_le order_le_less)
  moreover have "max_cpl R rt = int (last ?occ)" using ne by (simp add: max_cpl_eq)
  ultimately show ?thesis using that last by blast
qed

section \<open>Properties\<close>

text \<open>
  The line of buckets that the tool prints can be read back: its words, after the label, are the
  sizes of the buckets from the first to the last that is not empty.
\<close>
lemma buckets_line_readable:
  assumes "\<forall>cpl. 0 \<le> rt_CplSize R rt cpl" and "\<exists>cpl < 256. rt_CplSize R rt cpl \<noteq> 0"
  shows "\<exists>m < 256. 0 < rt_CplSize R rt m \<and> (\<forall>cpl < 256. m < cpl \<longrightarrow> rt_CplSize R rt cpl = 0) \<and>
           map (int \<circ> dec_val) (tl (Fields (bucketsLine R rt))) = map (rt_CplSize R rt) [0..<Suc m]"
proof -
  obtain m where m: "max_cpl R rt = int m" "m < 256" "0 < rt_CplSize R rt m"
    "\<forall>cpl < 256. m < cpl \<longrightarrow> rt_CplSize R rt cpl = 0"
    using max_cpl_last [OF assms] by blast
  have "map (int \<circ> dec_val) (tl (Fields (bucketsLine R rt))) = map (rt_CplSize R rt) [0..<Suc m]"
    using assms(1) by (auto simp: bucketsLine_Fields [OF assms(1) m(1)] fmt_d_def not_less)
  then show ?thesis using m by blast
qed

lemma buckets_line_readable_witness:
  "\<exists>m < 256. map (int \<circ> dec_val) (tl (Fields (bucketsLine
       \<lparr>rt_Size = None, rt_CplSize = (\<lambda>rt cpl. if cpl = 1 then rt else 0)\<rparr> 12))) =
     map (\<lambda>cpl. if cpl = 1 then 12 else 0) [0..<Suc m]"
proof -
  let ?R = "\<lparr>rt_Size = None, rt_CplSize = (\<lambda>rt cpl. if cpl = 1 then rt else 0)\<rparr> :: int table_ops"
  have "\<forall>cpl. 0 \<le> rt_CplSize ?R 12 cpl" by simp
  moreover have "\<exists>cpl < 256. rt_CplSize ?R 12 cpl \<noteq> 0" by (intro exI [of _ "1 :: nat"]) simp
  ultimately obtain m where "m < 256"
    "map (int \<circ> dec_val) (tl (Fields (bucketsLine ?R 12))) = map (rt_CplSize ?R 12) [0..<Suc m]"
    using buckets_line_readable [of ?R 12] by blast
  then show ?thesis by (intro exI [of _ m]) (simp del: upt_Suc)
qed

text \<open>
  What a user sees of a search for a peer that the node is not connected to: a line for each node
  that was contacted, in order, up to the peer itself; then that the peer was found, with a line for
  each of its addresses, exactly if it was contacted, and otherwise why not.
\<close>
lemma find_peer_trace:
  assumes id: "sl_PeerDecode L text = Inr pid" "pid \<noteq> []" "\<not> n_Connected N w pid"
    and query: "n_QueryClosest N w (PeerID_Key (d_hash N) pid) 20 = ((visits, qerr), w1)"
  shows "\<exists>contacted outcome.
     runFindPeer L N w text = (contacted_lines L contacted @ outcome, w1) \<and>
     prefix contacted (map fst visits) \<and>
     (if pid \<in> fst ` set visits
      then last contacted = pid \<and> pid \<notin> set (butlast contacted) \<and>
           length outcome = 1 + length (ai_Addrs (d_PeerInfo N w1 pid)) \<and>
           prefix (''  found '' @ shorten L (ai_ID (d_PeerInfo N w1 pid))) (hd outcome)
      else contacted = map fst visits \<and>
           (\<exists>err. outcome = [''  not found after '' @ sl_Since L @ '': '' @ sl_ErrString L err]))"
proof (cases "pid \<in> fst ` set visits")
  case True
  let ?c = "takeWhile (\<lambda>p. p \<noteq> pid) (map fst visits) @ [pid]"
  obtain xs ys where xs: "map fst visits = xs @ pid # ys" "pid \<notin> set xs"
    using True by (metis split_list_first list.set_map)
  have "takeWhile (\<lambda>p. p \<noteq> pid) xs = xs" using xs(2) by (auto simp: takeWhile_eq_all_conv)
  then have "?c = xs @ [pid]" unfolding xs(1) by (simp add: takeWhile_append xs(2))
  then have c: "prefix ?c (map fst visits)" "pid \<notin> set (butlast ?c)" "last ?c = pid"
    using xs by simp_all
  let ?ai = "d_PeerInfo N w1 pid"
  have "FindPeerProgress N w pid = (Inr ?ai, ?c, w1)"
    using find_peer_exact [OF id(2) query] id(3) True by simp
  let ?found = "''  found '' @ shorten L (ai_ID ?ai)"
  let ?out = "(?found @ '' with '' @ fmt_d (int (length (ai_Addrs ?ai))) @ '' addrs in '' @ sl_Since L) #
      map (\<lambda>a. ''    '' @ sl_AddrString L a) (ai_Addrs ?ai)"
  have "runFindPeer L N w text = (contacted_lines L ?c @ ?out, w1)"
    using \<open>FindPeerProgress N w pid = _\<close> by (simp only: runFindPeer_def id(1) sum.case prod.case append_assoc)
  moreover have "length ?out = 1 + length (ai_Addrs ?ai)" by simp
  moreover have "prefix ?found (hd ?out)" by (simp only: list.sel(1) prefix_def) blast
  ultimately show ?thesis unfolding if_P [OF True] using c by blast
next
  case False
  have "FindPeerProgress N w pid =
      (Inl (case qerr of Some e \<Rightarrow> Wrapf ''failed to run query'' e | None \<Rightarrow> Errorf ''peer record not found''),
       map fst visits, w1)"
    using find_peer_exact [OF id(2) query] id(3) False by simp
  then show ?thesis using False id(1) by (auto simp: runFindPeer_def)
qed

definition demo_scout :: "bytes scout_lib" where
  "demo_scout = \<lparr>sl_PeerDecode = Inr, sl_CidDecode = (\<lambda>k. Inr \<lparr>cid_Defined = True, cid_Hash = k\<rparr>),
     sl_PeerString = (\<lambda>p. p), sl_AddrString = (\<lambda>a. a), sl_ErrString = (\<lambda>e. ''error''), sl_Since = ''1s'',
     sl_Stats = (\<lambda>i. (int i + 1, int i, 0))\<rparr>"

lemma find_peer_trace_witness:
  "\<exists>contacted outcome. runFindPeer demo_scout demo_node 0 ''t'' = (contacted_lines demo_scout contacted @ outcome, 0) \<and>
     last contacted = ''t'' \<and> length outcome = 2"
proof -
  have q: "n_QueryClosest demo_node 0 (PeerID_Key (d_hash demo_node) ''t'') 20 =
      (([(''x'', None), (''t'', None), (''y'', None)], None), 0)"
    by (simp add: demo_node_def)
  have "sl_PeerDecode demo_scout ''t'' = Inr ''t''" "\<not> n_Connected demo_node 0 ''t''" "''t'' \<noteq> []"
    by (simp_all add: demo_scout_def demo_node_def)
  from find_peer_trace [OF this(1,3,2) q] obtain contacted outcome where
    "runFindPeer demo_scout demo_node 0 ''t'' = (contacted_lines demo_scout contacted @ outcome, 0)"
    "last contacted = ''t''" "length outcome = 1 + length (ai_Addrs (d_PeerInfo demo_node 0 ''t''))"
    by auto
  then show ?thesis by (intro exI [of _ contacted] exI [of _ outcome]) (simp add: demo_node_def)
qed

text \<open>
  The command line handles every input: it never reads past the words of a line, and it starts a
  search exactly for a line whose first word is the command and that has a second word, which is what is
  searched.
\<close>
lemma command_line_total:
  "\<exists>acts. input_done key input = Inr acts \<and>
     (\<forall>arg. RunFindPeer arg \<in> set acts \<longleftrightarrow>
        key = KeyEnter \<and> (\<exists>rest. Fields (TrimSpace input) = ''findpeer'' # arg # rest)) \<and>
     (\<forall>arg. RunFindProviders arg \<in> set acts \<longleftrightarrow>
        key = KeyEnter \<and> (\<exists>rest. Fields (TrimSpace input) = ''findproviders'' # arg # rest)) \<and>
     (Stop \<in> set acts \<longleftrightarrow> key = KeyEnter \<and> (\<exists>rest. Fields (TrimSpace input) = ''exit'' # rest))"
proof (cases "key = KeyEnter \<and> TrimSpace input \<noteq> []")
  case True
  then obtain cmd args where f: "Fields (TrimSpace input) = cmd # args"
    using Fields_TrimSpace [of input] by (cases "Fields (TrimSpace input)") auto
  then show ?thesis using True by (auto simp: input_done_def Let_def split: list.split)
next
  case False
  then show ?thesis by (auto simp: input_done_def Let_def Fields_def)
qed

text \<open>
  A start of the tool that succeeds gives a node in the mode of the flag, which is one of the two
  it knows, with a valid configuration; the node serves requests exactly in server mode.
\<close>
lemma scout_start_mode:
  assumes "scout_run L io fl = Inr (Inr (d, h))"
  shows "t_mode d = fl_mode fl \<and> fl_mode fl \<in> {modeClient, modeServer} \<and>
         Config_Validate (t_cfg d) = None \<and>
         (cfg_ProtocolID (t_cfg d) \<in> set (h_Handlers h) \<longleftrightarrow> fl_mode fl = ''server'')"
proof -
  obtain h0 rt m where m: "scout_mode (fl_mode fl) = Inr m"
    and new: "New L h0 (Some (scout_config L rt m)) = (Inr (Inr d), h)"
    using assms
    by (auto simp: scout_run_def split: if_splits option.splits sum.splits prod.splits)
  note node = New_node [OF new]
  have cfg: "used_config L (Some (scout_config L rt m)) = scout_config L rt m" "t_cfg d = scout_config L rt m"
    using node(1) by (simp_all add: used_config_def mode_inv_def)
  have mode: "cfg_Mode (scout_config L rt m) = m" by (simp add: scout_config_def)
  have "t_mode d = fl_mode fl" "fl_mode fl \<in> {modeClient, modeServer}"
    using m node(6) mode cfg(1)
    by (auto simp: scout_mode_def modeClient_def modeServer_def ModeOpt_defs split: if_splits)
  moreover have "Config_Validate (t_cfg d) = None" using node(8) cfg(2) by simp
  moreover have "cfg_ProtocolID (t_cfg d) \<in> set (h_Handlers h) \<longleftrightarrow> t_mode d = modeServer"
    using node(1) unfolding mode_inv_def serves_def fst_conv snd_conv by blast
  ultimately show ?thesis by (simp add: modeServer_def)
qed

end
