(* ===== verification/Tui.thy ===== *)
theory Tui
  imports ScoutProps
begin

text \<open>
  The terminal interface of the tool (\<open>runTUI\<close> in \<open>cmd/scout/main.go\<close>). Everything that changes the
  screen runs on the event loop of the application: the functions that handle keys, and the functions
  that the other goroutines pass to \<open>QueueUpdateDraw\<close>, which returns when its function has run. The
  goroutines are that of the refresh, one for each query and one that waits for the context. Their
  interleavings with the keys of the user are the step relation \<open>tui_step\<close>. The content of a panel is
  what was written to it; layout and drawing are the library's.
\<close>

section \<open>Queries\<close>

definition helpText :: string where
  "helpText = ''commands: findpeer <peerid>, findproviders <cid>, exit''"

datatype tui_update = TraceLine string | StatusText string
datatype query = FindPeerQuery bytes | FindProvidersQuery bytes

text \<open>What the goroutine of a query passes to \<open>QueueUpdateDraw\<close>, in order.\<close>

definition query_lines ::
  "('m, 'y) scout_lib_scheme \<Rightarrow> ('w, 'm, 'b, 'z) Node_scheme \<Rightarrow> 'w \<Rightarrow> query \<Rightarrow> string list" where
  "query_lines L N w q =
     (case q of
        FindPeerQuery pid \<Rightarrow> (''findpeer '' @ pid) # fst (runFindPeer L N w pid)
      | FindProvidersQuery key \<Rightarrow> (''findproviders '' @ key) # fst (runFindProviders L N w key))"

definition query_updates ::
  "('m, 'y) scout_lib_scheme \<Rightarrow> ('w, 'm, 'b, 'z) Node_scheme \<Rightarrow> 'w \<Rightarrow> query \<Rightarrow> tui_update list" where
  "query_updates L N w q = map TraceLine (query_lines L N w q) @ [StatusText helpText]"

text \<open>A query that was started: the updates that were drawn and those that are still to come.\<close>

record job =
  j_query :: query
  j_done :: "tui_update list"
  j_todo :: "tui_update list"

section \<open>State\<close>

text \<open>The refresh goroutine waits for its tickers, for an update to be drawn, or has returned.\<close>

datatype refresher = Waiting | DrawTable string string | DrawSize | Returned

record tui = panels +
  u_trace :: "string list"
  u_status :: string
  u_input :: string
  u_jobs :: "job list"
  u_refresh :: refresher
  u_cancelled :: bool                      \<comment> \<open>the context\<close>
  u_stopped :: bool                        \<comment> \<open>\<open>app.Stop\<close> was called\<close>
  u_result :: "goerr option option"        \<comment> \<open>what \<open>runTUI\<close> returned\<close>

text \<open>
  \<open>SetMaxLines\<close>: a text view that is drawn drops its first rows so as to have no more than \<open>n\<close>. The panel of the
  traces is drawn after each line that is written to it.
\<close>

definition max_lines :: "nat \<Rightarrow> 'a list \<Rightarrow> 'a list" where
  "max_lines n rows = drop (length rows - n) rows"

text \<open>
  What the panels read: the routing table, the metrics and the estimate of the network size; and the rows into which
  the text view of the library breaks a line that is written to it, at newlines and at its width, which does not change.
\<close>

record ('rt, 'f) sources =
  src_Size :: "'rt \<Rightarrow> int"
  src_table :: "'rt table_ops"
  src_floats :: "'f float_ops"
  src_ErrString :: "goerr \<Rightarrow> string"
  src_Rows :: "string \<Rightarrow> string list"

text \<open>The first contents: the table may have changed when the metrics are read.\<close>

definition tui_start ::
  "('rt, 'f) sources \<Rightarrow> 'rt \<times> string \<Rightarrow> (goerr + estimate) \<times> string
     \<Rightarrow> (goerr + (string \<times> 'f metric_data) list list) \<times> 'rt \<Rightarrow> tui" where
  "tui_start S table estim metrics =
     \<lparr>rtPanel = rtText (src_Size S) (src_table S) (fst table) (snd table),
      nsPanel = nsText (src_ErrString S) (snd estim) (fst estim),
      metricsPanel = metricsText (src_floats S) (src_ErrString S) (src_table S) (fst metrics) (snd metrics),
      u_trace = [], u_status = helpText, u_input = [], u_jobs = [], u_refresh = Waiting,
      u_cancelled = False, u_stopped = False, u_result = None\<rparr>"

section \<open>Steps\<close>

fun draw :: "('rt, 'f) sources \<Rightarrow> tui_update \<Rightarrow> tui \<Rightarrow> tui" where
  "draw S (TraceLine line) s = s\<lparr>u_trace := max_lines 500 (u_trace s @ src_Rows S line)\<rparr>"
| "draw S (StatusText t) s = s\<lparr>u_status := t\<rparr>"

definition start_query :: "(query \<Rightarrow> tui_update list) \<Rightarrow> query \<Rightarrow> tui \<Rightarrow> tui" where
  "start_query updates q s = s\<lparr>u_jobs := u_jobs s @ [\<lparr>j_query = q, j_done = [], j_todo = updates q\<rparr>]\<rparr>"

fun perform :: "(query \<Rightarrow> tui_update list) \<Rightarrow> tui_action \<Rightarrow> tui \<Rightarrow> tui" where
  "perform updates (SetInput t) s = s\<lparr>u_input := t\<rparr>"
| "perform updates (SetStatus t) s = s\<lparr>u_status := t\<rparr>"
| "perform updates Stop s = s\<lparr>u_cancelled := True, u_stopped := True\<rparr>"
| "perform updates (RunFindPeer pid) s = start_query updates (FindPeerQuery pid) s"
| "perform updates (RunFindProviders key) s = start_query updates (FindProvidersQuery key) s"

text \<open>
  The text of a query depends on the world in which it runs and on the clock, which are given when it
  starts. The event loop runs until \<open>Run\<close> returns: after \<open>Stop\<close>, at any time, or with an error.
\<close>

inductive tui_step ::
  "('rt, 'f) sources \<Rightarrow> 'm scout_lib \<Rightarrow> ('w, 'm, 'b, 'z) Node_scheme \<Rightarrow> tui \<Rightarrow> tui \<Rightarrow> bool"
  for S :: "('rt, 'f) sources" and L :: "'m scout_lib" and N :: "('w, 'm, 'b, 'z) Node_scheme" where
  typed: "u_result s = None \<Longrightarrow> tui_step S L N s (s\<lparr>u_input := t\<rparr>)"
| captured: "u_result s = None \<Longrightarrow> input_capture key = (None, acts) \<Longrightarrow>
             tui_step S L N s (fold (perform (\<lambda>q. [])) acts s)"
| entered: "u_result s = None \<Longrightarrow> input_capture key = (Some key', acts) \<Longrightarrow>
            input_done key' (u_input s) = Inr acts' \<Longrightarrow>
            tui_step S L N s
              (fold (perform (query_updates (L\<lparr>sl_Since := since, sl_Stats := stats\<rparr>) N w)) acts' s)"
| query: "u_result s = None \<Longrightarrow> i < length (u_jobs s) \<Longrightarrow> j = u_jobs s ! i \<Longrightarrow> j_todo j = u # us \<Longrightarrow>
          tui_step S L N s
            ((draw S u s)\<lparr>u_jobs := (u_jobs s)[i := j\<lparr>j_done := j_done j @ [u], j_todo := us\<rparr>]\<rparr>)"
| tick: "u_refresh s = Waiting \<Longrightarrow>
         tui_step S L N s (s\<lparr>u_refresh := DrawTable (rtText (src_Size S) (src_table S) rt elapsed)
           (metricsText (src_floats S) (src_ErrString S) (src_table S) snapshot rt')\<rparr>)"
| size_tick: "u_refresh s = Waiting \<Longrightarrow> tui_step S L N s (s\<lparr>u_refresh := DrawSize\<rparr>)"
| table_drawn: "u_result s = None \<Longrightarrow> u_refresh s = DrawTable rt_line metrics_line \<Longrightarrow>
         tui_step S L N s (s\<lparr>rtPanel := rt_line, metricsPanel := metrics_line, u_refresh := Waiting\<rparr>)"
| size_drawn: "u_result s = None \<Longrightarrow> u_refresh s = DrawSize \<Longrightarrow>
         tui_step S L N s (s\<lparr>nsPanel := nsText (src_ErrString S) elapsed est, u_refresh := Waiting\<rparr>)"
| refresh_ends: "u_refresh s = Waiting \<Longrightarrow> u_cancelled s \<Longrightarrow> tui_step S L N s (s\<lparr>u_refresh := Returned\<rparr>)"
| interrupted: "tui_step S L N s (s\<lparr>u_cancelled := True\<rparr>)"
| context_done: "u_cancelled s \<Longrightarrow> tui_step S L N s (s\<lparr>u_stopped := True\<rparr>)"
| returns: "u_result s = None \<Longrightarrow> u_stopped s \<Longrightarrow> tui_step S L N s (s\<lparr>u_result := Some None\<rparr>)"
| fails: "u_result s = None \<Longrightarrow> tui_step S L N s (s\<lparr>u_result := Some (Some (Wrapf ''run tui'' err))\<rparr>)"

abbreviation tui_runs where "tui_runs S L N \<equiv> (tui_step S L N)\<^sup>*\<^sup>*"

section \<open>The whole run of the tool\<close>

text \<open>
  \<open>run\<close> ends with the result of the interface; its deferred calls close the node, in the state that it has
  reached by then.
\<close>

definition scout_session ::
  "('m, 'rt, 'p, 'r, 'ds, 'ks, 'k) libs \<Rightarrow> 'm scout_io \<Rightarrow> flags
     \<Rightarrow> (('m, 'rt, 'p, 'r, 'ds, 'ks, 'k) node \<times> 'm host \<Rightarrow> ('m, 'rt, 'p, 'r, 'ds, 'ks, 'k) node \<times> 'm host)
     \<Rightarrow> goerr option
     \<Rightarrow> (goerr option \<times> (('m, 'rt, 'p, 'r, 'ds, 'ks, 'k) node \<times> 'm host) option) may_panic" where
  "scout_session L io fl life tui_result =
     (case scout_run L io fl of
        Inl panic \<Rightarrow> Inl panic
      | Inr (Inl err) \<Rightarrow> Inr (Some err, None)
      | Inr (Inr s) \<Rightarrow> Inr (tui_result, Some (snd (Close L (life s)))))"

text \<open>What \<open>main\<close> prints to the error output, and the exit status.\<close>

definition main_exit :: "(goerr \<Rightarrow> string) \<Rightarrow> goerr option \<Rightarrow> string list \<times> int" where
  "main_exit err_string r =
     (case r of None \<Rightarrow> ([], 0) | Some err \<Rightarrow> ([''error: '' @ err_string err], 1))"

lemma session_closes:
  assumes "scout_session L io fl life r = Inr (r', Some (d, h))"
  shows "t_stopped d"
proof -
  obtain s where "Close L (life s) = (fst (Close L (life s)), d, h)"
    using assms by (auto simp: scout_session_def prod_eq_iff split: sum.splits)
  then show ?thesis by (auto simp: Close_def Let_def split: prod.splits if_splits)
qed

section \<open>What the trace panel shows\<close>

lemma max_lines_length: "length (max_lines n rows) \<le> n"
  by (simp add: max_lines_def)

lemma max_lines_append [simp]: "max_lines n (max_lines n xs @ ys) = max_lines n (xs @ ys)"
  by (cases "length xs \<le> n") (auto simp: max_lines_def add.commute)

text \<open>The rows that are left of lines that were written.\<close>

definition panel_rows :: "('rt, 'f) sources \<Rightarrow> string list \<Rightarrow> string list" where
  "panel_rows S lines = max_lines 500 (concat (map (src_Rows S) lines))"

lemma panel_rows_snoc [simp]:
  "panel_rows S [] = []" "panel_rows S (lines @ [line]) = max_lines 500 (panel_rows S lines @ src_Rows S line)"
  by (simp_all add: panel_rows_def max_lines_def [of 500 "[]"])

fun trace_of :: "tui_update list \<Rightarrow> string list" where
  "trace_of [] = []"
| "trace_of (TraceLine line # us) = line # trace_of us"
| "trace_of (StatusText t # us) = trace_of us"

lemma trace_of_append [simp]: "trace_of (us @ vs) = trace_of us @ trace_of vs"
  by (induction us rule: trace_of.induct) auto

lemma trace_of_lines [simp]: "trace_of (map TraceLine ls) = ls"
  by (induction ls) auto

lemma trace_of_query [simp]: "trace_of (query_updates L N w q) = query_lines L N w q"
  by (simp add: query_updates_def)

text \<open>All merges of several lists that keep the order of each.\<close>

fun merges :: "'a list list \<Rightarrow> 'a list set" where
  "merges [] = {[]}"
| "merges (xs # xss) = (\<Union>ys \<in> merges xss. shuffles xs ys)"

lemma shuffles_single: "ys @ [z] \<in> shuffles [z] ys" "ys @ [z] \<in> shuffles ys [z]"
  by (induction ys) auto

lemma shuffles_snoc:
  assumes "zs \<in> shuffles xs ys"
  shows "zs @ [z] \<in> shuffles (xs @ [z]) ys" and "zs @ [z] \<in> shuffles xs (ys @ [z])"
  using assms
proof (induction xs ys arbitrary: zs rule: shuffles.induct)
  case (3 x xs y ys)
  { case 1 then show ?case using 3 by auto }
  { case 2 then show ?case using 3 by auto }
qed (simp_all add: shuffles_single)

lemma merges_snoc:
  "i < length xss \<Longrightarrow> zs \<in> merges xss \<Longrightarrow> zs @ [z] \<in> merges (xss[i := xss ! i @ [z]])"
proof (induction xss arbitrary: i zs)
  case (Cons xs xss)
  obtain ys where ys: "ys \<in> merges xss" "zs \<in> shuffles xs ys" using Cons.prems(2) by auto
  show ?case
  proof (cases i)
    case 0
    then show ?thesis using ys shuffles_snoc(1) [OF ys(2)] by auto
  next
    case (Suc k)
    then show ?thesis using Cons.IH [of k ys] Cons.prems(1) ys shuffles_snoc(2) [OF ys(2)] by auto
  qed
qed simp

lemma merges_new: "merges (xss @ [[]]) = merges xss"
  by (induction xss) auto

text \<open>The updates of a started query are those of a run of it in some world.\<close>

definition answers :: "'m scout_lib \<Rightarrow> ('w, 'm, 'b, 'z) Node_scheme \<Rightarrow> job \<Rightarrow> string list \<Rightarrow> bool" where
  "answers L N j ls \<longleftrightarrow>
     (\<exists>w since stats. ls = query_lines (L\<lparr>sl_Since := since, sl_Stats := stats\<rparr>) N w (j_query j)) \<and>
     j_done j @ j_todo j = map TraceLine ls @ [StatusText helpText]"

definition tui_inv :: "('rt, 'f) sources \<Rightarrow> 'm scout_lib \<Rightarrow> ('w, 'm, 'b, 'z) Node_scheme \<Rightarrow> tui \<Rightarrow> bool" where
  "tui_inv S L N s \<longleftrightarrow>
     (\<exists>m \<in> merges (map (trace_of \<circ> j_done) (u_jobs s)). u_trace s = panel_rows S m) \<and>
     (\<forall>j \<in> set (u_jobs s). \<exists>ls. answers L N j ls) \<and>
     (u_stopped s \<longrightarrow> u_cancelled s) \<and> (u_refresh s = Returned \<longrightarrow> u_cancelled s) \<and>
     (u_result s = Some None \<longrightarrow> u_stopped s)"

lemma tui_invD:
  assumes "tui_inv S L N s"
  shows "\<exists>m \<in> merges (map (trace_of \<circ> j_done) (u_jobs s)). u_trace s = panel_rows S m"
    and "\<forall>j \<in> set (u_jobs s). \<exists>ls. answers L N j ls"
    and "u_result s = Some None \<or> u_refresh s = Returned \<longrightarrow> u_cancelled s"
  using assms unfolding tui_inv_def by simp_all

lemma start_query_inv:
  assumes "tui_inv S L N s"
  shows "tui_inv S L N (start_query (query_updates (L\<lparr>sl_Since := since, sl_Stats := stats\<rparr>) N w) q s)"
proof -
  let ?j = "\<lparr>j_query = q, j_done = [], j_todo = query_updates (L\<lparr>sl_Since := since, sl_Stats := stats\<rparr>) N w q\<rparr>"
  have "answers L N ?j (query_lines (L\<lparr>sl_Since := since, sl_Stats := stats\<rparr>) N w q)"
    by (auto simp: answers_def query_updates_def)
  then show ?thesis using assms by (auto simp: tui_inv_def start_query_def merges_new)
qed

lemma perform_inv:
  assumes "tui_inv S L N s"
  shows "tui_inv S L N (perform (query_updates (L\<lparr>sl_Since := since, sl_Stats := stats\<rparr>) N w) act s)"
proof (cases act)
  case (RunFindPeer pid)
  then show ?thesis using start_query_inv [OF assms] by simp
next
  case (RunFindProviders key)
  then show ?thesis using start_query_inv [OF assms] by simp
qed (use assms in \<open>auto simp: tui_inv_def\<close>)

lemma performs_inv:
  "tui_inv S L N s \<Longrightarrow>
   tui_inv S L N (fold (perform (query_updates (L\<lparr>sl_Since := since, sl_Stats := stats\<rparr>) N w)) acts s)"
  by (induction acts arbitrary: s) (auto intro: perform_inv)

lemma query_step_inv:
  assumes inv: "tui_inv S L N s" and i: "i < length (u_jobs s)" and j: "j_todo (u_jobs s ! i) = u # us"
  shows "tui_inv S L N ((draw S u s)\<lparr>u_jobs :=
           (u_jobs s)[i := (u_jobs s ! i)\<lparr>j_done := j_done (u_jobs s ! i) @ [u], j_todo := us\<rparr>]\<rparr>)"
    (is "tui_inv S L N (_\<lparr>u_jobs := _[i := ?j]\<rparr>)")
proof -
  let ?dones = "map (trace_of \<circ> j_done) (u_jobs s)"
  have "\<exists>ls. answers L N ?j ls"
    using inv nth_mem [OF i] j by (fastforce simp: tui_inv_def answers_def)
  moreover have "map (trace_of \<circ> j_done) ((u_jobs s)[i := ?j]) = ?dones[i := ?dones ! i @ trace_of [u]]"
    using i by (simp add: map_update)
  moreover have "\<exists>m \<in> merges (?dones[i := ?dones ! i @ trace_of [u]]). u_trace (draw S u s) = panel_rows S m"
  proof -
    obtain m where m: "m \<in> merges ?dones" "u_trace s = panel_rows S m" using tui_invD(1) [OF inv] by blast
    show ?thesis
    proof (cases u)
      case (TraceLine line)
      have "m @ [line] \<in> merges (?dones[i := ?dones ! i @ [line]])" using merges_snoc [of i ?dones m] i m(1) by simp
      then show ?thesis using TraceLine m(2) by (intro bexI [of _ "m @ [line]"]) simp_all
    next
      case (StatusText t)
      then show ?thesis using m list_update_id [of ?dones i] i by auto
    qed
  qed
  moreover have "\<forall>j \<in> set ((u_jobs s)[i := ?j]). \<exists>ls. answers L N j ls"
    using inv calculation(1) set_update_subset_insert [of "u_jobs s" i ?j] by (auto simp: tui_inv_def)
  ultimately show ?thesis using inv by (cases u) (auto simp: tui_inv_def)
qed

lemma tui_step_inv: "tui_step S L N s s' \<Longrightarrow> tui_inv S L N s \<Longrightarrow> tui_inv S L N s'"
proof (induction rule: tui_step.induct)
  case (captured s key acts)
  then show ?case by (cases key) (auto simp: input_capture_def tui_inv_def)
next
  case (entered s key key' acts acts' since stats w)
  then show ?case by (simp add: performs_inv)
next
  case (query s i j u us)
  then show ?case using query_step_inv [of S L N s i u us] by simp
qed (auto simp: tui_inv_def)

lemma tui_runs_inv: "tui_runs S L N s s' \<Longrightarrow> tui_inv S L N s \<Longrightarrow> tui_inv S L N s'"
  by (induction rule: rtranclp_induct) (auto intro: tui_step_inv)

lemma tui_start_inv: "tui_inv S L N (tui_start S table estim metrics)"
  by (simp add: tui_inv_def tui_start_def)

section \<open>Queries finish\<close>

definition finished :: "job \<Rightarrow> job" where
  "finished j = j\<lparr>j_done := j_done j @ j_todo j, j_todo := []\<rparr>"

lemma finished_same: "j_todo j = [] \<Longrightarrow> finished j = j"
  by (simp add: finished_def)

fun status_after :: "tui_update list \<Rightarrow> string \<Rightarrow> string" where
  "status_after [] t = t"
| "status_after (TraceLine line # us) t = status_after us t"
| "status_after (StatusText t' # us) t = status_after us t'"

lemma status_after_last [simp]: "status_after (us @ [StatusText t']) t = t'"
  by (induction us t rule: status_after.induct) auto

text \<open>Nothing holds up the updates of a query while the interface runs.\<close>

lemma query_can_finish:
  assumes "u_result s = None" "i < length (u_jobs s)"
  shows "\<exists>s'. tui_runs S L N s s' \<and> u_jobs s' = (u_jobs s)[i := finished (u_jobs s ! i)] \<and>
           u_result s' = None \<and> u_status s' = status_after (j_todo (u_jobs s ! i)) (u_status s)"
  using assms
proof (induction "j_todo (u_jobs s ! i)" arbitrary: s)
  case Nil
  then show ?case by (intro exI [of _ s]) (auto simp: finished_same)
next
  case (Cons u us)
  let ?j = "u_jobs s ! i"
  let ?j' = "?j\<lparr>j_done := j_done ?j @ [u], j_todo := us\<rparr>"
  let ?s = "(draw S u s)\<lparr>u_jobs := (u_jobs s)[i := ?j']\<rparr>"
  have one: "tui_step S L N s ?s" using Cons.hyps(2) Cons.prems by (intro tui_step.query) auto
  have job: "u_jobs ?s ! i = ?j'" "i < length (u_jobs ?s)" using Cons.prems(2) by simp_all
  have same: "u_result ?s = None" using Cons.prems(1) by (cases u) simp_all
  have fin: "finished ?j' = finished ?j" using Cons.hyps(2) by (simp add: finished_def)
  have status: "status_after us (u_status ?s) = status_after (j_todo ?j) (u_status s)"
    unfolding Cons.hyps(2) [symmetric] by (cases u) simp_all
  obtain s' where "tui_runs S L N ?s s'" "u_jobs s' = (u_jobs ?s)[i := finished ?j']" "u_result s' = None"
      "u_status s' = status_after us (u_status ?s)"
    using Cons.hyps(1) [of ?s] job same by auto
  then show ?case using one fin status by (intro exI [of _ s']) (auto intro: converse_rtranclp_into_rtranclp)
qed

lemma all_queries_can_finish:
  assumes "u_result s = None" "n \<le> length (u_jobs s)"
  shows "\<exists>s'. tui_runs S L N s s' \<and> u_result s' = None \<and>
           u_jobs s' = map finished (take n (u_jobs s)) @ drop n (u_jobs s)"
  using assms
proof (induction n)
  case 0
  then show ?case by auto
next
  case (Suc n)
  then obtain s1 where s1: "tui_runs S L N s s1" "u_result s1 = None"
    "u_jobs s1 = map finished (take n (u_jobs s)) @ drop n (u_jobs s)" by auto
  have n: "n < length (u_jobs s)" using Suc.prems(2) by simp
  have "n < length (u_jobs s1)" using n s1(3) by simp
  then obtain s2 where s2: "tui_runs S L N s1 s2" "u_result s2 = None"
    "u_jobs s2 = (u_jobs s1)[n := finished (u_jobs s1 ! n)]"
    using query_can_finish [OF s1(2), of n S L N] by blast
  have "u_jobs s2 = map finished (take (Suc n) (u_jobs s)) @ drop (Suc n) (u_jobs s)"
    unfolding s2(3) s1(3) using n
    by (simp add: take_Suc_conv_app_nth nth_append list_update_append Cons_nth_drop_Suc [symmetric])
  then show ?case using s1(1) s2(1,2) by (intro exI [of _ s2]) (auto intro: rtranclp_trans)
qed

text \<open>Entering a line that starts a search for a peer.\<close>

lemma enter_findpeer:
  assumes "u_result s = None"
    and "input_done KeyEnter line = Inr [SetInput [], SetStatus t, RunFindPeer pid]"
  shows "\<exists>s'. tui_runs S L N s s' \<and> u_result s' = None \<and>
           (\<exists>us. u_jobs s' = u_jobs s @
              [\<lparr>j_query = FindPeerQuery pid, j_done = [], j_todo = us @ [StatusText helpText]\<rparr>])"
proof -
  let ?L = "L\<lparr>sl_Since := sl_Since L, sl_Stats := sl_Stats L\<rparr>"
  let ?s = "s\<lparr>u_input := line\<rparr>"
  let ?s' = "fold (perform (query_updates ?L N undefined)) [SetInput [], SetStatus t, RunFindPeer pid] ?s"
  have "tui_step S L N s ?s" using assms(1) by (rule tui_step.typed)
  moreover have "tui_step S L N ?s ?s'"
    using assms by (intro tui_step.entered [where key = KeyEnter and key' = KeyEnter])
      (simp_all add: input_capture_def)
  ultimately have "tui_runs S L N s ?s'" by (meson converse_rtranclp_into_rtranclp rtranclp.rtrancl_refl)
  then show ?thesis using assms(1)
    by (intro exI [of _ ?s']) (simp add: start_query_def query_updates_def)
qed

lemma trim_left_solid: "solid w \<Longrightarrow> trim_left (w @ s) = (if w = [] then trim_left s else w @ s)"
  by (cases w) (auto simp: trim_left.simps(2))

lemma trim_right_word: "solid v \<Longrightarrow> trim_right v = v"
  by (induction v) (auto simp: trim_left.simps(2) trim_right.simps(2))

lemma trim_right_words: "solid w \<Longrightarrow> solid v \<Longrightarrow> v \<noteq> [] \<Longrightarrow> trim_right (w @ CHR '' '' # v) = w @ CHR '' '' # v"
proof (induction w)
  case Nil
  then show ?case using trim_left_solid [of v "[]"] trim_right_word [of v]
    by (simp add: trim_left.simps(2) trim_right.simps(2))
qed (auto simp: trim_left.simps(2) trim_right.simps(2))

lemma enter_words:
  assumes "solid w" "w \<noteq> []" "solid v" "v \<noteq> []"
  shows "Fields (TrimSpace (w @ CHR '' '' # v)) = [w, v]" and "TrimSpace (w @ CHR '' '' # v) \<noteq> []"
  using assms trim_left_solid [of w "CHR '' '' # v"] trim_right_words [of w v]
    fields_word [of w "[]" v] fields_solid [of v "[]"]
  by (simp_all add: TrimSpace_def Fields_def)

lemma findpeer_entered:
  assumes "solid pid" "pid \<noteq> []"
  shows "input_done KeyEnter (''findpeer'' @ CHR '' '' # pid) =
           Inr [SetInput [], SetStatus (''finding '' @ pid @ '' ...''), RunFindPeer pid]"
proof -
  have "solid ''findpeer''" by (simp add: ascii_solid)
  then show ?thesis using assms enter_words [of "''findpeer''" pid] by (simp add: input_done_def Let_def)
qed

lemma letters_solid: "solid ''a''" "solid ''b''"
  by (simp_all add: ascii_solid)

lemmas findpeer_lines = findpeer_entered [OF letters_solid(1), simplified]
  findpeer_entered [OF letters_solid(2), simplified]

text \<open>
  The status line says that the tool is idle while a search is running: the search that ends first
  resets it, whatever the user started in between.
\<close>
lemma status_idle_early:
  "\<exists>s. tui_runs S L N (tui_start S table estim metrics) s \<and> u_status s = helpText \<and>
       (\<exists>j \<in> set (u_jobs s). j_query j = FindPeerQuery ''a'' \<and> j_todo j \<noteq> [])"
proof -
  let ?s0 = "tui_start S table estim metrics"
  obtain s1 us where s1: "tui_runs S L N ?s0 s1" "u_result s1 = None"
      "u_jobs s1 = [\<lparr>j_query = FindPeerQuery ''a'', j_done = [], j_todo = us @ [StatusText helpText]\<rparr>]"
    using enter_findpeer [of ?s0 _ _ _ S L N, OF _ findpeer_lines(1)] by (auto simp: tui_start_def)
  obtain s2 vs where s2: "tui_runs S L N s1 s2" "u_result s2 = None"
      "u_jobs s2 = u_jobs s1 @ [\<lparr>j_query = FindPeerQuery ''b'', j_done = [], j_todo = vs @ [StatusText helpText]\<rparr>]"
    using enter_findpeer [of s1 _ _ _ S L N, OF s1(2) findpeer_lines(2)] by auto
  obtain s3 where s3: "tui_runs S L N s2 s3" "u_jobs s3 = (u_jobs s2)[1 := finished (u_jobs s2 ! 1)]"
      "u_status s3 = status_after (j_todo (u_jobs s2 ! 1)) (u_status s2)"
    using query_can_finish [OF s2(2), of 1 S L N] s1(3) s2(3) by auto
  have "tui_runs S L N ?s0 s3" using s1(1) s2(1) s3(1) by (meson rtranclp_trans)
  then show ?thesis using s1(3) s2(3) s3(2,3) by (intro exI [of _ s3]) simp
qed

text \<open>
  C39: What the user sees of searches that run at the same time: the trace panel holds the last 500 rows of a merge of
  what the searches have drawn so far, each in its own order, and each of them draws its command
  line, then the lines of its run and then the help text. Once all have drawn everything it is the end of a merge of all
  their lines, and while the interface runs nothing keeps them from doing so. The interface ends
  without an error, and the refresh stops, only after the context was cancelled; it may end with an error at any time.
\<close>
theorem tui_shows_queries:
  assumes "tui_runs S L N (tui_start S table estim metrics) s"
  shows "(\<exists>m \<in> merges (map (trace_of \<circ> j_done) (u_jobs s)). u_trace s = panel_rows S m) \<and> length (u_trace s) \<le> 500 \<and>
         (\<forall>j \<in> set (u_jobs s). \<exists>ls. answers L N j ls) \<and>
         ((\<forall>j \<in> set (u_jobs s). j_todo j = []) \<longrightarrow>
            (\<exists>lss. list_all2 (answers L N) (u_jobs s) lss \<and> (\<exists>m \<in> merges lss. u_trace s = panel_rows S m))) \<and>
         (u_result s = None \<longrightarrow>
            (\<exists>s'. tui_runs S L N s s' \<and> u_result s' = None \<and> map j_query (u_jobs s') = map j_query (u_jobs s) \<and>
               (\<forall>j \<in> set (u_jobs s'). j_todo j = []))) \<and>
         (u_result s = Some None \<or> u_refresh s = Returned \<longrightarrow> u_cancelled s)"
    (is "?panel \<and> _ \<and> ?answers \<and> ?complete \<and> ?finish \<and> _")
proof -
  have inv: "tui_inv S L N s" using tui_runs_inv [OF assms tui_start_inv] .
  have "answers L N j (trace_of (j_done j))" if j: "j \<in> set (u_jobs s)" "j_todo j = []" for j
  proof -
    obtain ls where "answers L N j ls" using tui_invD(2) [OF inv] j(1) by blast
    then show ?thesis using j(2) by (auto simp: answers_def)
  qed
  then have "?complete"
    using tui_invD(1) [OF inv]
    by (intro impI exI [of _ "map (trace_of \<circ> j_done) (u_jobs s)"]) (simp add: list_all2_conv_all_nth)
  moreover have "?finish"
  proof
    assume r: "u_result s = None"
    obtain s' where s': "tui_runs S L N s s'" "u_result s' = None" "u_jobs s' = map finished (u_jobs s)"
      using all_queries_can_finish [OF r, of "length (u_jobs s)" S L N] by auto
    then show "\<exists>s'. tui_runs S L N s s' \<and> u_result s' = None \<and> map j_query (u_jobs s') = map j_query (u_jobs s) \<and>
        (\<forall>j \<in> set (u_jobs s'). j_todo j = [])"
      by (intro exI [of _ s']) (auto simp: finished_def)
  qed
  moreover have "length (u_trace s) \<le> 500"
    using tui_invD(1) [OF inv] max_lines_length by (auto simp: panel_rows_def)
  ultimately show ?thesis using tui_invD [OF inv] by blast
qed

definition demo_sources :: "(nat, int) sources" where
  "demo_sources = \<lparr>src_Size = int, src_table = \<lparr>rt_Size = Some int, rt_CplSize = (\<lambda>rt cpl. 0)\<rparr>,
     src_floats = \<lparr>f_zero = 0, f_add = (+), f_of_int = id, f_to_int = id\<rparr>, src_ErrString = (\<lambda>e. ''error''),
     src_Rows = (\<lambda>line. [line])\<rparr>"

lemma tui_shows_queries_witness:
  "\<exists>s lss m. tui_runs demo_sources demo_scout demo_node
        (tui_start demo_sources (3, ''0s'') (Inl ErrNotFound, ''0s'') (Inr [], 3)) s \<and>
      map j_query (u_jobs s) = [FindPeerQuery ''a''] \<and>
      list_all2 (answers demo_scout demo_node) (u_jobs s) lss \<and> m \<in> merges lss \<and> u_trace s = panel_rows demo_sources m"
proof -
  let ?s0 = "tui_start demo_sources (3, ''0s'') (Inl ErrNotFound, ''0s'') (Inr [], 3)"
  obtain s1 where s1: "tui_runs demo_sources demo_scout demo_node ?s0 s1" "u_result s1 = None"
      "map j_query (u_jobs s1) = [FindPeerQuery ''a'']"
    using enter_findpeer [of ?s0 _ _ _ demo_sources demo_scout demo_node, OF _ findpeer_lines(1)]
    by (auto simp: tui_start_def)
  obtain s2 where s2: "tui_runs demo_sources demo_scout demo_node s1 s2"
      "map j_query (u_jobs s2) = map j_query (u_jobs s1)" "\<forall>j \<in> set (u_jobs s2). j_todo j = []"
    using tui_shows_queries [OF s1(1)] s1(2) by auto
  have run: "tui_runs demo_sources demo_scout demo_node ?s0 s2" using rtranclp_trans [OF s1(1) s2(1)] .
  have "\<exists>lss. list_all2 (answers demo_scout demo_node) (u_jobs s2) lss \<and>
      (\<exists>m \<in> merges lss. u_trace s2 = panel_rows demo_sources m)"
    using tui_shows_queries [OF run] s2(3) by blast
  then show ?thesis using run s2(2) s1(3) by metis
qed

end
