(* ===== verification/MeterViews.thy ===== *)
theory MeterViews
  imports Telemetry Complex_Main "HOL-Library.Sublist"
begin

text \<open>
  The views of \<open>tele/tele.go\<close>: the options for a meter provider that give the histograms of a node
  their boundaries. A boundary is the number that its literal denotes. How a provider matches the
  name of an instrument with a pattern is a parameter with the documented meaning of a star.
\<close>

definition MeterName :: bytes where "MeterName = ''github.com/probe-lab/zikade''"
definition TracerName :: bytes where "TracerName = ''github.com/probe-lab/zikade''"

record view =
  vw_Name :: bytes
  vw_Scope :: bytes
  vw_Boundaries :: "rat list"

definition bytes_view :: view where
  "bytes_view =
     \<lparr>vw_Name = ''*_bytes'', vw_Scope = MeterName,
      vw_Boundaries = [1024, 2048, 4096, 16384, 65536, 262144, 1048576, 4194304, 16777216, 67108864, 268435456,
        1073741824, 4294967296]\<rparr>"

definition latency_view :: view where
  "latency_view =
     \<lparr>vw_Name = ''*_request_latency'', vw_Scope = MeterName,
      vw_Boundaries = [1 / 100, 5 / 100, 1 / 10, 3 / 10, 6 / 10, 8 / 10, 1, 2, 3, 4, 5, 6, 8, 10, 13, 16, 20, 25, 30,
        40, 50, 65, 80, 100, 130, 160, 200, 250, 300, 400, 500, 650, 800, 1000, 2000, 5000, 10000, 20000, 50000,
        100000]\<rparr>"

definition MeterProviderOpts :: "view list" where "MeterProviderOpts = [bytes_view, latency_view]"

text \<open>
  An instrument of a meter takes the views of its scope whose pattern matches its name. A star at the
  beginning matches anything.
\<close>

definition star_law :: "(bytes \<Rightarrow> bytes \<Rightarrow> bool) \<Rightarrow> bool" where
  "star_law matches \<longleftrightarrow>
     (\<forall>suf name. CHR ''*'' \<notin> set suf \<and> CHR ''?'' \<notin> set suf \<longrightarrow>
        (matches (CHR ''*'' # suf) name \<longleftrightarrow> suffix suf name))"

definition views_of :: "(bytes \<Rightarrow> bytes \<Rightarrow> bool) \<Rightarrow> bytes \<Rightarrow> bytes \<Rightarrow> view list" where
  "views_of matches scope name =
     filter (\<lambda>v. vw_Scope v = scope \<and> matches (vw_Name v) name) MeterProviderOpts"

lemma views_of_eq:
  assumes "star_law matches"
  shows "views_of matches MeterName name =
     (if suffix ''_bytes'' name then [bytes_view] else []) @
     (if suffix ''_request_latency'' name then [latency_view] else [])"
  using assms by (simp add: views_of_def MeterProviderOpts_def bytes_view_def latency_view_def star_law_def)

text \<open>
  A provider with these options gives exactly one view to every histogram of a node and none to its
  counters, and the boundaries of each view increase, as a histogram needs them.
\<close>
lemma histogram_views:
  assumes "star_law matches" "(kind, name) \<in> set instruments"
  shows "length (views_of matches MeterName name) = (if kind = Int64Counter then 0 else 1)"
  using assms(2) unfolding instruments_def
  by (auto simp: views_of_eq [OF assms(1)] suffix_Cons)

lemma boundaries_increase: "v \<in> set MeterProviderOpts \<Longrightarrow> sorted_wrt (<) (vw_Boundaries v)"
  by (auto simp: MeterProviderOpts_def bytes_view_def latency_view_def sorted_wrt1 sorted_wrt2 simp del: sorted_wrt.simps(2))

end
