(* ===== verification/KadTest.thy ===== *)
theory KadTest
  imports Prelude
begin

text \<open>
  The helpers of the tests (\<open>internal/kadtest\<close>): how long a test may run, and what it expects of a
  channel. Times and durations are nanoseconds. A select sees the first thing that happens: a value,
  the channel being closed, or the end of the context; a test goes on, has failed but goes on, or stops.
\<close>

definition Second :: int where "Second = 1000000000"

definition short_timeout :: "string \<Rightarrow> string \<Rightarrow> int" where
  "short_timeout goos goarch = (if goos = ''windows'' \<and> goarch = ''386'' then 60 * Second else 10 * Second)"

text \<open>The deadline of the context, given that of the test, if it has one.\<close>

definition CtxShort :: "string \<Rightarrow> string \<Rightarrow> int \<Rightarrow> int option \<Rightarrow> int" where
  "CtxShort goos goarch now test_deadline =
     (let goal = now + short_timeout goos goarch
      in case test_deadline of
           None \<Rightarrow> goal
         | Some deadline \<Rightarrow>
             (let deadline = deadline - Second in if deadline > goal then goal else deadline))"

definition CtxBubble :: "int \<Rightarrow> int" where "CtxBubble now = now + 10 * Second"

datatype 'a chan_event = Received 'a | Closed | ContextDone

datatype 'a test_result = GoesOn 'a | FailedGoesOn string | Stops string

definition ReadItem :: "'a chan_event \<Rightarrow> 'a test_result" where
  "ReadItem c =
     (case c of
        Received val \<Rightarrow> GoesOn val
      | Closed \<Rightarrow> Stops ''channel closed unexpectedly''
      | ContextDone \<Rightarrow> Stops ''timeout reading item'')"

definition AssertClosed :: "'a chan_event \<Rightarrow> unit test_result" where
  "AssertClosed c =
     (case c of
        Received val \<Rightarrow> FailedGoesOn ''Should be false''
      | Closed \<Rightarrow> GoesOn ()
      | ContextDone \<Rightarrow> Stops ''timeout closing channel'')"

text \<open>
  The context ends before the test does, leaving a second to report, and never later than its own
  timeout.
\<close>
lemma short_deadline:
  "CtxShort goos goarch now (Some d) = min (d - Second) (now + short_timeout goos goarch)"
  "CtxShort goos goarch now None = now + short_timeout goos goarch"
  by (simp_all add: CtxShort_def Let_def)

lemma channel_checks:
  "ReadItem c = GoesOn x \<longleftrightarrow> c = Received x"
  "AssertClosed c = GoesOn () \<longleftrightarrow> c = Closed"
  by (cases c; simp add: ReadItem_def AssertClosed_def)+

end
