(* ===== verification/PrefixFile.thy ===== *)
theory PrefixFile
  imports CplProps Scout
begin

text \<open>
  The file that \<open>gen.go\<close> writes (\<open>internal/cplutil/cpl_prefixmap.go\<close>): the table as the text of a Go array,
  sixteen numbers in a line. Reading the numbers of the text gives the table back, in order.
\<close>

text \<open>The name of the file, next to the one with the directive that runs the program.\<close>

definition target_file :: "string \<Rightarrow> string" where
  "target_file src =
     (if drop (length src - 3) src = ''.go'' then take (length src - 3) src else src) @ ''_prefixmap.go''"

lemma target_file_cpl: "target_file ''cpl.go'' = ''cpl_prefixmap.go''"
  by (simp add: target_file_def)

definition tab :: string where "tab = [char_of (9 :: nat)]"

text \<open>What is printed for the entry \<open>j\<close> at index \<open>i\<close>, in two calls.\<close>

definition entry_sep :: "nat \<Rightarrow> string" where
  "entry_sep i = (if i mod 16 = 0 then nl @ tab else '' '')"

definition entry_text :: "nat \<Rightarrow> string" where "entry_text j = dec_nat j @ '',''"

definition target :: nat where "target = 2 ^ 16"

definition gen_prints :: "string \<Rightarrow> (16 word \<Rightarrow> 32 word) \<Rightarrow> string list" where
  "gen_prints pkg ids =
     [''package '' @ pkg @ nl @ nl, ''// Code generated by ./gen.go DO NOT EDIT'' @ nl,
      ''var keyPrefixMap = [...]uint32{''] @
     concat (map (\<lambda>i. [entry_sep i, entry_text (unat (ids (word_of_nat i)))]) [0..<target]) @
     [nl @ ''}'' @ nl]"

text \<open>
  The calls of \<open>printf\<close> in order; the one at index \<open>k\<close> fails with \<open>err k\<close>, which is a panic. The file has to
  be created before and closed after.
\<close>

fun print_all :: "(nat \<Rightarrow> goerr option) \<Rightarrow> nat \<Rightarrow> string list \<Rightarrow> string \<Rightarrow> string may_panic" where
  "print_all err k [] content = Inr content"
| "print_all err k (s # ss) content =
     (case err k of Some e \<Rightarrow> Inl ''panic'' | None \<Rightarrow> print_all err (k + 1) ss (content @ s))"

definition gen_file ::
  "goerr option \<Rightarrow> (nat \<Rightarrow> goerr option) \<Rightarrow> goerr option \<Rightarrow> string \<Rightarrow> (16 word \<Rightarrow> 32 word) \<Rightarrow> string may_panic" where
  "gen_file create err close pkg ids =
     (case create of
        Some e \<Rightarrow> Inl ''panic''
      | None \<Rightarrow>
          (case print_all err 0 (gen_prints pkg ids) [] of
             Inl panic \<Rightarrow> Inl panic
           | Inr content \<Rightarrow> (case close of Some e \<Rightarrow> Inl ''panic'' | None \<Rightarrow> Inr content)))"

text \<open>The whole program; the search may not end.\<close>

definition gen_main ::
  "(bytes \<Rightarrow> bytes) \<Rightarrow> goerr option \<Rightarrow> (nat \<Rightarrow> goerr option) \<Rightarrow> goerr option \<Rightarrow> string \<Rightarrow> string may_panic option" where
  "gen_main sha256 create err close pkg = map_option (gen_file create err close pkg) (gen_table sha256)"

section \<open>The numbers of the file\<close>

lemma print_all_Inr: "print_all err k ss content = Inr content' \<Longrightarrow> content' = content @ concat ss"
  by (induction err k ss content rule: print_all.induct) (auto split: option.splits)

lemma spaces [simp]: "space_len (char_of (9 :: nat) # s) = 1" "space_len (char_of (10 :: nat) # s) = 1"
  by (simp_all add: space_len.simps ascii_spaces_def)

lemma fields_prepend: "solid v \<Longrightarrow> fields_from w (v @ s) = fields_from (w @ v) s"
  by (induction v arbitrary: w) (auto simp: fields_from.simps(2))

lemma fields_sep:
  "fields_from w (entry_sep i @ s) = (if w = [] then [] else [w]) @ fields_from [] s"
  by (simp add: entry_sep_def tab_def nl_def fields_from.simps(2))

lemma entry_solid: "solid (entry_text j)" "entry_text j \<noteq> []"
  by (simp_all add: entry_text_def dec_nat_solid ascii_solid)

lemma fields_entries:
  "fields_from w (concat (map (\<lambda>i. entry_sep i @ entry_text (f i)) xs) @ nl @ s) =
     (if w = [] then [] else [w]) @ map (entry_text \<circ> f) xs @ fields_from [] s"
proof (induction xs arbitrary: w)
  case Nil
  then show ?case by (simp add: nl_def fields_from.simps(2))
next
  case (Cons x xs)
  then show ?case using entry_solid(2) [of "f x"] by (simp add: fields_sep fields_prepend entry_solid(1))
qed

lemma entry_value: "dec_val (butlast (entry_text j)) = j"
  by (simp add: entry_text_def butlast_append)

lemma print_all_ok: "print_all (\<lambda>k. None) n ss content = Inr (content @ concat ss)"
  by (induction ss arbitrary: n content) simp_all

text \<open>
  The file that is written, if nothing fails, is a head that depends on the package only, and a body whose
  words are the entries of the table in order, each the decimal digits of a number and a comma, and a brace.
\<close>
lemma generated_file:
  assumes "gen_file None err None pkg ids = Inr content"
  shows "\<exists>head body. content = head @ body \<and> last head = CHR ''{'' \<and>
           Fields body = map (\<lambda>i. entry_text (unat (ids (word_of_nat i)))) [0..<target] @ [''}'']"
proof -
  let ?f = "\<lambda>i. unat (ids (word_of_nat i))"
  let ?head = "''package '' @ pkg @ nl @ nl @ ''// Code generated by ./gen.go DO NOT EDIT'' @ nl @
    ''var keyPrefixMap = [...]uint32{''"
  let ?body = "concat (map (\<lambda>i. entry_sep i @ entry_text (?f i)) [0..<target]) @ nl @ ''}'' @ nl"
  have "print_all err 0 (gen_prints pkg ids) [] = Inr content"
    using assms by (auto simp: gen_file_def split: sum.splits)
  then have "content = concat (gen_prints pkg ids)" using print_all_Inr by fastforce
  moreover have "concat (concat (map (\<lambda>i. [entry_sep i, entry_text (?f i)]) xs)) =
      concat (map (\<lambda>i. entry_sep i @ entry_text (?f i)) xs)" for xs
    by (induction xs) simp_all
  ultimately have content: "content = ?head @ ?body" by (simp add: gen_prints_def)
  have "fields_from [] (''}'' @ nl) = [''}'']"
    using fields_entries [of "''}''" ?f "[]" "[]"] fields_prepend [of "''}''" "[]" nl]
    by (simp add: ascii_solid)
  then have "Fields ?body = map (\<lambda>i. entry_text (?f i)) [0..<target] @ [''}'']"
    unfolding Fields_def fields_entries by (simp add: comp_def)
  moreover have "last ?head = CHR ''{''" by simp
  ultimately show ?thesis using content by blast
qed

text \<open>
  C27: The search of \<open>gen.go\<close> ends, before its counter wraps around, if every 16-bit prefix is that of
  the hash of some number; if the file can be written, its numbers are then, at the position of every
  prefix, the smallest number whose hash starts with that prefix, and there are no more of them.
\<close>
theorem prefix_file_correct:
  assumes "\<forall>p. \<exists>i. gen_prefix sha256 i = p"
  shows "\<exists>content head body. gen_main sha256 None (\<lambda>k. None) None pkg = Some (Inr content) \<and>
           content = head @ body \<and> last head = CHR ''{'' \<and> length (Fields body) = 2 ^ 16 + 1 \<and>
           (\<forall>p. \<exists>i. Fields body ! unat p = dec_nat (unat i) @ '','' \<and> gen_prefix sha256 i = p \<and>
              (\<forall>k < i. gen_prefix sha256 k \<noteq> p))"
proof -
  obtain ids where ids: "gen_table sha256 = Some ids" "\<forall>p. first_hit (gen_prefix sha256) p (ids p)"
    using gen_table_finds [OF assms] by auto
  have ok: "gen_file None (\<lambda>k. None) None pkg ids = Inr (concat (gen_prints pkg ids))"
    by (simp add: gen_file_def print_all_ok)
  obtain head body where parts: "concat (gen_prints pkg ids) = head @ body" "last head = CHR ''{''"
      "Fields body = map (\<lambda>i. entry_text (unat (ids (word_of_nat i)))) [0..<target] @ [''}'']"
    using generated_file [OF ok] by blast
  have "Fields body ! unat p = dec_nat (unat (ids p)) @ '',''" for p
  proof -
    have "unat p < target" using unsigned_less [of p, where ?'a = nat] by (simp add: target_def)
    then show ?thesis by (simp add: parts(3) nth_append entry_text_def)
  qed
  moreover have "length (Fields body) = 2 ^ 16 + 1" by (simp add: parts(3) target_def)
  moreover have "gen_main sha256 None (\<lambda>k. None) None pkg = Some (Inr (concat (gen_prints pkg ids)))"
    by (simp add: gen_main_def ids(1) ok)
  ultimately show ?thesis using ids(2) parts(1,2) unfolding first_hit_def by blast
qed

lemma prefix_file_correct_witness:
  "\<exists>content head body. gen_main (sha256_Sum256 low_hash) None (\<lambda>k. None) None ''cplutil'' = Some (Inr content) \<and>
     content = head @ body \<and> Fields body ! 5 = ''5,''"
proof -
  obtain content head body where run:
    "gen_main (sha256_Sum256 low_hash) None (\<lambda>k. None) None ''cplutil'' = Some (Inr content)" "content = head @ body"
    and words: "\<forall>p. \<exists>i. Fields body ! unat p = dec_nat (unat i) @ '','' \<and>
      gen_prefix (sha256_Sum256 low_hash) i = p \<and> (\<forall>k < i. gen_prefix (sha256_Sum256 low_hash) k \<noteq> p)"
    using prefix_file_correct [OF low_hash_surj, of "''cplutil''"] by blast
  obtain i where i: "Fields body ! unat (5 :: 16 word) = dec_nat (unat i) @ '',''"
    "gen_prefix (sha256_Sum256 low_hash) i = 5" "\<forall>k < i. gen_prefix (sha256_Sum256 low_hash) k \<noteq> 5"
    using words by blast
  have "\<not> 5 < i" using i(3) by (auto simp: low_hash_prefix)
  moreover have "\<not> i < 5"
  proof
    assume "i < 5"
    then have "unat i < 5" by (simp add: word_less_nat_alt)
    moreover have "unat (ucast i :: 16 word) = 5" using i(2) by (simp add: low_hash_prefix)
    ultimately show False by (simp add: unsigned_ucast_eq take_bit_eq_mod)
  qed
  ultimately have "i = 5" by simp
  moreover have "char_of (53 :: nat) = CHR ''5''" by code_simp
  ultimately have "Fields body ! 5 = ''5,''" using i(1) by (simp add: dec_nat.simps)
  then show ?thesis using run by blast
qed

end
