(* ===== verification/Sha256.thy ===== *)
theory Sha256
  imports CplProps
begin

text \<open>
  SHA-256 as \<open>crypto/sha256\<close> of the standard library computes it (FIPS 180-4), for the hash that the other
  theories take as a parameter: the digest has 32 bytes, so the laws of the parameter hold of it, and its
  values agree with the file that \<open>gen.go\<close> generated.
\<close>

unbundle bit_operations_syntax

section \<open>The hash\<close>

definition rotr :: "nat \<Rightarrow> 32 word \<Rightarrow> 32 word" where
  "rotr n x = drop_bit n x OR push_bit (32 - n) x"

text \<open>The constants of the standard, in decimal.\<close>

definition K256 :: "32 word list" where
  "K256 =
     [1116352408, 1899447441, 3049323471, 3921009573, 961987163, 1508970993, 2453635748, 2870763221,
      3624381080, 310598401, 607225278, 1426881987, 1925078388, 2162078206, 2614888103, 3248222580,
      3835390401, 4022224774, 264347078, 604807628, 770255983, 1249150122, 1555081692, 1996064986,
      2554220882, 2821834349, 2952996808, 3210313671, 3336571891, 3584528711, 113926993, 338241895,
      666307205, 773529912, 1294757372, 1396182291, 1695183700, 1986661051, 2177026350, 2456956037,
      2730485921, 2820302411, 3259730800, 3345764771, 3516065817, 3600352804, 4094571909, 275423344,
      430227734, 506948616, 659060556, 883997877, 958139571, 1322822218, 1537002063, 1747873779,
      1955562222, 2024104815, 2227730452, 2361852424, 2428436474, 2756734187, 3204031479, 3329325298]"

definition H256 :: "32 word list" where
  "H256 = [1779033703, 3144134277, 1013904242, 2773480762, 1359893119, 2600822924, 528734635, 1541459225]"

text \<open>The message schedule, newest word first.\<close>

definition sched_next :: "32 word list \<Rightarrow> 32 word" where
  "sched_next w =
     (rotr 17 (w ! 1) XOR rotr 19 (w ! 1) XOR drop_bit 10 (w ! 1)) + w ! 6 +
     (rotr 7 (w ! 14) XOR rotr 18 (w ! 14) XOR drop_bit 3 (w ! 14)) + w ! 15"

fun sched :: "nat \<Rightarrow> 32 word list \<Rightarrow> 32 word list" where
  "sched 0 w = rev w"
| "sched (Suc n) w = sched n (sched_next w # w)"

fun round256 :: "32 word list \<Rightarrow> 32 word \<times> 32 word \<Rightarrow> 32 word list" where
  "round256 [a, b, c, d, e, f, g, h] (k, w) =
     (let t1 = h + (rotr 6 e XOR rotr 11 e XOR rotr 25 e) + ((e AND f) XOR (NOT e AND g)) + k + w;
          t2 = (rotr 2 a XOR rotr 13 a XOR rotr 22 a) + ((a AND b) XOR (a AND c) XOR (b AND c))
      in [t1 + t2, a, b, c, d + t1, e, f, g])"
| "round256 s kw = s"

definition block256 :: "32 word list \<Rightarrow> 32 word list \<Rightarrow> 32 word list" where
  "block256 s w = map2 (+) s (foldl round256 s (zip K256 (sched 48 (rev w))))"

fun be_words :: "bytes \<Rightarrow> 32 word list" where
  "be_words (a # b # c # d # m) = BigEndian_Uint32 [a, b, c, d] # be_words m"
| "be_words m = []"

fun blocks_of :: "32 word list \<Rightarrow> 32 word list list" where
  "blocks_of ws = (if length ws < 16 then [] else take 16 ws # blocks_of (drop 16 ws))"

declare blocks_of.simps [simp del]

text \<open>A one, zeros up to eight bytes before the end of a block, the length in bits.\<close>

definition pad256 :: "bytes \<Rightarrow> bytes" where
  "pad256 m =
     m @ [byte_char 0x80] @ replicate ((119 - length m mod 64) mod 64) (byte_char 0) @
     BigEndian_PutUint32 (word_of_nat (8 * length m div 2 ^ 32)) @ BigEndian_PutUint32 (word_of_nat (8 * length m))"

definition Sum256 :: "bytes \<Rightarrow> bytes" where
  "Sum256 m = concat (map BigEndian_PutUint32 (foldl block256 H256 (blocks_of (be_words (pad256 m)))))"

section \<open>The digest has 32 bytes\<close>

lemma length_round256 [simp]: "length (round256 s kw) = length s"
  by (induction s kw rule: round256.induct) (auto simp: Let_def)

lemma length_rounds: "length (foldl round256 s kws) = length s"
  by (induction kws arbitrary: s) auto

lemma length_blocks: "length (foldl block256 s bs) = length s"
  by (induction bs arbitrary: s) (auto simp: block256_def length_rounds)

lemma length_digest: "length (Sum256 m) = 32"
proof -
  have "length (concat (map BigEndian_PutUint32 ws)) = 4 * length ws" for ws
    by (induction ws) (simp_all add: BigEndian_PutUint32_def)
  then show ?thesis by (simp add: Sum256_def length_blocks H256_def)
qed

lemma byte_cases:
  assumes "n < LENGTH(32)"
  obtains "n < 8" | "8 \<le> n" "n < 16" | "16 \<le> n" "n < 24" | "24 \<le> n" "n < 32"
  using assms by fastforce

lemma Uint32_Put: "BigEndian_Uint32 (BigEndian_PutUint32 w @ s) = w"
proof (rule bit_word_eqI)
  fix n assume n: "n < LENGTH(32)"
  then show "bit (BigEndian_Uint32 (BigEndian_PutUint32 w @ s)) n = bit w n"
    by (cases rule: byte_cases)
      (auto simp: BigEndian_Uint32_def BigEndian_PutUint32_def bit_simps word8_bit)
qed

section \<open>Values\<close>

text \<open>The words of the block for the identity of a number.\<close>

definition id_words :: "32 word \<Rightarrow> 32 word list" where
  "id_words i =
     [0x12200000 OR drop_bit 16 i, push_bit 16 i, 0, 0, 0, 0, 0, 0, 0x8000, 0, 0, 0, 0, 0, 0, 0x110]"

lemma high_bytes:
  "ucast (ucast (drop_bit 16 i) :: 8 word) OR push_bit 8 (ucast (ucast (drop_bit 24 i) :: 8 word)) = drop_bit 16 (i :: 32 word)"
    (is "?l = _")
proof (rule bit_word_eqI)
  fix n assume n: "n < LENGTH(32)"
  then show "bit ?l n = bit (drop_bit 16 i) n"
    by (cases rule: byte_cases) (auto simp: bit_simps word8_bit dest: bit_imp_le_length)
qed

lemma low_bytes:
  "push_bit 16 (ucast (ucast i :: 8 word)) OR push_bit 24 (ucast (ucast (drop_bit 8 i) :: 8 word)) = push_bit 16 (i :: 32 word)"
    (is "?l = _")
proof (rule bit_word_eqI)
  fix n assume n: "n < LENGTH(32)"
  then show "bit ?l n = bit (push_bit 16 i) n"
    by (cases rule: byte_cases) (auto simp: bit_simps word8_bit)
qed

lemma first_words:
  "BigEndian_Uint32 [byte_char 0x12, byte_char 32, byte_char (ucast (drop_bit 24 i)), byte_char (ucast (drop_bit 16 i))] =
     0x12200000 OR drop_bit 16 i"
  "BigEndian_Uint32 [byte_char (ucast (drop_bit 8 i)), byte_char (ucast i), byte_char 0, byte_char 0] = push_bit 16 i"
proof -
  have "BigEndian_Uint32 [byte_char 0x12, byte_char 32, byte_char (ucast (drop_bit 24 i)),
      byte_char (ucast (drop_bit 16 i))] =
    (0x200000 OR 0x12000000) OR
      (ucast (ucast (drop_bit 16 i) :: 8 word) OR push_bit 8 (ucast (ucast (drop_bit 24 i) :: 8 word)))"
    by (simp add: BigEndian_Uint32_def or.assoc or.left_commute or.commute)
  then show "BigEndian_Uint32 [byte_char 0x12, byte_char 32, byte_char (ucast (drop_bit 24 i)),
      byte_char (ucast (drop_bit 16 i))] = 0x12200000 OR drop_bit 16 i"
    by (simp add: high_bytes)
  show "BigEndian_Uint32 [byte_char (ucast (drop_bit 8 i)), byte_char (ucast i), byte_char 0, byte_char 0] = push_bit 16 i"
    by (simp add: BigEndian_Uint32_def low_bytes)
qed

lemma replicates:
  "replicate 28 x = [x, x, x, x, x, x, x, x, x, x, x, x, x, x, x, x, x, x, x, x, x, x, x, x, x, x, x, x]"
  "replicate 21 x = [x, x, x, x, x, x, x, x, x, x, x, x, x, x, x, x, x, x, x, x, x]"
  by (simp_all add: eval_nat_numeral)

lemma pad_id:
  "pad256 (multihash_id i) =
     [byte_char 0x12, byte_char 32] @ BigEndian_PutUint32 i @ replicate 28 (byte_char 0) @ [byte_char 0x80] @
     replicate 21 (byte_char 0) @ replicate 6 (byte_char 0) @ [byte_char 1, byte_char 0x10]"
proof -
  have "byte_char 272 = byte_char 16" by (rule arg_cong [of _ _ byte_char]) simp
  moreover have "replicate 6 x = [x, x, x, x, x, x]" for x :: char by (simp add: eval_nat_numeral)
  ultimately show ?thesis
    by (simp add: pad256_def multihash_id_def BigEndian_PutUint32_def)
qed

lemma id_block: "blocks_of (be_words (pad256 (multihash_id i))) = [id_words i]"
proof -
  have zero: "BigEndian_Uint32 [byte_char 0, byte_char 0, byte_char 0, byte_char 0] = 0"
    "BigEndian_Uint32 [byte_char 0, byte_char 0, byte_char 0x80, byte_char 0] = 0x8000"
    "BigEndian_Uint32 [byte_char 0, byte_char 0, byte_char 1, byte_char 0x10] = 0x110"
    by (simp_all add: BigEndian_Uint32_def)
  have six: "replicate 6 x = [x, x, x, x, x, x]" for x :: char by (simp add: eval_nat_numeral)
  have "be_words (pad256 (multihash_id i)) = id_words i"
    unfolding pad_id replicates six by (simp add: BigEndian_PutUint32_def first_words zero id_words_def)
  moreover have "length (id_words i) = 16" by (simp add: id_words_def)
  ultimately show ?thesis by (simp add: blocks_of.simps [of "id_words i"] blocks_of.simps [of "[]"])
qed

lemma prefix_block:
  "gen_prefix Sum256 i = ucast (drop_bit 16 (hd (block256 H256 (id_words i))))"
proof -
  have "length (block256 H256 (id_words i)) = 8" by (simp add: block256_def length_rounds H256_def)
  then obtain w ws where "block256 H256 (id_words i) = w # ws" by (cases "block256 H256 (id_words i)") auto
  then show ?thesis by (simp add: gen_prefix_def Sum256_def id_block Uint32_Put)
qed

text \<open>The first number of \<open>cpl_prefixmap.go\<close>, 77591, in stages.\<close>

definition first_schedule :: "32 word list" where
  "first_schedule =
     [0x12200001, 0x2f170000, 0x0, 0x0, 0x0, 0x0, 0x0, 0x0, 0x8000, 0x0, 0x0, 0x0, 0x0, 0x0, 0x0, 0x110,
      0xd7dcc5c6, 0x2fc10000, 0xfa6e4624, 0xa00be258, 0xebe879eb, 0x8d4f46fc, 0x33f273a7, 0x435f5ba5,
      0xa76d031b, 0x41252436, 0xc1d35e73, 0x22761bea, 0x52173300, 0x2733c9a, 0xe398024a, 0x477176a7,
      0x5ffe5fab, 0x4e5b2051, 0x5ef2e132, 0xbb2452ba, 0x5410e3a5, 0xe8fc7397, 0x7d1af414, 0xbe46858b,
      0x480b9986, 0x5a987bb8, 0x93ca48e6, 0x6f6b5c13, 0xa3cb111b, 0xce44b9e8, 0xa82dfd12, 0x2622e0a6,
      0x5edb67ab, 0xe5a2f6fc, 0x24521bef, 0xfd4b5364, 0x9f048c5c, 0xef6898ad, 0x1c96a426, 0x608b73b6,
      0x1947a218, 0xa407efae, 0xb296618d, 0xfff38cda, 0x763da228, 0xf1b68945, 0x5ea7bbd6, 0x59acbb99]"

lemma first_schedule: "sched 48 (rev (id_words 77591)) = first_schedule"
  by code_simp

lemma first_half:
  "foldl round256 H256 (take 32 (zip K256 first_schedule)) =
     [0x180811e6, 0x29323529, 0xe312a2f8, 0x6ef4443b, 0xcd2ca939, 0x57a1b367, 0x410eceec, 0x917edd89]"
  by code_simp

lemma second_half:
  "foldl round256 [0x180811e6, 0x29323529, 0xe312a2f8, 0x6ef4443b, 0xcd2ca939, 0x57a1b367, 0x410eceec, 0x917edd89]
     (drop 32 (zip K256 first_schedule)) =
     [0x95f68d7f, 0x2680eb95, 0x797219b5, 0x126eead7, 0x598968b7, 0xf57a7a50, 0x78050211, 0xe0f24069]"
  by code_simp

lemma first_entry: "gen_prefix Sum256 77591 = 0"
proof -
  have "foldl round256 H256 (zip K256 first_schedule) =
      foldl round256 (foldl round256 H256 (take 32 (zip K256 first_schedule))) (drop 32 (zip K256 first_schedule))"
    by (simp only: foldl_append [symmetric] append_take_drop_id)
  note rounds = this [unfolded first_half second_half]
  have "hd (block256 H256 (id_words 77591)) = 0x73e6"
    unfolding block256_def first_schedule rounds by (simp add: H256_def)
  then show ?thesis by (simp add: prefix_block)
qed

section \<open>The hash library\<close>

text \<open>The parameter of the key theories with the real hash; a 256-bit key is its 32 bytes.\<close>

definition sha_hash :: "bytes hash_lib" where
  "sha_hash = low_hash\<lparr>sha256_Sum256 := Sum256\<rparr>"

lemma sha_hash_laws: "bit256_laws sha_hash"
  using low_hash_laws by (simp add: bit256_laws_def sha_hash_def length_digest)

end
