(* ===== verification/Spec2Isabelle.thy ===== *)
theory Spec2Isabelle
  imports DiversityFilter Stream Amino CplProps KeystoreRace Router FetchRace Channels Network Wire Assembly Tui
    MeterViews KadTest PrefixFile Sha256
begin

text \<open>
  A verification library of zikade, a Kademlia DHT node on libp2p that speaks the Amino protocol. The
  program is the package \<open>zikade\<close> with its parts \<open>pb\<close> (messages), \<open>kadt\<close> (keys), \<open>tele\<close> (metrics),
  \<open>internal/cplutil\<close> (keys by prefix) and the tool \<open>cmd/scout\<close>. Queries, the routing table and the
  scheduling are in the libraries xorbie and go-libdht, which are not part of the repository.

  \<^bold>\<open>The program.\<close> A node (\<open>dht.go\<close>) serves requests on streams (\<open>stream.go\<close>, \<open>handlers.go\<close>) while it is in
  server mode and looks things up in the network (\<open>routing.go\<close>) through a coordinator that sends its messages
  with \<open>router.go\<close>. What peers store goes to backends by namespace (\<open>backend.go\<close>): provider records
  (\<open>backend_provider.go\<close>, with a cache and a garbage collection) and value records
  (\<open>backend_record.go\<close>), all wrapped in tracing (\<open>backend_trace.go\<close>) and on one datastore, which also holds
  the keys that the node itself provides (\<open>providerkeystore.go\<close>). Reachability events switch the mode
  (\<open>notifee.go\<close>); a filter bounds how many peers of one network the routing table takes
  (\<open>diversity_filter.go\<close>).

  \<^bold>\<open>Conventions\<close> (theory \<open>Prelude\<close>). Strings and byte slices are \<open>bytes\<close>, maps are association lists or
  functions, structs are records, errors are values of \<open>goerr\<close>, a result with an error is \<open>goerr + 'a\<close>, a panic
  is a value of \<open>may_panic\<close>. Machine integers that are packed or shifted are words, others are \<open>int\<close>; a
  time is nanoseconds since the epoch. State is passed explicitly. Code that the repository only calls is
  a record of functions, and what is assumed of it is a definition that says so: \<open>lib_laws\<close> and
  \<open>datastore_laws\<close> (base32, the datastore with its queries and transactions), \<open>lru_laws\<close>, \<open>proto_law\<close>,
  \<open>trie_laws\<close>, \<open>bit256_laws\<close>, \<open>peerstore_laws\<close>, \<open>set_law\<close>. A write to the datastore that fails may have taken
  effect or not; that it has not is \<open>failed_writes_void\<close>, which the theorems on the provided keys mention where it
  makes a difference. \<open>Instances\<close> gives concrete libraries that satisfy the laws; the witnesses run on those.

  \<^bold>\<open>Theories.\<close>
  \<^item> \<open>DiversityFilter\<close> (\<open>diversity_filter.go\<close>): the counters per group and per bucket, and the wrapper of the
    third-party filter, which is a parameter. They count exactly the groups of the accepted peers, and no more peers
    than the limits share a group, if that filter asks for all groups of a peer before it counts any; the
    contract of the counters is the locale \<open>ip_group_counter\<close>.
  \<^item> \<open>Varint\<close>, \<open>ExpiryRecord\<close>: the varint codec (locale \<open>codec\<close>) and the record of a provider, which is read
    back as it was written; truncated and overflowing input.
  \<^item> \<open>Backend\<close> (\<open>backend.go\<close>, \<open>backend_trace.go\<close>): the interface, its promises as the locale
    \<open>backend_contract\<close>, which both kinds of backends interpret, and the tracing wrapper with its span log.
  \<^item> \<open>Datastore\<close>, \<open>ProvidersBackend\<close>, \<open>ProvidersProps\<close>, \<open>CacheTypes\<close>, \<open>GcRace\<close>, \<open>FetchRace\<close> (\<open>backend_provider.go\<close>): keys,
    \<open>Store\<close>, \<open>Fetch\<close>, \<open>Validate\<close> and the collection. Provider sets share their map when the struct is
    copied, so the maps live in a heap. \<open>GcRace\<close> splits \<open>Store\<close> and \<open>collectGarbage\<close> into the steps between
    which other goroutines run; run alone the steps are the operations. Its theorems say what the skip list
    protects, that a collection ends and leaves nothing of a dead record, and which record is lost. \<open>FetchRace\<close> adds the steps of \<open>Fetch\<close> and the writes to
    the shared maps: a fetch among other goroutines answers as if it ran alone at the moment of its query, only
    stores for one key can write to one map at once, and a record that vanishes was seen expired.
  \<^item> \<open>RecordBackend\<close>, \<open>RecordProps\<close> (\<open>backend_record.go\<close>): value records; the validity of what is stored, the
    preference of the validator, ages.
  \<^item> \<open>Keys\<close>, \<open>Messages\<close>, \<open>Handlers\<close>, \<open>HandlerProps\<close>, \<open>Stream\<close> (\<open>kadt/kadt.go\<close>, \<open>pb/msg.aux.go\<close>,
    \<open>handlers.go\<close>, \<open>stream.go\<close>): one definition for each handler; the loop of a stream on the outcomes of
    its reads and writes refines the serving of the decoded requests in order.
  \<^item> \<open>Amino\<close>: the default backends on one datastore, as \<open>initAminoBackends\<close> and \<open>New\<close> put them together.
  \<^item> \<open>Routing\<close>, \<open>RoutingProps\<close>, \<open>AsyncProps\<close>, \<open>Channels\<close> (\<open>routing.go\<close>): the lookups as folds of their callbacks
    over the nodes that the coordinator visits (\<open>run_query\<close>). \<open>AsyncProps\<close> relates the channel of
    \<open>FindProvidersAsync\<close>, which a context may cut off at any send, to the list that \<open>FindProviders\<close> returns;
    \<open>Channels\<close> has the sends, the caller and the context as steps, where a query may end with its context, and says
    when a search hangs.
  \<^item> \<open>Config\<close>, \<open>ConfigProps\<close>, \<open>Lifecycle\<close>, \<open>LifecycleProps\<close> (\<open>config.go\<close>, \<open>bootstrap.go\<close>, \<open>dht.go\<close>,
    \<open>notifee.go\<close>): validation, construction, the modes as a state machine on the node and its host
    (\<open>node_step\<close>), closing.
  \<^item> \<open>CplUtil\<close>, \<open>CplProps\<close>, \<open>PrefixFile\<close>, \<open>Sha256\<close> (\<open>internal/cplutil\<close>): the search of \<open>gen.go\<close>, the file it
    writes and the keys built from its table. \<open>Sha256\<close> computes the hash, which is a parameter elsewhere, and
    checks the first number of the generated file with it.
  \<^item> \<open>Keystore\<close>, \<open>KeystoreRace\<close>, \<open>Router\<close> (\<open>providerkeystore.go\<close>, \<open>router.go\<close>): the provided keys as a set that
    survives restarts, but for keys whose last write failed, also when goroutines add and remove keys at once, except
    for a key on which an addition and a removal overlap (\<open>ks_step\<close> runs the writes to the datastore and to the
    index apart); sending a request, down to the handler of the node that answers it.
  \<^item> \<open>Telemetry\<close>, \<open>MeterViews\<close> (\<open>telemetry.go\<close>, \<open>tele\<close>): attributes in contexts, instruments and their views,
    gauges of the routing table.
  \<^item> \<open>Scout\<close>, \<open>ScoutProps\<close>, \<open>Tui\<close> (\<open>cmd/scout\<close>): start, command line, traces and panels of the tool; its
    interface with keys, searches and refresh as the step relation \<open>tui_step\<close>. How the terminal library breaks a
    line into rows is a parameter.
  \<^item> \<open>KadTest\<close> (\<open>internal/kadtest\<close>): deadlines and channel checks of the tests.

  \<^bold>\<open>Components together.\<close>
  \<^item> \<open>Composition\<close>, \<open>Node\<close>: the handlers, all backends, the collection, the lookups and the keystore on one
    datastore. The locale \<open>confined_node\<close> says what the handlers need of backends to keep a relation,
    \<open>confined_routing\<close> extends it to the lookups; their interpretations show that nothing that peers request
    reaches beyond the namespaces of the backends. So the set of keys to reprovide is exactly what the node
    provided and did not remove (\<open>reprovide_set_exact\<close>); where a write failed a restart may differ.
  \<^item> \<open>Assembly\<close>: \<open>New\<close> with the default configuration, \<open>initAminoBackends\<close> and \<open>newProviderKeystore\<close> of the
    repository, which are arguments in \<open>Lifecycle\<close> so that the theorems there hold whatever they return. A node
    so created starts as the theorems of \<open>Node\<close> require, and a restart keeps what it provides.
  \<^item> \<open>Network\<close>, \<open>Wire\<close>: several nodes. What one provides or puts another finds over a third that serves it and has
    no cached answer; \<open>Wire\<close> goes through the senders and the stream handlers.

  \<^bold>\<open>Loops and bounds.\<close> Loops over lists are structural recursions. The loop of a stream and that of the refresh
  consume the list of what their calls return. The search of \<open>gen.go\<close> may run for ever, so \<open>gen_loop\<close> is a
  partial function with an option; \<open>prefix_file_correct\<close> shows that it returns if every prefix has a
  preimage among the 32-bit numbers, which is a hypothesis as it depends on all values of SHA-256. No fuel is used
  anywhere. The only other unbounded behaviour, interleavings in \<open>GcRace\<close>, \<open>FetchRace\<close>, \<open>KeystoreRace\<close>, \<open>Channels\<close> and
  \<open>Tui\<close> and steps in \<open>LifecycleProps\<close>, is that of inductive relations.

  \<^bold>\<open>Not modelled.\<close> Logging (but for the lines of \<open>warnErr\<close> and \<open>debugErr\<close>), spans (but for those of
  backends) and the drawing of the terminal interface: they have no effect on what the node does. No-op tracers
  and default loggers: they only call a library.
  \<open>cpl_prefixmap.go\<close> is generated data and an argument. \<open>pb/msg.pb.go\<close> is generated: its types are
  modelled, the wire format is a parameter, except its size. The coordinator with its queries, the routing table
  and the schedule of reproviding are libraries: which nodes a query visits is an argument. Contexts carry
  attributes only: cancellation is an error that a call returns. Goroutines other than those of \<open>GcRace\<close>,
  \<open>FetchRace\<close>, \<open>KeystoreRace\<close>, \<open>Channels\<close> and \<open>Tui\<close> are run to completion.
\<close>

end
